(* ===== verification/Prelude.thy ===== *)
theory Prelude
  imports "HOL-Library.Word" "HOL-Library.AList" "HOL-Library.Char_ord" "HOL-Library.List_Lexorder"
  "HOL-Library.Multiset"
begin

text \<open>
  Shared vocabulary of the development: the types the Go source uses (bytes, the fixed-width
  integers, 32-byte keys), the big-endian integer encodings of \<^verbatim>\<open>encoding/binary\<close>, Go maps as
  association lists, and the generic lemmas on lists and maps that the components rely on.

  A Go \<^verbatim>\<open>string\<close> is a sequence of bytes, as Isabelle's \<^typ>\<open>string\<close> is (characters are 8-bit
  values), so \<^verbatim>\<open>strings.Compare\<close> is the lexicographic order of \<open>List_Lexorder\<close> over \<open>Char_ord\<close>.
  A Go map is an association list whose keys are distinct. The order of the list stands for the
  order in which \<^verbatim>\<open>range\<close> visits the map, which Go leaves open: a theorem that holds of every
  association list holds of every iteration order.
\<close>

named_theorems wf_intros \<open>operations keep the well-formedness invariant of their component\<close>
named_theorems frame_simps \<open>what an operation leaves unchanged\<close>

section \<open>Machine types\<close>

type_synonym byte = "8 word"
type_synonym bytes = "byte list"
type_synonym uint16 = "16 word"
type_synonym uint64 = "64 word"
type_synonym int64 = "64 word"

text \<open>
  A 32-byte array (\<^verbatim>\<open>trust.PublicKey\<close>, \<^verbatim>\<open>[32]byte\<close>) is a 256-bit word, its first byte the most
  significant one: \<open>key_bytes\<close> below gives the array, and \<open>key_bytes_less_iff\<close> shows that
  \<^verbatim>\<open>bytes.Compare\<close> on the arrays is the order of the words. The zero word is the array of zeroes,
  Go's zero value.
\<close>

type_synonym public_key = "256 word"

section \<open>Big-endian integers\<close>

fun be_bytes :: "nat \<Rightarrow> nat \<Rightarrow> bytes" where
  "be_bytes 0 v = []"
| "be_bytes (Suc n) v = of_nat (v div 256 ^ n) # be_bytes n v"

definition be_nat :: "bytes \<Rightarrow> nat" where
  "be_nat bs = foldl (\<lambda>acc b. acc * 256 + unat b) 0 bs"

definition key_bytes :: "public_key \<Rightarrow> bytes" where
  "key_bytes k = be_bytes 32 (unat k)"

definition string_bytes :: "string \<Rightarrow> bytes" where
  "string_bytes s = map of_char s"

lemma be_bytes_numeral [simp]:
  "be_bytes (numeral k) v = of_nat (v div 256 ^ pred_numeral k) # be_bytes (pred_numeral k) v"
  by (simp add: numeral_eq_Suc)

lemma length_be_bytes [simp]: "length (be_bytes n v) = n"
  by (induction n) auto

lemma unat_byte_bound [simp]: "unat (b :: byte) < 256"
  using unsigned_less [where 'a = nat, of b] by simp

lemma byte_of_nat_eq_iff: "(of_nat x :: byte) = of_nat y \<longleftrightarrow> x mod 256 = y mod 256"
  by (simp add: word_unat_eq_iff unat_of_nat)

lemma be_nat_snoc: "be_nat (bs @ [b]) = be_nat bs * 256 + unat b"
  by (simp add: be_nat_def)

lemma be_nat_Cons: "be_nat (b # bs) = unat b * 256 ^ length bs + be_nat bs"
proof (induction bs rule: rev_induct)
  case Nil
  then show ?case by (simp add: be_nat_def)
next
  case (snoc x xs)
  then show ?case
    using be_nat_snoc [of "b # xs" x] by (simp add: be_nat_snoc algebra_simps)
qed

lemma be_nat_be_bytes: "be_nat (be_bytes n v) = v mod 256 ^ n"
proof (induction n)
  case 0
  then show ?case by (simp add: be_nat_def)
next
  case (Suc n)
  have "unat (of_nat (v div 256 ^ n) :: byte) = v div 256 ^ n mod 256"
    by (simp add: unat_of_nat)
  then have "be_nat (be_bytes (Suc n) v) = (v div 256 ^ n mod 256) * 256 ^ n + v mod 256 ^ n"
    using Suc by (simp add: be_nat_Cons)
  also have "\<dots> = v mod 256 ^ Suc n"
    using mod_mult2_eq [of v "256 ^ n" 256] by (simp add: algebra_simps)
  finally show ?case .
qed

lemma be_bytes_inject:
  assumes "be_bytes n v = be_bytes n w" and "v < 256 ^ n" and "w < 256 ^ n"
  shows "v = w"
proof -
  have "v mod 256 ^ n = w mod 256 ^ n"
    using assms(1) by (metis be_nat_be_bytes)
  with assms(2,3) show ?thesis by simp
qed

lemma be_bytes_4_inject:
  "be_bytes 4 v = be_bytes 4 w \<Longrightarrow> v < 2 ^ 32 \<Longrightarrow> w < 2 ^ 32 \<Longrightarrow> v = w"
  by (rule be_bytes_inject [of 4]) (simp_all del: be_bytes_numeral)

lemma be_bytes_8_inject:
  fixes v w :: uint64
  assumes "be_bytes 8 (unat v) = be_bytes 8 (unat w)"
  shows "v = w"
proof -
  have "unat x < 256 ^ 8" for x :: uint64
    using unsigned_less [where 'a = nat, of x] by simp
  then have "unat v = unat w"
    using be_bytes_inject [OF assms] by blast
  then show ?thesis by (simp add: word_unat_eq_iff)
qed

lemma unat_key_bound: "unat (k :: public_key) < 256 ^ 32"
  using unsigned_less [where 'a = nat, of k] by simp

lemma length_key_bytes [simp]: "length (key_bytes k) = 32"
  by (simp add: key_bytes_def del: be_bytes_numeral)

lemma key_bytes_inject [simp]: "key_bytes a = key_bytes b \<longleftrightarrow> a = b"
proof
  assume "key_bytes a = key_bytes b"
  then have "unat a = unat b"
    unfolding key_bytes_def by (rule be_bytes_inject) (rule unat_key_bound)+
  then show "a = b" by (simp add: word_unat_eq_iff)
qed simp

lemma digits_less_iff:
  fixes a b c d m :: nat
  assumes "b < m" and "d < m"
  shows "a * m + b < c * m + d \<longleftrightarrow> a < c \<or> a = c \<and> b < d"
proof (cases a c rule: linorder_cases)
  case less
  then have "Suc a * m \<le> c * m" by (intro mult_le_mono1) simp
  with less assms show ?thesis by simp
next
  case greater
  then have "Suc c * m \<le> a * m" by (intro mult_le_mono1) simp
  with greater assms show ?thesis by simp
qed simp

lemma be_bytes_less_iff:
  "be_bytes n v < be_bytes n w \<longleftrightarrow> v mod 256 ^ n < w mod 256 ^ n"
proof (induction n arbitrary: v w)
  case 0
  then show ?case by simp
next
  case (Suc n)
  let ?d = "256 ^ n :: nat"
  have split: "x mod 256 ^ Suc n = (x div ?d mod 256) * ?d + x mod ?d" for x
    using mod_mult2_eq [of x ?d 256] by (simp add: algebra_simps)
  have top: "unat (of_nat (x div ?d) :: byte) = x div ?d mod 256" for x
    by (simp add: unat_of_nat)
  show ?case
    unfolding split
    by (subst digits_less_iff) (auto simp: Suc word_less_nat_alt word_unat_eq_iff top)
qed

lemma key_bytes_less_iff: "key_bytes a < key_bytes b \<longleftrightarrow> a < b"
  unfolding key_bytes_def be_bytes_less_iff
  by (simp only: mod_less unat_key_bound word_less_nat_alt)

lemma length_string_bytes [simp]: "length (string_bytes s) = length s"
  by (simp add: string_bytes_def)

lemma inj_of_char_byte: "inj (of_char :: char \<Rightarrow> byte)"
proof (rule injI)
  fix c d
  assume "(of_char c :: byte) = of_char d"
  then have "unat (of_nat (of_char c) :: byte) = unat (of_nat (of_char d) :: byte)"
    by (simp add: of_nat_of_char)
  then show "c = d"
    by (simp add: unat_of_nat of_char_mod_256)
qed

lemma string_bytes_inject [simp]: "string_bytes s = string_bytes t \<longleftrightarrow> s = t"
  unfolding string_bytes_def by (simp add: inj_map_eq_map inj_of_char_byte)

section \<open>Go maps\<close>

text \<open>
  \<open>AList.update\<close> stores a value under a key, \<open>AList.delete\<close> removes a key and \<open>map_of\<close>
  looks one up. \<open>go_map\<close> is what every Go map satisfies.
\<close>

definition go_map :: "('k \<times> 'v) list \<Rightarrow> bool" where
  "go_map m \<longleftrightarrow> distinct (map fst m)"

lemma go_map_Nil [simp]: "go_map []"
  by (simp add: go_map_def)

lemma go_map_update [simp]: "go_map m \<Longrightarrow> go_map (AList.update k v m)"
  by (simp add: go_map_def distinct_update)

lemma go_map_delete [simp]: "go_map m \<Longrightarrow> go_map (AList.delete k m)"
  by (simp add: go_map_def distinct_delete)

lemma map_of_update [simp]: "map_of (AList.update k v m) = (map_of m)(k \<mapsto> v)"
  by (rule update_conv')

lemma map_of_delete [simp]: "map_of (AList.delete k m) = (map_of m)(k := None)"
  by (rule delete_conv')

lemma go_map_entry: "go_map m \<Longrightarrow> (k, v) \<in> set m \<longleftrightarrow> map_of m k = Some v"
  by (simp add: go_map_def)

text \<open>Sorting a map's values by a key that determines the entry gives one list for every order.\<close>

lemma go_map_same_entries:
  assumes "go_map m" and "go_map m'" and "map_of m = map_of m'"
  shows "mset m = mset m'"
proof -
  have "distinct m" and "distinct m'"
    using assms(1,2) by (auto simp: go_map_def distinct_map)
  moreover have "set m = set m'"
    using assms by (auto simp: go_map_def) (metis map_of_eq_Some_iff)+
  ultimately show ?thesis by (simp add: set_eq_iff_mset_eq_distinct)
qed

lemma set_AList_update: "e \<in> set (AList.update k v m) \<Longrightarrow> e = (k, v) \<or> e \<in> set m"
  by (induction m) (auto split: if_splits)

lemma option_eqI: "(\<And>t. x = Some t \<longleftrightarrow> y = Some t) \<Longrightarrow> x = y"
  by (cases x; cases y) auto

section \<open>Decimal numbers\<close>

text \<open>The digits of a number, as \<^verbatim>\<open>strconv\<close> and the \<^verbatim>\<open>%d\<close> verb print it.\<close>

fun decimal :: "nat \<Rightarrow> string" where
  "decimal n = (if n < 10 then [char_of (48 + n)] else decimal (n div 10) @ [char_of (48 + n mod 10)])"

declare decimal.simps [simp del]

end
