(* ===== verification/Base_Encoding.thy ===== *)
theory Base_Encoding
  imports Prelude
begin

text \<open>
  The two text encodings of Go's standard library that the program uses: \<^verbatim>\<open>base64.StdEncoding\<close>
  (identities, \<^verbatim>\<open>internal/trust/identity.go\<close>) and \<^verbatim>\<open>base32.StdEncoding\<close> without padding (tokens,
  \<^verbatim>\<open>internal/enrol/token.go\<close>). Both decoders skip carriage returns and newlines anywhere in the
  text, reject every other character outside the alphabet, and ignore the unused low bits of the
  last character. The base64 decoder requires the padding; the base32 decoder, built without
  padding, takes a last group of any length and yields the bytes that are complete at lengths
  2, 4, 5, 7 and 8, and none at lengths 1, 3 and 6. Bytes are handled as numbers below 256.
\<close>

section \<open>Alphabets\<close>

fun index_of :: "char \<Rightarrow> string \<Rightarrow> nat option" where
  "index_of c [] = None"
| "index_of c (x # xs) = (if c = x then Some 0 else map_option Suc (index_of c xs))"

fun values_of :: "string \<Rightarrow> string \<Rightarrow> nat list option" where
  "values_of alphabet [] = Some []"
| "values_of alphabet (c # cs) =
     (case index_of c alphabet of
        None \<Rightarrow> None
      | Some v \<Rightarrow> (case values_of alphabet cs of None \<Rightarrow> None | Some vs \<Rightarrow> Some (v # vs)))"

definition strip_newlines :: "string \<Rightarrow> string" where
  "strip_newlines s = filter (\<lambda>c. c \<noteq> CHR 0x0A \<and> c \<noteq> CHR 0x0D) s"

definition b64_alphabet :: string where
  "b64_alphabet = ''ABCDEFGHIJKLMNOPQRSTUVWXYZabcdefghijklmnopqrstuvwxyz0123456789+/''"

definition b32_alphabet :: string where
  "b32_alphabet = ''ABCDEFGHIJKLMNOPQRSTUVWXYZ234567''"

section \<open>Base64\<close>

fun b64_groups :: "nat list \<Rightarrow> nat list list" where
  "b64_groups [] = []"
| "b64_groups [a] = [[a div 4, (a mod 4) * 16]]"
| "b64_groups [a, b] = [[a div 4, (a mod 4) * 16 + b div 16, (b mod 16) * 4]]"
| "b64_groups (a # b # c # rest) =
     [a div 4, (a mod 4) * 16 + b div 16, (b mod 16) * 4 + c div 64, c mod 64] # b64_groups rest"

definition b64_pad :: "nat list \<Rightarrow> string" where
  "b64_pad vs = map (\<lambda>v. b64_alphabet ! v) vs @ replicate (4 - length vs) CHR ''=''"

definition b64_encode :: "bytes \<Rightarrow> string" where
  "b64_encode bs = concat (map b64_pad (b64_groups (map unat bs)))"

fun b64_bytes :: "nat list \<Rightarrow> bytes" where
  "b64_bytes [p, q] = [of_nat (p * 4 + q div 16)]"
| "b64_bytes [p, q, r] = [of_nat (p * 4 + q div 16), of_nat ((q mod 16) * 16 + r div 4)]"
| "b64_bytes [p, q, r, s] =
     [of_nat (p * 4 + q div 16), of_nat ((q mod 16) * 16 + r div 4), of_nat ((r mod 4) * 64 + s)]"
| "b64_bytes _ = []"

text \<open>One group of four characters; padding is allowed in the last group only.\<close>

fun b64_decode_groups :: "string \<Rightarrow> bytes option" where
  "b64_decode_groups [] = Some []"
| "b64_decode_groups (c0 # c1 # c2 # c3 # rest) =
     (if c3 = CHR ''='' then
        if rest \<noteq> [] then None
        else map_option b64_bytes (values_of b64_alphabet (if c2 = CHR ''='' then [c0, c1] else [c0, c1, c2]))
      else
        (case values_of b64_alphabet [c0, c1, c2, c3] of
           None \<Rightarrow> None
         | Some vs \<Rightarrow> map_option (\<lambda>bs. b64_bytes vs @ bs) (b64_decode_groups rest)))"
| "b64_decode_groups _ = None"

definition b64_decode :: "string \<Rightarrow> bytes option" where
  "b64_decode s = b64_decode_groups (strip_newlines s)"

section \<open>Base32 without padding\<close>

fun b32_groups :: "nat list \<Rightarrow> nat list list" where
  "b32_groups [] = []"
| "b32_groups [a] = [[a div 8, (a mod 8) * 4]]"
| "b32_groups [a, b] = [[a div 8, (a mod 8) * 4 + b div 64, b div 2 mod 32, (b mod 2) * 16]]"
| "b32_groups [a, b, c] =
     [[a div 8, (a mod 8) * 4 + b div 64, b div 2 mod 32, (b mod 2) * 16 + c div 16, (c mod 16) * 2]]"
| "b32_groups [a, b, c, d] =
     [[a div 8, (a mod 8) * 4 + b div 64, b div 2 mod 32, (b mod 2) * 16 + c div 16,
       (c mod 16) * 2 + d div 128, d div 4 mod 32, (d mod 4) * 8]]"
| "b32_groups (a # b # c # d # e # rest) =
     [a div 8, (a mod 8) * 4 + b div 64, b div 2 mod 32, (b mod 2) * 16 + c div 16,
      (c mod 16) * 2 + d div 128, d div 4 mod 32, (d mod 4) * 8 + e div 32, e mod 32]
     # b32_groups rest"

definition b32_encode :: "bytes \<Rightarrow> string" where
  "b32_encode bs = map (\<lambda>v. b32_alphabet ! v) (concat (b32_groups (map unat bs)))"

fun b32_bytes :: "nat list \<Rightarrow> bytes" where
  "b32_bytes (p # q # r # s # t # u # v # w # rest) =
     [of_nat (p * 8 + q div 4), of_nat (q * 64 + r * 2 + s div 16), of_nat (s * 16 + t div 2),
      of_nat (t * 128 + u * 4 + v div 8), of_nat (v * 32 + w)] @ b32_bytes rest"
| "b32_bytes [p, q, r, s, t, u, v] =
     [of_nat (p * 8 + q div 4), of_nat (q * 64 + r * 2 + s div 16), of_nat (s * 16 + t div 2),
      of_nat (t * 128 + u * 4 + v div 8)]"
| "b32_bytes [p, q, r, s, t] =
     [of_nat (p * 8 + q div 4), of_nat (q * 64 + r * 2 + s div 16), of_nat (s * 16 + t div 2)]"
| "b32_bytes [p, q, r, s] = [of_nat (p * 8 + q div 4), of_nat (q * 64 + r * 2 + s div 16)]"
| "b32_bytes [p, q] = [of_nat (p * 8 + q div 4)]"
| "b32_bytes _ = []"

definition b32_decode :: "string \<Rightarrow> bytes option" where
  "b32_decode s = map_option b32_bytes (values_of b32_alphabet (strip_newlines s))"

section \<open>Round trips\<close>

lemma index_of_nth: "distinct xs \<Longrightarrow> i < length xs \<Longrightarrow> index_of (xs ! i) xs = Some i"
proof (induction xs arbitrary: i)
  case Nil
  then show ?case by simp
next
  case (Cons x xs)
  then show ?case by (cases i) auto
qed

lemma values_of_map_nth:
  "distinct xs \<Longrightarrow> \<forall>v \<in> set vs. v < length xs \<Longrightarrow> values_of xs (map (\<lambda>v. xs ! v) vs) = Some vs"
  by (induction vs) (auto simp: index_of_nth)

lemma strip_newlines_id: "CHR 0x0A \<notin> set s \<Longrightarrow> CHR 0x0D \<notin> set s \<Longrightarrow> strip_newlines s = s"
  unfolding strip_newlines_def by (rule filter_True) auto

lemma distinct_alphabets: "distinct b64_alphabet" "distinct b32_alphabet"
  unfolding b64_alphabet_def b32_alphabet_def by code_simp+

lemma length_alphabets [simp]: "length b64_alphabet = 64" "length b32_alphabet = 32"
  by (simp_all add: b64_alphabet_def b32_alphabet_def)

lemma alphabet_chars:
  "CHR 0x0A \<notin> set b64_alphabet" "CHR 0x0D \<notin> set b64_alphabet" "CHR ''='' \<notin> set b64_alphabet"
  "CHR 0x0A \<notin> set b32_alphabet" "CHR 0x0D \<notin> set b32_alphabet"
  by (simp_all add: b64_alphabet_def b32_alphabet_def)

text \<open>The characters of a group and their values, without and with padding.\<close>

lemma values_of_b64: "\<forall>v \<in> set vs. v < 64 \<Longrightarrow> values_of b64_alphabet (map (\<lambda>v. b64_alphabet ! v) vs) = Some vs"
  by (rule values_of_map_nth) (simp_all add: distinct_alphabets)

lemma b64_char_not_pad: "v < 64 \<Longrightarrow> b64_alphabet ! v \<noteq> CHR ''=''"
proof
  assume "v < 64" and "b64_alphabet ! v = CHR ''=''"
  then have "CHR ''='' \<in> set b64_alphabet"
    using nth_mem [of v b64_alphabet] by (simp only: length_alphabets)
  then show False using alphabet_chars(3) by contradiction
qed

text \<open>Joining a high digit and a low digit, and taking them apart again.\<close>

lemma digits_below: "q < n \<Longrightarrow> r < m \<Longrightarrow> q * m + r < n * (m :: nat)"
proof -
  assume "q < n" and r: "r < m"
  then have "Suc q * m \<le> n * m" by (intro mult_le_mono1) simp
  with r show ?thesis by simp
qed

lemma digits_div: "r < m \<Longrightarrow> (q * m + r) div m = (q :: nat)"
  by simp

lemma digits_mod: "r < m \<Longrightarrow> (q * m + r) mod m = (r :: nat)"
  by simp

lemma byte_digits: "a < 256 \<Longrightarrow> n * m = 256 \<Longrightarrow> 0 < m \<Longrightarrow> a div m < n \<and> a mod m < (m :: nat)"
  by (simp add: less_mult_imp_div_less)

lemma b64_join_two: "a' < 4 \<Longrightarrow> b1 < 16 \<Longrightarrow> b0 < 16 \<Longrightarrow>
    b64_bytes [p, a' * 16 + b1, b0 * 4] = [of_nat (p * 4 + a'), of_nat (b1 * 16 + b0)]"
  by (simp only: b64_bytes.simps digits_div digits_mod) simp

lemma b64_join_full: "a' < 4 \<Longrightarrow> b1 < 16 \<Longrightarrow> b0 < 16 \<Longrightarrow> c1 < 4 \<Longrightarrow>
    b64_bytes [p, a' * 16 + b1, b0 * 4 + c1, c0]
    = [of_nat (p * 4 + a'), of_nat (b1 * 16 + b0), of_nat (c1 * 64 + c0)]"
  by (simp only: b64_bytes.simps digits_div digits_mod)

lemma b64_group_below:
  fixes a b c :: nat
  assumes "a < 256" "b < 256" "c < 256"
  shows "a div 4 < 64" "(a mod 4) * 16 < 64" "(a mod 4) * 16 + b div 16 < 64"
    "(b mod 16) * 4 < 64" "(b mod 16) * 4 + c div 64 < 64" "c mod 64 < 64"
  using assms byte_digits [of a 64 4] byte_digits [of b 16 16] byte_digits [of c 4 64]
    digits_below [of "a mod 4" 4 0 16] digits_below [of "a mod 4" 4 "b div 16" 16]
    digits_below [of "b mod 16" 16 0 4] digits_below [of "b mod 16" 16 "c div 64" 4]
  by simp_all

lemma b64_decode_full_group:
  assumes "a < 256" "b < 256" "c < 256"
  shows "b64_decode_groups (b64_pad [a div 4, (a mod 4) * 16 + b div 16, (b mod 16) * 4 + c div 64, c mod 64] @ rest)
       = map_option ((@) [of_nat a, of_nat b, of_nat c]) (b64_decode_groups rest)"
proof -
  note below = b64_group_below [OF assms]
  let ?vs = "[a div 4, (a mod 4) * 16 + b div 16, (b mod 16) * 4 + c div 64, c mod 64]"
  have vs: "values_of b64_alphabet (map (\<lambda>v. b64_alphabet ! v) ?vs) = Some ?vs"
    by (rule values_of_b64) (use below in simp)
  have "b64_bytes ?vs = [of_nat a, of_nat b, of_nat c]"
    using assms byte_digits [of b 16 16] byte_digits [of c 4 64] by (subst b64_join_full) simp_all
  with b64_char_not_pad [OF below(6)] vs show ?thesis
    by (simp add: b64_pad_def del: values_of.simps b64_bytes.simps)
qed

lemma b64_decode_last_two:
  assumes "a < 256" "b < 256"
  shows "b64_decode_groups (b64_pad [a div 4, (a mod 4) * 16 + b div 16, (b mod 16) * 4])
       = Some [of_nat a, of_nat b]"
proof -
  note below = b64_group_below [OF assms(1,2) assms(2)]
  let ?vs = "[a div 4, (a mod 4) * 16 + b div 16, (b mod 16) * 4]"
  have vs: "values_of b64_alphabet (map (\<lambda>v. b64_alphabet ! v) ?vs) = Some ?vs"
    by (rule values_of_b64) (use below in simp)
  have "b64_bytes ?vs = [of_nat a, of_nat b]"
    using assms byte_digits [of b 16 16] by (subst b64_join_two) simp_all
  with b64_char_not_pad [OF below(4)] vs show ?thesis
    by (simp add: b64_pad_def del: values_of.simps b64_bytes.simps)
qed

lemma b64_decode_last_one:
  assumes "a < 256"
  shows "b64_decode_groups (b64_pad [a div 4, (a mod 4) * 16]) = Some [of_nat a]"
proof -
  note below = b64_group_below [OF assms assms assms]
  let ?vs = "[a div 4, (a mod 4) * 16]"
  have vs: "values_of b64_alphabet (map (\<lambda>v. b64_alphabet ! v) ?vs) = Some ?vs"
    by (rule values_of_b64) (use below in simp)
  have "b64_bytes ?vs = [of_nat a]"
    by (simp only: b64_bytes.simps) simp
  with vs show ?thesis
    by (simp add: b64_pad_def numeral_2_eq_2 del: values_of.simps b64_bytes.simps)
qed

lemma b64_decode_groups_encode:
  "\<forall>v \<in> set vs. v < 256 \<Longrightarrow> b64_decode_groups (concat (map b64_pad (b64_groups vs))) = Some (map of_nat vs)"
  by (induction vs rule: b64_groups.induct)
    (simp_all add: b64_decode_last_one b64_decode_last_two b64_decode_full_group)

lemma b64_groups_below: "\<forall>v \<in> set vs. v < 256 \<Longrightarrow> g \<in> set (b64_groups vs) \<Longrightarrow> \<forall>v \<in> set g. v < 64"
  by (induction vs rule: b64_groups.induct) (auto simp: b64_group_below)

lemma b64_encode_chars: "c \<in> set (b64_encode bs) \<Longrightarrow> c \<in> set b64_alphabet \<or> c = CHR ''=''"
proof -
  assume "c \<in> set (b64_encode bs)"
  then obtain g where g: "g \<in> set (b64_groups (map unat bs))" and c: "c \<in> set (b64_pad g)"
    by (auto simp: b64_encode_def)
  have "\<forall>v \<in> set g. v < 64"
    by (rule b64_groups_below [OF _ g]) (simp add: unat_byte_bound)
  with c show ?thesis
    by (auto simp: b64_pad_def in_set_conv_nth)
qed

lemma b64_decode_encode: "b64_decode (b64_encode bs) = Some bs"
proof -
  have "strip_newlines (b64_encode bs) = b64_encode bs"
    using b64_encode_chars [of _ bs] alphabet_chars by (intro strip_newlines_id) auto
  then show ?thesis
    by (simp add: b64_decode_def b64_encode_def b64_decode_groups_encode unat_byte_bound comp_def)
qed

lemma b32_group_below:
  fixes a b c d e :: nat
  assumes "a < 256" "b < 256" "c < 256" "d < 256" "e < 256"
  shows "a div 8 < 32" "(a mod 8) * 4 < 32" "(a mod 8) * 4 + b div 64 < 32" "b div 2 mod 32 < 32"
    "(b mod 2) * 16 < 32" "(b mod 2) * 16 + c div 16 < 32" "(c mod 16) * 2 < 32"
    "(c mod 16) * 2 + d div 128 < 32" "d div 4 mod 32 < 32" "(d mod 4) * 8 < 32"
    "(d mod 4) * 8 + e div 32 < 32" "e mod 32 < 32"
proof -
  note ds = byte_digits [OF assms(1), of 32 8] byte_digits [OF assms(2), of 4 64]
    byte_digits [OF assms(3), of 16 16] byte_digits [OF assms(4), of 2 128] byte_digits [OF assms(5), of 8 32]
  show "a div 8 < 32" "b div 2 mod 32 < 32" "d div 4 mod 32 < 32" "e mod 32 < 32"
    using ds by simp_all
  show "(a mod 8) * 4 < 32" "(b mod 2) * 16 < 32" "(c mod 16) * 2 < 32" "(d mod 4) * 8 < 32"
    using digits_below [of "a mod 8" 8 0 4] digits_below [of "b mod 2" 2 0 16]
      digits_below [of "c mod 16" 16 0 2] digits_below [of "d mod 4" 4 0 8] by simp_all
  show "(a mod 8) * 4 + b div 64 < 32"
    using digits_below [of "a mod 8" 8 "b div 64" 4] ds(2) by simp
  show "(b mod 2) * 16 + c div 16 < 32"
    using digits_below [of "b mod 2" 2 "c div 16" 16] ds(3) by simp
  show "(c mod 16) * 2 + d div 128 < 32"
    using digits_below [of "c mod 16" 16 "d div 128" 2] ds(4) by simp
  show "(d mod 4) * 8 + e div 32 < 32"
    using digits_below [of "d mod 4" 4 "e div 32" 8] ds(5) by simp
qed

lemma b32_groups_below:
  "\<forall>v \<in> set vs. v < 256 \<Longrightarrow> v \<in> set (concat (b32_groups vs)) \<Longrightarrow> v < 32"
  by (induction vs rule: b32_groups.induct) (auto simp: b32_group_below)

lemma b32_encode_chars: "c \<in> set (b32_encode bs) \<Longrightarrow> c \<in> set b32_alphabet"
proof -
  assume "c \<in> set (b32_encode bs)"
  then obtain v where v: "v \<in> set (concat (b32_groups (map unat bs)))" and c: "c = b32_alphabet ! v"
    unfolding b32_encode_def by auto
  have "v < 32"
    by (rule b32_groups_below [OF _ v]) simp
  then show ?thesis
    using nth_mem [of v b32_alphabet] c by (simp only: length_alphabets)
qed

text \<open>
  The middle of a group, where a byte is spread over three characters: the second byte is
  \<open>64 * b2 + 2 * b1 + b0\<close>, the fourth \<open>128 * d2 + 4 * d1 + d0\<close>.
\<close>

lemma three_digits:
  fixes b :: nat
  assumes "b < 256" and "n * m * k = 256" and "0 < m" and "0 < k"
  shows "b div (m * k) * (m * k) + b div k mod m * k + b mod k = b"
proof -
  have "b div (m * k) = b div k div m" by (simp add: div_mult2_eq mult.commute)
  then have "b div (m * k) * (m * k) + b div k mod m * k = b div k * k"
    by (metis (no_types, lifting) distrib_right div_mult_mod_eq mult.assoc)
  then show ?thesis by simp
qed

lemma b32_spread:
  fixes b :: nat
  assumes "b < 256"
  shows "b div 64 * 64 + b div 2 mod 32 * 2 + b mod 2 = b" "b div 128 * 128 + b div 4 mod 32 * 4 + b mod 4 = b"
  using three_digits [OF assms, of 4 32 2] three_digits [OF assms, of 2 32 4] by simp_all

text \<open>The five bytes of a group from its characters; \<open>y\<close> is what the next byte adds, \<open>z\<close> the previous one.\<close>

lemma byte_add_high: "(of_nat (z * 256 + b) :: byte) = of_nat b"
  by (simp only: byte_of_nat_eq_iff) simp

lemma b32_byte1: "y < 4 \<Longrightarrow> (of_nat (a div 8 * 8 + ((a mod 8) * 4 + y) div 4) :: byte) = of_nat a"
  by (simp only: digits_div div_mult_mod_eq)

lemma b32_byte2:
  assumes "b < 256" and "y < 16"
  shows "(of_nat ((z * 4 + b div 64) * 64 + b div 2 mod 32 * 2 + ((b mod 2) * 16 + y) div 16) :: byte) = of_nat b"
proof -
  have "(z * 4 + b div 64) * 64 + b div 2 mod 32 * 2 + b mod 2 = z * 256 + b"
    using b32_spread(1) [OF assms(1)] by (simp only: distrib_right mult.assoc add.assoc)
  with assms(2) show ?thesis
    by (simp only: digits_div byte_add_high)
qed

lemma b32_byte3:
  assumes "y < 2"
  shows "(of_nat ((z * 16 + c div 16) * 16 + ((c mod 16) * 2 + y) div 2) :: byte) = of_nat c"
proof -
  have "(z * 16 + c div 16) * 16 + c mod 16 = z * 256 + c"
    using div_mult_mod_eq [of c 16] by (simp only: distrib_right mult.assoc add.assoc)
  with assms show ?thesis
    by (simp only: digits_div byte_add_high)
qed

lemma b32_byte4:
  assumes "d < 256" and "y < 8"
  shows "(of_nat ((z * 2 + d div 128) * 128 + d div 4 mod 32 * 4 + ((d mod 4) * 8 + y) div 8) :: byte) = of_nat d"
proof -
  have "(z * 2 + d div 128) * 128 + d div 4 mod 32 * 4 + d mod 4 = z * 256 + d"
    using b32_spread(2) [OF assms(1)] by (simp only: distrib_right mult.assoc add.assoc)
  with assms(2) show ?thesis
    by (simp only: digits_div byte_add_high)
qed

lemma b32_byte5: "(of_nat ((z * 8 + e div 32) * 32 + e mod 32) :: byte) = of_nat e"
proof -
  have "(z * 8 + e div 32) * 32 + e mod 32 = z * 256 + e"
    using div_mult_mod_eq [of e 32] by (simp only: distrib_right mult.assoc add.assoc)
  then show ?thesis by (simp only: byte_add_high)
qed

lemmas b32_byte_last =
  b32_byte1 [of 0, unfolded add_0_right] b32_byte2 [where y = 0, unfolded add_0_right]
  b32_byte3 [where y = 0, unfolded add_0_right] b32_byte4 [where y = 0, unfolded add_0_right]

lemma b32_digit_bounds:
  fixes x :: nat
  assumes "x < 256"
  shows "x div 64 < 4" "x div 16 < 16" "x div 128 < 2" "x div 32 < 8"
  using assms byte_digits [of x 4 64] byte_digits [of x 16 16] byte_digits [of x 2 128] byte_digits [of x 8 32]
  by simp_all

lemma b32_bytes_groups:
  "\<forall>v \<in> set vs. v < 256 \<Longrightarrow> b32_bytes (concat (b32_groups vs)) = map of_nat vs"
  by (induction vs rule: b32_groups.induct)
    (simp_all only: b32_groups.simps concat.simps append.simps b32_bytes.simps list.map ball_simps
      list.set insert_iff b32_byte1 b32_byte2 b32_byte3 b32_byte4 b32_byte5 b32_byte_last
      b32_digit_bounds zero_less_numeral simp_thms append_Nil2, blast)

lemma b32_decode_encode: "b32_decode (b32_encode bs) = Some bs"
proof -
  let ?vs = "concat (b32_groups (map unat bs))"
  have below: "\<forall>v \<in> set (map unat bs). v < 256" by simp
  have "CHR 0x0A \<notin> set (b32_encode bs)" and "CHR 0x0D \<notin> set (b32_encode bs)"
    using b32_encode_chars alphabet_chars(4,5) by blast+
  then have "strip_newlines (b32_encode bs) = map (\<lambda>v. b32_alphabet ! v) ?vs"
    unfolding b32_encode_def by (rule strip_newlines_id)
  moreover have "values_of b32_alphabet (map (\<lambda>v. b32_alphabet ! v) ?vs) = Some ?vs"
    using b32_groups_below [OF below] distinct_alphabets(2)
    by (intro values_of_map_nth) (simp_all only: length_alphabets, blast)
  ultimately show ?thesis
    using b32_bytes_groups [OF below] by (simp add: b32_decode_def comp_def)
qed

end
