(* ===== verification/Keys.thy ===== *)
theory Keys
  imports Base_Encoding
begin

text \<open>
  Node identities, \<^verbatim>\<open>internal/trust/identity.go\<close>: the text form of a public key, and an identity's
  key material derived from one seed. Ed25519 is the standard library's; it is the parameter
  \<open>C\<close> of the definitions that sign or verify, a record of the four functions the source calls.
  \<open>ed25519_correct\<close> states the documented behaviour the program relies on: a signature made with
  the private key of a seed verifies under the public key of that private key.
\<close>

section \<open>Ed25519\<close>

type_synonym private_key = bytes

record ed25519 =
  NewKeyFromSeed :: "bytes \<Rightarrow> private_key"
  PublicOf :: "private_key \<Rightarrow> public_key"
  ed_Sign :: "private_key \<Rightarrow> bytes \<Rightarrow> bytes"
  ed_Verify :: "public_key \<Rightarrow> bytes \<Rightarrow> bytes \<Rightarrow> bool"

definition seedLen :: nat where
  "seedLen = 32"

definition ed25519_correct :: "ed25519 \<Rightarrow> bool" where
  "ed25519_correct C \<longleftrightarrow>
     (\<forall>seed m. length seed = seedLen \<longrightarrow>
        ed_Verify C (PublicOf C (NewKeyFromSeed C seed)) m (ed_Sign C (NewKeyFromSeed C seed) m))"

text \<open>
  A concrete scheme with that behaviour, on which witnesses evaluate: the private key is the
  seed, the public key its number and the signature the seed followed by the message.
\<close>

definition demo_ed25519 :: ed25519 where
  "demo_ed25519 =
     \<lparr>NewKeyFromSeed = (\<lambda>seed. seed),
      PublicOf = (\<lambda>k. of_nat (be_nat k)),
      ed_Sign = (\<lambda>k m. key_bytes (of_nat (be_nat k)) @ m),
      ed_Verify = (\<lambda>k m sig. sig = key_bytes k @ m)\<rparr>"

section \<open>Public keys as text\<close>

datatype key_error =
    BadBase64 string
  | WrongLength string nat nat

definition key_of_bytes :: "bytes \<Rightarrow> public_key" where
  "key_of_bytes bs = of_nat (be_nat bs)"

definition key_String :: "public_key \<Rightarrow> string" where
  "key_String k = b64_encode (key_bytes k)"

definition key_Short :: "public_key \<Rightarrow> string" where
  "key_Short k = take 8 (key_String k)"

definition key_MarshalText :: "public_key \<Rightarrow> bytes" where
  "key_MarshalText k = string_bytes (key_String k)"

text \<open>\<^verbatim>\<open>decodeKey\<close> fills an array of \<open>n\<close> bytes; the array's new contents are the result.\<close>

definition decodeKey :: "string \<Rightarrow> string \<Rightarrow> nat \<Rightarrow> key_error + bytes" where
  "decodeKey what txt n =
     (case b64_decode txt of
        None \<Rightarrow> Inl (BadBase64 what)
      | Some b \<Rightarrow> if length b \<noteq> n then Inl (WrongLength what n (length b)) else Inr b)"

definition key_UnmarshalText :: "string \<Rightarrow> key_error + public_key" where
  "key_UnmarshalText txt =
     (case decodeKey ''identity'' txt 32 of Inl e \<Rightarrow> Inl e | Inr b \<Rightarrow> Inr (key_of_bytes b))"

text \<open>\<^verbatim>\<open>ParsePublicKey\<close> returns the key and the error; the key is the zero key with an error.\<close>

definition ParsePublicKey :: "string \<Rightarrow> public_key \<times> key_error option" where
  "ParsePublicKey s =
     (case key_UnmarshalText s of Inl e \<Rightarrow> (0, Some e) | Inr k \<Rightarrow> (k, None))"

section \<open>Identities\<close>

record identity =
  id_seed :: bytes
  id_sign :: private_key

datatype identity_error =
    RandomSource
  | SeedLength nat

definition IdentityFromSeed :: "ed25519 \<Rightarrow> bytes \<Rightarrow> identity_error + identity" where
  "IdentityFromSeed C seed =
     (if length seed \<noteq> seedLen then Inl (SeedLength (length seed))
      else Inr \<lparr>id_seed = seed, id_sign = NewKeyFromSeed C seed\<rparr>)"

text \<open>The random source is an argument: the bytes it returns, or nothing when reading fails.\<close>

definition NewIdentity :: "ed25519 \<Rightarrow> (nat \<Rightarrow> bytes option) \<Rightarrow> identity_error + identity" where
  "NewIdentity C rand =
     (case rand seedLen of None \<Rightarrow> Inl RandomSource | Some seed \<Rightarrow> IdentityFromSeed C seed)"

definition id_Seed :: "identity \<Rightarrow> bytes" where
  "id_Seed i = id_seed i"

definition id_Public :: "ed25519 \<Rightarrow> identity \<Rightarrow> public_key" where
  "id_Public C i = PublicOf C (id_sign i)"

definition id_Sign :: "ed25519 \<Rightarrow> identity \<Rightarrow> bytes \<Rightarrow> bytes" where
  "id_Sign C i msg = ed_Sign C (id_sign i) msg"

definition id_Signer :: "identity \<Rightarrow> private_key" where
  "id_Signer i = id_sign i"

definition Verify :: "ed25519 \<Rightarrow> public_key \<Rightarrow> bytes \<Rightarrow> bytes \<Rightarrow> bool" where
  "Verify C identity msg sig = ed_Verify C identity msg sig"

section \<open>Lemmas\<close>

text \<open>What \<^verbatim>\<open>IdentityFromSeed\<close> returns: the signing key is the one of the seed.\<close>

definition wf_identity :: "ed25519 \<Rightarrow> identity \<Rightarrow> bool" where
  "wf_identity C i \<longleftrightarrow> length (id_seed i) = seedLen \<and> id_sign i = NewKeyFromSeed C (id_seed i)"

lemma IdentityFromSeed_wf [wf_intros]: "IdentityFromSeed C seed = Inr i \<Longrightarrow> wf_identity C i"
  by (auto simp: IdentityFromSeed_def wf_identity_def split: if_splits)

lemma Verify_Sign:
  "ed25519_correct C \<Longrightarrow> wf_identity C i \<Longrightarrow> Verify C (id_Public C i) m (id_Sign C i m)"
  by (simp add: Verify_def id_Public_def id_Sign_def wf_identity_def ed25519_correct_def)

lemma demo_ed25519_correct [simp]: "ed25519_correct demo_ed25519"
  by (simp add: ed25519_correct_def demo_ed25519_def)

lemma key_of_key_bytes [simp]: "key_of_bytes (key_bytes k) = k"
proof -
  have "be_nat (key_bytes k) = unat k"
    unfolding key_bytes_def be_nat_be_bytes by (rule mod_less [OF unat_key_bound])
  then show ?thesis by (simp add: key_of_bytes_def)
qed

lemma UnmarshalText_String [simp]: "key_UnmarshalText (key_String k) = Inr k"
  by (simp add: key_UnmarshalText_def decodeKey_def key_String_def b64_decode_encode)

lemma key_String_inject [simp]: "key_String a = key_String b \<longleftrightarrow> a = b"
  by (metis UnmarshalText_String sum.inject(2))

text \<open>
  The text form of an identity, used in files, on the wire and on the command line, is
  lossless: parsing it gives the key back without an error, different keys have different text,
  and whatever parses without an error decodes to exactly 32 bytes, those of the key.
\<close>

theorem key_text_round_trip:
  "ParsePublicKey (key_String k) = (k, None) \<and> (key_String k = key_String k' \<longleftrightarrow> k = k') \<and>
   (ParsePublicKey txt = (k, None) \<longleftrightarrow> (\<exists>b. b64_decode txt = Some b \<and> length b = 32 \<and> k = key_of_bytes b))"
proof -
  have "ParsePublicKey (key_String k) = (k, None)" by (simp add: ParsePublicKey_def)
  moreover have "ParsePublicKey txt = (k, None) \<longleftrightarrow> (\<exists>b. b64_decode txt = Some b \<and> length b = 32 \<and> k = key_of_bytes b)"
    by (auto simp: ParsePublicKey_def key_UnmarshalText_def decodeKey_def split: option.splits)
  ultimately show ?thesis by simp
qed

text \<open>Identities of the concrete scheme, one per number: the public key is the number.\<close>

definition demo_identity :: "nat \<Rightarrow> identity" where
  "demo_identity n = \<lparr>id_seed = be_bytes 32 n, id_sign = be_bytes 32 n\<rparr>"

lemma wf_demo_identity [simp]: "wf_identity demo_ed25519 (demo_identity n)"
  by (simp add: wf_identity_def demo_identity_def demo_ed25519_def seedLen_def del: be_bytes_numeral)

lemma demo_Public [simp]: "n < 256 ^ 32 \<Longrightarrow> id_Public demo_ed25519 (demo_identity n) = of_nat n"
  by (simp add: id_Public_def demo_ed25519_def demo_identity_def be_nat_be_bytes del: be_bytes_numeral)

end
