(* ===== verification/Wire.thy ===== *)
theory Wire
  imports Prelude
begin

text \<open>
  The canonical byte encoding of \<^verbatim>\<open>internal/wire/wire.go\<close>: a domain string terminated by a zero
  byte, then each field as a 4-byte big-endian length and its bytes. Everything that is signed or
  authenticated goes through it. The theorem of this theory is the promise the package comment
  makes: records of different kinds never have the same bytes and no field boundary is ambiguous.
\<close>

text \<open>The loop appends to \<^verbatim>\<open>out\<close>; \<^verbatim>\<open>uint32(len(f))\<close> keeps the low 32 bits, as \<open>be_bytes 4\<close> does.\<close>

fun append_fields :: "bytes \<Rightarrow> bytes list \<Rightarrow> bytes" where
  "append_fields out [] = out"
| "append_fields out (f # fs) = append_fields ((out @ be_bytes 4 (length f)) @ f) fs"

definition Canonical :: "string \<Rightarrow> bytes list \<Rightarrow> bytes" where
  "Canonical domain fields = append_fields (string_bytes domain @ [0]) fields"

text \<open>What a domain string and the fields have to satisfy for the encoding to be unambiguous.\<close>

definition zero_free :: "string \<Rightarrow> bool" where
  "zero_free d \<longleftrightarrow> 0 \<notin> set (string_bytes d)"

definition fits_uint32 :: "bytes list \<Rightarrow> bool" where
  "fits_uint32 fs \<longleftrightarrow> (\<forall>f \<in> set fs. length f < 2 ^ 32)"

lemma append_fields_out: "append_fields out fs = out @ append_fields [] fs"
proof (induction fs arbitrary: out)
  case Nil
  then show ?case by simp
next
  case (Cons f fs)
  from Cons [of "(out @ be_bytes 4 (length f)) @ f"] Cons [of "be_bytes 4 (length f) @ f"]
  show ?case by (simp del: be_bytes_numeral)
qed

lemma append_fields_Cons:
  "append_fields [] (f # fs) = be_bytes 4 (length f) @ f @ append_fields [] fs"
  using append_fields_out [of "be_bytes 4 (length f) @ f" fs] by (simp del: be_bytes_numeral)

lemma append_fields_Cons_neq: "append_fields [] (f # fs) \<noteq> append_fields [] []"
  unfolding append_fields_Cons by simp

lemma append_fields_inject:
  "append_fields [] fs = append_fields [] gs \<Longrightarrow> fits_uint32 fs \<Longrightarrow> fits_uint32 gs \<Longrightarrow> fs = gs"
proof (induction fs arbitrary: gs)
  case Nil
  then show ?case
    by (cases gs) (metis append_fields_Cons_neq)+
next
  case (Cons f fs)
  obtain g gs' where gs: "gs = g # gs'"
    using Cons.prems(1) by (cases gs) (metis append_fields_Cons_neq)+
  from Cons.prems(1) have
    eq: "be_bytes 4 (length f) @ f @ append_fields [] fs
       = be_bytes 4 (length g) @ g @ append_fields [] gs'"
    unfolding gs append_fields_Cons .
  then have "be_bytes 4 (length f) = be_bytes 4 (length g)"
    by (simp add: append_eq_append_conv del: be_bytes_numeral)
  then have "length f = length g"
    using Cons.prems(2,3) gs by (intro be_bytes_4_inject) (auto simp: fits_uint32_def)
  with eq have "f = g" and "append_fields [] fs = append_fields [] gs'"
    by (simp_all add: append_eq_append_conv del: be_bytes_numeral)
  with Cons.IH [of gs'] Cons.prems(2,3) gs show ?case
    by (simp add: fits_uint32_def)
qed

lemma zero_terminated_inject:
  assumes "xs @ 0 # ys = xs' @ 0 # ys'" and "0 \<notin> set xs" and "0 \<notin> set (xs' :: bytes)"
  shows "xs = xs' \<and> ys = ys'"
  using assms
proof (induction xs arbitrary: xs')
  case Nil
  then show ?case by (cases xs') auto
next
  case (Cons x xs)
  then show ?case by (cases xs') auto
qed

lemma Canonical_inject:
  assumes "Canonical d fs = Canonical d' fs'"
    and "zero_free d" and "zero_free d'" and "fits_uint32 fs" and "fits_uint32 fs'"
  shows "d = d' \<and> fs = fs'"
proof -
  have "string_bytes d @ 0 # append_fields [] fs = string_bytes d' @ 0 # append_fields [] fs'"
    using assms(1) append_fields_out [of "string_bytes d @ [0]" fs]
      append_fields_out [of "string_bytes d' @ [0]" fs'] by (simp add: Canonical_def)
  then have "string_bytes d = string_bytes d' \<and> append_fields [] fs = append_fields [] fs'"
    using assms(2,3) by (intro zero_terminated_inject) (auto simp: zero_free_def)
  with assms(4,5) show ?thesis
    using append_fields_inject by auto
qed

end
