(* ===== verification/Netip.thy ===== *)
theory Netip
  imports Prelude
begin

text \<open>
  What the program uses of Go's \<^verbatim>\<open>net/netip\<close>: addresses and prefixes. An address is the zero value,
  an IPv4 address or an IPv6 address with an optional zone; an IPv4-mapped IPv6 address is an
  \<open>Addr6\<close> value. A prefix holds an address without a zone and a length, which is -1 when the
  prefix is not valid.
\<close>

unbundle bit_operations_syntax

datatype addr = NoAddr | Addr4 "32 word" | Addr6 "128 word" string

record prefix =
  pfx_addr :: addr
  pfx_bits :: int

section \<open>Addresses\<close>

definition addr_is_valid :: "addr \<Rightarrow> bool" where
  "addr_is_valid a \<longleftrightarrow> a \<noteq> NoAddr"

fun bit_len :: "addr \<Rightarrow> int" where
  "bit_len NoAddr = 0"
| "bit_len (Addr4 _) = 32"
| "bit_len (Addr6 _ _) = 128"

fun is4 :: "addr \<Rightarrow> bool" where
  "is4 (Addr4 _) = True"
| "is4 _ = False"

fun is6 :: "addr \<Rightarrow> bool" where
  "is6 (Addr6 _ _) = True"
| "is6 _ = False"

fun without_zone :: "addr \<Rightarrow> addr" where
  "without_zone (Addr6 w _) = Addr6 w ''''"
| "without_zone a = a"

fun is_4in6 :: "addr \<Rightarrow> bool" where
  "is_4in6 (Addr6 w _) = (drop_bit 32 w = 0xFFFF)"
| "is_4in6 _ = False"

fun unmap :: "addr \<Rightarrow> addr" where
  "unmap (Addr6 w z) = (if is_4in6 (Addr6 w z) then Addr4 (ucast w) else Addr6 w z)"
| "unmap a = a"

fun is_unspecified :: "addr \<Rightarrow> bool" where
  "is_unspecified NoAddr = False"
| "is_unspecified (Addr4 w) = (w = 0)"
| "is_unspecified (Addr6 w zone) = (w = 0 \<and> zone = [])"

fun as_slice :: "addr \<Rightarrow> bytes" where
  "as_slice NoAddr = []"
| "as_slice (Addr4 w) = be_bytes 4 (unat w)"
| "as_slice (Addr6 w _) = be_bytes 16 (unat w)"

text \<open>\<^verbatim>\<open>As16\<close>: an IPv4 address in its IPv4-mapped form, all zeroes for the zero address.\<close>

fun as16 :: "addr \<Rightarrow> 128 word" where
  "as16 NoAddr = 0"
| "as16 (Addr4 w) = 0xFFFF00000000 OR ucast w"
| "as16 (Addr6 w _) = w"

text \<open>\<^verbatim>\<open>AddrFromSlice\<close>: 4 or 16 bytes; the zero address and \<^verbatim>\<open>false\<close> for any other length.\<close>

definition addr_from_slice :: "bytes \<Rightarrow> addr \<times> bool" where
  "addr_from_slice bs =
     (if length bs = 4 then (Addr4 (of_nat (be_nat bs)), True)
      else if length bs = 16 then (Addr6 (of_nat (be_nat bs)) '''', True)
      else (NoAddr, False))"

section \<open>Prefixes\<close>

text \<open>\<open>clear_low n w\<close> clears the low \<open>n\<close> bits, as the network mask of a prefix does.\<close>

definition clear_low :: "nat \<Rightarrow> 'a::len word \<Rightarrow> 'a word" where
  "clear_low n w = push_bit n (drop_bit n w)"

definition no_prefix :: prefix where
  "no_prefix = \<lparr>pfx_addr = NoAddr, pfx_bits = -1\<rparr>"

definition prefix_from :: "addr \<Rightarrow> int \<Rightarrow> prefix" where
  "prefix_from a bits =
     \<lparr>pfx_addr = without_zone a,
      pfx_bits = (if a \<noteq> NoAddr \<and> 0 \<le> bits \<and> bits \<le> bit_len a then bits else -1)\<rparr>"

definition prefix_is_valid :: "prefix \<Rightarrow> bool" where
  "prefix_is_valid p \<longleftrightarrow> 0 \<le> pfx_bits p"

text \<open>\<^verbatim>\<open>Addr.Prefix\<close>: the prefix of that length with the host bits cleared, or an error.\<close>

fun addr_prefix :: "addr \<Rightarrow> int \<Rightarrow> prefix option" where
  "addr_prefix a b =
     (if b < 0 then None
      else case a of
        NoAddr \<Rightarrow> Some no_prefix
      | Addr4 w \<Rightarrow> if 32 < b then None else Some (prefix_from (Addr4 (clear_low (nat (32 - b)) w)) b)
      | Addr6 w z \<Rightarrow> if 128 < b then None else Some (prefix_from (Addr6 (clear_low (nat (128 - b)) w) z) b))"

definition masked :: "prefix \<Rightarrow> prefix" where
  "masked p = (case addr_prefix (pfx_addr p) (pfx_bits p) of None \<Rightarrow> no_prefix | Some q \<Rightarrow> q)"

definition is_single_ip :: "prefix \<Rightarrow> bool" where
  "is_single_ip p \<longleftrightarrow> prefix_is_valid p \<and> pfx_bits p = bit_len (pfx_addr p)"

fun prefix_contains :: "prefix \<Rightarrow> addr \<Rightarrow> bool" where
  "prefix_contains p ip =
     (prefix_is_valid p \<and>
      (case (pfx_addr p, ip) of
         (Addr4 v, Addr4 w) \<Rightarrow> clear_low (nat (32 - pfx_bits p)) (w XOR v) = 0
       | (Addr6 v _, Addr6 w z) \<Rightarrow> z = '''' \<and> clear_low (nat (128 - pfx_bits p)) (w XOR v) = 0
       | _ \<Rightarrow> False))"

definition overlaps :: "prefix \<Rightarrow> prefix \<Rightarrow> bool" where
  "overlaps p q =
     (if \<not> prefix_is_valid p \<or> \<not> prefix_is_valid q then False
      else if p = q then True
      else if is4 (pfx_addr p) \<noteq> is4 (pfx_addr q) then False
      else
        let min_bits = (if pfx_bits p < pfx_bits q then pfx_bits p else pfx_bits q) in
        if min_bits = 0 then True
        else case (addr_prefix (pfx_addr p) min_bits, addr_prefix (pfx_addr q) min_bits) of
               (Some p', Some q') \<Rightarrow> pfx_addr p' = pfx_addr q'
             | _ \<Rightarrow> False)"

text \<open>
  What holds of every prefix a program can hold, the zero prefix and those \<^verbatim>\<open>PrefixFrom\<close> builds:
  no zone, and a length that is -1 or fits the address.
\<close>

definition wf_prefix :: "prefix \<Rightarrow> bool" where
  "wf_prefix p \<longleftrightarrow> without_zone (pfx_addr p) = pfx_addr p \<and>
     (pfx_bits p = -1 \<or> pfx_addr p \<noteq> NoAddr \<and> 0 \<le> pfx_bits p \<and> pfx_bits p \<le> bit_len (pfx_addr p))"

section \<open>Laws\<close>

lemma length_as_slice: "length (as_slice a) \<in> {0, 4, 16}"
  by (cases a) (simp_all del: be_bytes_numeral)

lemma unat_addr_bounds: "unat (v :: 32 word) < 256 ^ 4" "unat (w :: 128 word) < 256 ^ 16"
  using unsigned_less [where 'a = nat, of v] unsigned_less [where 'a = nat, of w] by simp_all

text \<open>The bytes of an address determine it, except for the zone, which they leave out.\<close>

lemma as_slice_inject: "as_slice a = as_slice b \<longleftrightarrow> without_zone a = without_zone b"
proof -
  have four: "be_bytes 4 (unat v) = be_bytes 4 (unat w) \<longleftrightarrow> v = w" for v w :: "32 word"
    using be_bytes_inject [of 4 "unat v" "unat w"] unat_addr_bounds(1)
    by (auto simp: word_unat_eq_iff simp del: be_bytes_numeral)
  have sixteen: "be_bytes 16 (unat v) = be_bytes 16 (unat w) \<longleftrightarrow> v = w" for v w :: "128 word"
    using be_bytes_inject [of 16 "unat v" "unat w"] unat_addr_bounds(2)
    by (auto simp: word_unat_eq_iff simp del: be_bytes_numeral)
  have "be_bytes 4 x \<noteq> be_bytes 16 y" "be_bytes 16 y \<noteq> be_bytes 4 x"
    "be_bytes 4 x \<noteq> []" "be_bytes 16 x \<noteq> []" "[] \<noteq> be_bytes 4 x" "[] \<noteq> be_bytes 16 x" for x y
    by (auto dest: arg_cong [where f = length] simp del: be_bytes_numeral)
  then show ?thesis
    by (cases a; cases b) (auto simp: four sixteen simp del: be_bytes_numeral)
qed

lemma addr_from_as_slice: "a \<noteq> NoAddr \<Longrightarrow> addr_from_slice (as_slice a) = (without_zone a, True)"
proof -
  have "of_nat (be_nat (be_bytes 4 (unat v))) = v" for v :: "32 word"
    unfolding be_nat_be_bytes mod_less [OF unat_addr_bounds(1)] by simp
  moreover have "of_nat (be_nat (be_bytes 16 (unat w))) = w" for w :: "128 word"
    unfolding be_nat_be_bytes mod_less [OF unat_addr_bounds(2)] by simp
  ultimately show "a \<noteq> NoAddr \<Longrightarrow> addr_from_slice (as_slice a) = (without_zone a, True)"
    by (cases a) (simp_all add: addr_from_slice_def del: be_bytes_numeral)
qed

lemma take_bit_clear_low [simp]: "take_bit n (clear_low n w) = 0"
  by (simp add: clear_low_def take_bit_push_bit)

lemma bit_clear_low: "bit (clear_low n w) i \<longleftrightarrow> n \<le> i \<and> bit w i"
  for w :: "'a::len word"
  by (auto simp: clear_low_def bit_push_bit_iff bit_drop_bit_eq dest: bit_imp_le_length)

lemma clear_low_idem [simp]: "clear_low n (clear_low n w) = clear_low n w"
  for w :: "'a::len word"
  by (rule bit_eqI) (auto simp: bit_clear_low)

lemma clear_low_eq_iff: "clear_low n v = clear_low n w \<longleftrightarrow> clear_low n (v XOR w) = 0"
  for v w :: "'a::len word"
  by (auto simp: bit_eq_iff bit_clear_low bit_xor_iff)

lemma take_bit_or_clear_low:
  fixes h w :: "'a::len word"
  assumes "take_bit n h = h"
  shows "take_bit n (clear_low n w OR h) = h" and "clear_low n (clear_low n w OR h) = clear_low n w"
proof -
  show "take_bit n (clear_low n w OR h) = h"
    using assms by (simp add: take_bit_or)
  have "bit h i \<Longrightarrow> \<not> n \<le> i" for i
    using assms by (metis bit_take_bit_iff not_le)
  then show "clear_low n (clear_low n w OR h) = clear_low n w"
    by (intro bit_eqI) (auto simp: bit_clear_low bit_or_iff)
qed

lemma masked_addr4: "pfx_addr p = Addr4 w \<Longrightarrow> 0 \<le> pfx_bits p \<Longrightarrow> pfx_bits p \<le> 32 \<Longrightarrow>
    pfx_addr (masked p) = Addr4 (clear_low (nat (32 - pfx_bits p)) w)"
  by (simp add: masked_def prefix_from_def)

lemma masked_addr6: "pfx_addr p = Addr6 w z \<Longrightarrow> 0 \<le> pfx_bits p \<Longrightarrow> pfx_bits p \<le> 128 \<Longrightarrow>
    pfx_addr (masked p) = Addr6 (clear_low (nat (128 - pfx_bits p)) w) ''''"
  by (simp add: masked_def prefix_from_def)

lemma masked_invalid: "pfx_bits p < 0 \<Longrightarrow> masked p = no_prefix"
  by (simp add: masked_def)

lemma wf_prefix_cases:
  assumes "wf_prefix p"
  obtains (invalid) "pfx_bits p = -1" "\<not> prefix_is_valid p"
    | (v4) w where "pfx_addr p = Addr4 w" "0 \<le> pfx_bits p" "pfx_bits p \<le> 32" "prefix_is_valid p"
    | (v6) w where "pfx_addr p = Addr6 w ''''" "0 \<le> pfx_bits p" "pfx_bits p \<le> 128" "prefix_is_valid p"
  using assms by (cases "pfx_addr p") (auto simp: wf_prefix_def prefix_is_valid_def)

lemma wf_prefix_from [simp]: "wf_prefix (prefix_from a b)"
  by (cases a) (simp_all add: wf_prefix_def prefix_from_def)

lemma wf_no_prefix [simp]: "wf_prefix no_prefix"
  by (simp add: wf_prefix_def no_prefix_def)

end
