(* ===== verification/Trust_Records.thy ===== *)
theory Trust_Records
  imports Keys Wire Netip
begin

text \<open>
  Signed records, \<^verbatim>\<open>internal/trust/records.go\<close>: admissions and revocations, the bytes they sign,
  their construction and validation, and the digest a node signs over its gossiped metadata.
  A Unix time is an \<^verbatim>\<open>int64\<close>: a 64-bit word read with \<open>sint\<close>. The lemmas show that the signed
  bytes determine every field, that records of different kinds never share their bytes, and that
  what is constructed validates.
\<close>

section \<open>Records\<close>

record admission =
  adm_Identity :: public_key
  adm_Name :: string
  adm_Host :: uint64
  adm_Admitter :: public_key
  adm_IssuedAt :: int64
  adm_Signature :: bytes

record revocation =
  rev_Identity :: public_key
  rev_Revoker :: public_key
  rev_IssuedAt :: int64
  rev_Signature :: bytes

definition rootHost :: uint64 where
  "rootHost = 1"

definition admissionDomain :: string where
  "admissionDomain = ''cheesecloth/admission/v2''"

definition revocationDomain :: string where
  "revocationDomain = ''cheesecloth/revocation/v1''"

definition metaDomain :: string where
  "metaDomain = ''cheesecloth/meta/v1''"

definition i64 :: "int64 \<Rightarrow> bytes" where
  "i64 v = be_bytes 8 (unat v)"

definition u64 :: "uint64 \<Rightarrow> bytes" where
  "u64 v = be_bytes 8 (unat v)"

definition admission_signedBytes :: "admission \<Rightarrow> bytes" where
  "admission_signedBytes a =
     Canonical admissionDomain
       [key_bytes (adm_Identity a), string_bytes (adm_Name a), u64 (adm_Host a),
        key_bytes (adm_Admitter a), i64 (adm_IssuedAt a)]"

definition revocation_signedBytes :: "revocation \<Rightarrow> bytes" where
  "revocation_signedBytes r =
     Canonical revocationDomain
       [key_bytes (rev_Identity r), key_bytes (rev_Revoker r), i64 (rev_IssuedAt r)]"

section \<open>Construction\<close>

definition Admit :: "ed25519 \<Rightarrow> identity \<Rightarrow> public_key \<Rightarrow> string \<Rightarrow> uint64 \<Rightarrow> int64 \<Rightarrow> admission" where
  "Admit C admitter identity name host now =
     (let a = \<lparr>adm_Identity = identity, adm_Name = name, adm_Host = host,
               adm_Admitter = id_Public C admitter, adm_IssuedAt = now, adm_Signature = []\<rparr>
      in a\<lparr>adm_Signature := id_Sign C admitter (admission_signedBytes a)\<rparr>)"

definition SelfAdmit :: "ed25519 \<Rightarrow> identity \<Rightarrow> string \<Rightarrow> int64 \<Rightarrow> admission" where
  "SelfAdmit C self name now = Admit C self (id_Public C self) name rootHost now"

definition Revoke :: "ed25519 \<Rightarrow> identity \<Rightarrow> public_key \<Rightarrow> int64 \<Rightarrow> revocation" where
  "Revoke C revoker identity now =
     (let r = \<lparr>rev_Identity = identity, rev_Revoker = id_Public C revoker, rev_IssuedAt = now,
               rev_Signature = []\<rparr>
      in r\<lparr>rev_Signature := id_Sign C revoker (revocation_signedBytes r)\<rparr>)"

section \<open>Validation\<close>

datatype trust_error =
    AdmissionWithoutName
  | AdmissionWithoutSlot
  | AdmissionSignature
  | RevocationSignature
  | UntrustedRoot
  | OverlayFull

definition admission_Validate :: "ed25519 \<Rightarrow> admission \<Rightarrow> trust_error option" where
  "admission_Validate C a =
     (if adm_Name a = '''' then Some AdmissionWithoutName
      else if adm_Host a = 0 then Some AdmissionWithoutSlot
      else if \<not> Verify C (adm_Admitter a) (admission_signedBytes a) (adm_Signature a)
        then Some AdmissionSignature
      else None)"

definition revocation_Validate :: "ed25519 \<Rightarrow> revocation \<Rightarrow> trust_error option" where
  "revocation_Validate C r =
     (if \<not> Verify C (rev_Revoker r) (revocation_signedBytes r) (rev_Signature r)
        then Some RevocationSignature
      else None)"

section \<open>Metadata\<close>

text \<open>\<^verbatim>\<open>byte(p.Bits())\<close> keeps the low 8 bits, so the invalid length -1 is 255.\<close>

definition prefix_field :: "prefix \<Rightarrow> bytes" where
  "prefix_field p = as_slice (pfx_addr p) @ [of_int (pfx_bits p)]"

definition MetaDigest :: "string \<Rightarrow> addr \<Rightarrow> string \<Rightarrow> prefix list \<Rightarrow> bytes" where
  "MetaDigest name overlay wgPubKey allowedIPs =
     Canonical metaDomain
       ([string_bytes name, as_slice overlay, string_bytes wgPubKey] @ map prefix_field allowedIPs)"

section \<open>What the signed bytes determine\<close>

lemma domains_zero_free [simp]:
  "zero_free admissionDomain" "zero_free revocationDomain" "zero_free metaDomain"
  by (simp_all add: zero_free_def string_bytes_def admissionDomain_def revocationDomain_def metaDomain_def
      of_char_Char)

lemma domains_distinct [simp]:
  "admissionDomain \<noteq> revocationDomain" "admissionDomain \<noteq> metaDomain" "revocationDomain \<noteq> metaDomain"
  by (simp_all add: admissionDomain_def revocationDomain_def metaDomain_def)

lemma length_i64_u64 [simp]: "length (i64 v) = 8" "length (u64 w) = 8"
  by (simp_all add: i64_def u64_def del: be_bytes_numeral)

lemma i64_u64_inject [simp]: "i64 v = i64 v' \<longleftrightarrow> v = v'" "u64 w = u64 w' \<longleftrightarrow> w = w'"
  unfolding i64_def u64_def using be_bytes_8_inject by blast+

text \<open>Names shorter than 4 GiB: the length of a field is a 32-bit number.\<close>

definition short_name :: "string \<Rightarrow> bool" where
  "short_name s \<longleftrightarrow> length s < 2 ^ 32"

lemma admission_fields_fit [simp]:
  "short_name name \<Longrightarrow> fits_uint32 [key_bytes i, string_bytes name, u64 h, key_bytes k, i64 t]"
  by (simp add: fits_uint32_def short_name_def)

lemma revocation_fields_fit [simp]: "fits_uint32 [key_bytes i, key_bytes k, i64 t]"
  by (simp add: fits_uint32_def)

lemma admission_signedBytes_inject:
  assumes "admission_signedBytes a = admission_signedBytes b"
    and "short_name (adm_Name a)" and "short_name (adm_Name b)"
  shows "a\<lparr>adm_Signature := []\<rparr> = b\<lparr>adm_Signature := []\<rparr>"
  using Canonical_inject [OF assms(1) [unfolded admission_signedBytes_def]] assms(2,3)
  by (cases a; cases b) simp

lemma revocation_signedBytes_inject:
  assumes "revocation_signedBytes r = revocation_signedBytes q"
  shows "r\<lparr>rev_Signature := []\<rparr> = q\<lparr>rev_Signature := []\<rparr>"
  using Canonical_inject [OF assms [unfolded revocation_signedBytes_def]]
  by (cases r; cases q) simp

lemma prefix_field_length: "length (prefix_field p) < 2 ^ 32"
  using length_as_slice [of "pfx_addr p"] by (auto simp: prefix_field_def)

lemma meta_fields_fit [simp]:
  "short_name name \<Longrightarrow> short_name key \<Longrightarrow>
   fits_uint32 (string_bytes name # as_slice ov # string_bytes key # map prefix_field ps)"
  using length_as_slice [of ov] prefix_field_length by (auto simp: fits_uint32_def short_name_def)

lemma prefix_bits_byte_inject:
  assumes "wf_prefix p" and "wf_prefix q" and "(of_int (pfx_bits p) :: byte) = of_int (pfx_bits q)"
  shows "pfx_bits p = pfx_bits q"
proof -
  have "-1 \<le> pfx_bits r \<and> pfx_bits r \<le> 128" if "wf_prefix r" for r
    using that by (cases r rule: wf_prefix_cases) auto
  then have range: "-1 \<le> pfx_bits p" "pfx_bits p \<le> 128" "-1 \<le> pfx_bits q" "pfx_bits q \<le> 128"
    using assms(1,2) by blast+
  have "pfx_bits p mod 256 = pfx_bits q mod 256"
    using assms(3) by (simp add: word_of_int_eq_iff take_bit_eq_mod)
  then have "(pfx_bits p + 1) mod 256 = (pfx_bits q + 1) mod 256"
    by (metis mod_add_left_eq)
  with range show ?thesis by simp
qed

lemma prefix_field_inject:
  assumes "wf_prefix p" and "wf_prefix q" and "prefix_field p = prefix_field q"
  shows "p = q"
proof -
  from assms(3) have "as_slice (pfx_addr p) = as_slice (pfx_addr q)"
    and "(of_int (pfx_bits p) :: byte) = of_int (pfx_bits q)"
    by (auto simp: prefix_field_def)
  with assms(1,2) have "pfx_addr p = pfx_addr q" and "pfx_bits p = pfx_bits q"
    using prefix_bits_byte_inject by (auto simp: as_slice_inject wf_prefix_def)
  then show ?thesis by (cases p; cases q) simp
qed

lemma map_prefix_field_inject:
  assumes "map prefix_field ps = map prefix_field qs" and "\<forall>p \<in> set ps \<union> set qs. wf_prefix p"
  shows "ps = qs"
  using assms by (induction ps arbitrary: qs) (auto simp: map_eq_Cons_conv dest: prefix_field_inject)

text \<open>
  What a node signs over its metadata determines its name, its overlay address (all but an
  IPv6 zone, which an overlay address never has), its wireguard key and every network it routes,
  in order: one signature covers one such statement and no other.
\<close>

theorem MetaDigest_binds:
  assumes "MetaDigest name ov key ps = MetaDigest name' ov' key' ps'"
    and "short_name name" and "short_name name'" and "short_name key" and "short_name key'"
    and "\<forall>p \<in> set ps \<union> set ps'. wf_prefix p"
  shows "name = name' \<and> without_zone ov = without_zone ov' \<and> key = key' \<and> ps = ps'"
proof -
  have "[string_bytes name, as_slice ov, string_bytes key] @ map prefix_field ps
      = [string_bytes name', as_slice ov', string_bytes key'] @ map prefix_field ps'"
    using Canonical_inject [OF assms(1) [unfolded MetaDigest_def]] assms(2-5) by simp
  with map_prefix_field_inject [OF _ assms(6)] show ?thesis
    by (simp add: as_slice_inject)
qed

theorem MetaDigest_binds_witness:
  "let ps = [prefix_from (Addr4 0x0A000000) 8] in
   MetaDigest ''a'' (Addr4 1) ''k'' ps = MetaDigest ''a'' (Addr4 1) ''k'' ps \<and>
   ''a'' = ''a'' \<and> without_zone (Addr4 1) = without_zone (Addr4 1) \<and> ''k'' = ''k'' \<and> ps = ps"
  using MetaDigest_binds [of "''a''" "Addr4 1" "''k''" "[prefix_from (Addr4 0x0A000000) 8]"
      "''a''" "Addr4 1" "''k''" "[prefix_from (Addr4 0x0A000000) 8]"]
  by (simp add: short_name_def Let_def)

text \<open>
  C16. The bytes an admission or a revocation signs determine every signed field of it, and the
  three kinds of statement an identity signs (admissions, revocations, metadata) never share
  their bytes: a signature made for one of them cannot be presented as another.
\<close>

theorem signed_statements_distinct:
  assumes "short_name (adm_Name a)" and "short_name (adm_Name b)" and "short_name name" and "short_name key"
  shows "(admission_signedBytes a = admission_signedBytes b \<longleftrightarrow> a\<lparr>adm_Signature := []\<rparr> = b\<lparr>adm_Signature := []\<rparr>)
    \<and> (revocation_signedBytes r = revocation_signedBytes q \<longleftrightarrow> r\<lparr>rev_Signature := []\<rparr> = q\<lparr>rev_Signature := []\<rparr>)
    \<and> admission_signedBytes a \<noteq> revocation_signedBytes r
    \<and> admission_signedBytes a \<noteq> MetaDigest name ov key ps
    \<and> revocation_signedBytes r \<noteq> MetaDigest name ov key ps"
proof -
  have "admission_signedBytes a = admission_signedBytes (a\<lparr>adm_Signature := []\<rparr>)" for a
    by (simp add: admission_signedBytes_def)
  then have "admission_signedBytes a = admission_signedBytes b \<longleftrightarrow> a\<lparr>adm_Signature := []\<rparr> = b\<lparr>adm_Signature := []\<rparr>"
    using admission_signedBytes_inject assms(1,2) by metis
  moreover have "revocation_signedBytes r = revocation_signedBytes (r\<lparr>rev_Signature := []\<rparr>)" for r
    by (simp add: revocation_signedBytes_def)
  then have "revocation_signedBytes r = revocation_signedBytes q \<longleftrightarrow> r\<lparr>rev_Signature := []\<rparr> = q\<lparr>rev_Signature := []\<rparr>"
    using revocation_signedBytes_inject by metis
  moreover have "admission_signedBytes a \<noteq> revocation_signedBytes r"
    using assms(1) Canonical_inject [of admissionDomain _ revocationDomain]
    unfolding admission_signedBytes_def revocation_signedBytes_def
    by (metis admission_fields_fit revocation_fields_fit domains_zero_free domains_distinct(1))
  moreover have meta: "fits_uint32 ([string_bytes name, as_slice ov, string_bytes key] @ map prefix_field ps)"
    using assms(3,4) by simp
  then have "admission_signedBytes a \<noteq> MetaDigest name ov key ps"
    using assms(1) Canonical_inject [of admissionDomain _ metaDomain]
    unfolding admission_signedBytes_def MetaDigest_def
    by (metis admission_fields_fit domains_zero_free domains_distinct(2))
  moreover have "revocation_signedBytes r \<noteq> MetaDigest name ov key ps"
    using meta Canonical_inject [of revocationDomain _ metaDomain]
    unfolding revocation_signedBytes_def MetaDigest_def
    by (metis revocation_fields_fit domains_zero_free domains_distinct(3))
  ultimately show ?thesis by blast
qed

theorem signed_statements_distinct_witness:
  "let a = \<lparr>adm_Identity = 2, adm_Name = ''b'', adm_Host = 2, adm_Admitter = 1, adm_IssuedAt = 100, adm_Signature = []\<rparr>;
       r = \<lparr>rev_Identity = 2, rev_Revoker = 1, rev_IssuedAt = 100, rev_Signature = []\<rparr> in
   admission_signedBytes a \<noteq> admission_signedBytes (a\<lparr>adm_Host := 3\<rparr>) \<and>
   admission_signedBytes a \<noteq> revocation_signedBytes r \<and> revocation_signedBytes r \<noteq> MetaDigest ''b'' (Addr4 1) ''k'' []"
  using signed_statements_distinct
    [of "\<lparr>adm_Identity = 2, adm_Name = ''b'', adm_Host = 2, adm_Admitter = 1, adm_IssuedAt = 100, adm_Signature = []\<rparr>"
        "\<lparr>adm_Identity = 2, adm_Name = ''b'', adm_Host = 3, adm_Admitter = 1, adm_IssuedAt = 100, adm_Signature = []\<rparr>"
        "''b''" "''k''" "\<lparr>rev_Identity = 2, rev_Revoker = 1, rev_IssuedAt = 100, rev_Signature = []\<rparr>"
        "\<lparr>rev_Identity = 2, rev_Revoker = 1, rev_IssuedAt = 100, rev_Signature = []\<rparr>" "Addr4 1" "[]"]
  by (simp add: short_name_def Let_def)

section \<open>Constructed records validate\<close>

lemma Admit_simps [simp]:
  "adm_Identity (Admit C who i n h t) = i" "adm_Name (Admit C who i n h t) = n"
  "adm_Host (Admit C who i n h t) = h" "adm_Admitter (Admit C who i n h t) = id_Public C who"
  "adm_IssuedAt (Admit C who i n h t) = t"
  by (simp_all add: Admit_def Let_def)

lemma Revoke_simps [simp]:
  "rev_Identity (Revoke C who i t) = i" "rev_Revoker (Revoke C who i t) = id_Public C who"
  "rev_IssuedAt (Revoke C who i t) = t"
  by (simp_all add: Revoke_def Let_def)

lemma SelfAdmit_simps [simp]:
  "adm_Identity (SelfAdmit C who n t) = id_Public C who" "adm_Name (SelfAdmit C who n t) = n"
  "adm_Host (SelfAdmit C who n t) = rootHost" "adm_Admitter (SelfAdmit C who n t) = id_Public C who"
  "adm_IssuedAt (SelfAdmit C who n t) = t"
  by (simp_all add: SelfAdmit_def)

lemma Admit_signature: "adm_Signature (Admit C who i n h t) = id_Sign C who (admission_signedBytes (Admit C who i n h t))"
  by (simp add: Admit_def Let_def admission_signedBytes_def)

lemma Revoke_signature: "rev_Signature (Revoke C who i t) = id_Sign C who (revocation_signedBytes (Revoke C who i t))"
  by (simp add: Revoke_def Let_def revocation_signedBytes_def)

lemma Admit_Validate:
  assumes "ed25519_correct C" and "wf_identity C who"
  shows "admission_Validate C (Admit C who i n h t) =
    (if n = '''' then Some AdmissionWithoutName else if h = 0 then Some AdmissionWithoutSlot else None)"
  using Verify_Sign [OF assms] by (simp add: admission_Validate_def Admit_signature)

lemma Revoke_Validate:
  assumes "ed25519_correct C" and "wf_identity C who"
  shows "revocation_Validate C (Revoke C who i t) = None"
  using Verify_Sign [OF assms] by (simp add: revocation_Validate_def Revoke_signature)

end
