(* ===== verification/Trust_Set.thy ===== *)
theory Trust_Set
  imports Trust_Records
begin

text \<open>
  The membership, \<^verbatim>\<open>internal/trust/set.go\<close>: a pinned root, the newest signature-valid admission
  of every identity, the first signature-valid revocation of every identity, and the cache of the
  identities found valid. Validity is decided when it is asked, by the recursion \<^verbatim>\<open>validAt\<close>
  over the records; here it is a total function, its termination proved.

  The locks are not part of the state: every operation below is what the source does between
  taking and releasing the lock. \<^verbatim>\<open>Valid\<close> uses its cache without the lock; the theory
  \<open>Trust_Cache\<close> treats the interleavings that allows.
\<close>

section \<open>State\<close>

record trust_set =
  set_root :: public_key
  set_admissions :: "(public_key \<times> admission) list"
  set_revocations :: "(public_key \<times> revocation) list"
  set_members :: "public_key list"

record records =
  rs_Admissions :: "admission list"
  rs_Revocations :: "revocation list"

definition NewSet :: "public_key \<Rightarrow> trust_set" where
  "NewSet root = \<lparr>set_root = root, set_admissions = [], set_revocations = [], set_members = []\<rparr>"

definition set_forget :: "trust_set \<Rightarrow> trust_set" where
  "set_forget s = s\<lparr>set_members := []\<rparr>"

section \<open>Adding records\<close>

text \<open>The result is \<open>Inl\<close> the error, or \<open>Inr\<close> whether the set changed.\<close>

definition AddAdmission :: "ed25519 \<Rightarrow> trust_set \<Rightarrow> admission \<Rightarrow> trust_set \<times> (trust_error + bool)" where
  "AddAdmission C s a =
     (case admission_Validate C a of
        Some err \<Rightarrow> (s, Inl err)
      | None \<Rightarrow>
          if adm_Admitter a = adm_Identity a \<and> adm_Identity a \<noteq> set_root s then (s, Inl UntrustedRoot)
          else
            (case map_of (set_admissions s) (adm_Identity a) of
               Some cur \<Rightarrow>
                 if sint (adm_IssuedAt a) \<le> sint (adm_IssuedAt cur) then (s, Inr False)
                 else (set_forget (s\<lparr>set_admissions := AList.update (adm_Identity a) a (set_admissions s)\<rparr>), Inr True)
             | None \<Rightarrow>
                 (set_forget (s\<lparr>set_admissions := AList.update (adm_Identity a) a (set_admissions s)\<rparr>), Inr True)))"

definition AddRevocation :: "ed25519 \<Rightarrow> trust_set \<Rightarrow> revocation \<Rightarrow> trust_set \<times> (trust_error + bool)" where
  "AddRevocation C s r =
     (case revocation_Validate C r of
        Some err \<Rightarrow> (s, Inl err)
      | None \<Rightarrow>
          (case map_of (set_revocations s) (rev_Identity r) of
             Some _ \<Rightarrow> (s, Inr False)
           | None \<Rightarrow>
               (set_forget (s\<lparr>set_revocations := AList.update (rev_Identity r) r (set_revocations s)\<rparr>), Inr True)))"

text \<open>\<^verbatim>\<open>Merge\<close> is two loops over the records with the number of changes; errors are dropped.\<close>

fun merge_admissions :: "ed25519 \<Rightarrow> trust_set \<Rightarrow> admission list \<Rightarrow> nat \<Rightarrow> trust_set \<times> nat" where
  "merge_admissions C s [] changed = (s, changed)"
| "merge_admissions C s (a # as) changed =
     (let (s', ok) = AddAdmission C s a in
      merge_admissions C s' as (if ok = Inr True then changed + 1 else changed))"

fun merge_revocations :: "ed25519 \<Rightarrow> trust_set \<Rightarrow> revocation list \<Rightarrow> nat \<Rightarrow> trust_set \<times> nat" where
  "merge_revocations C s [] changed = (s, changed)"
| "merge_revocations C s (r # rs) changed =
     (let (s', ok) = AddRevocation C s r in
      merge_revocations C s' rs (if ok = Inr True then changed + 1 else changed))"

definition Merge :: "ed25519 \<Rightarrow> trust_set \<Rightarrow> records \<Rightarrow> trust_set \<times> nat" where
  "Merge C s rs =
     (let (s', changed) = merge_admissions C s (rs_Admissions rs) 0 in
      merge_revocations C s' (rs_Revocations rs) changed)"

text \<open>The values of the two maps in range order, sorted by identity.\<close>

definition Records :: "trust_set \<Rightarrow> records" where
  "Records s =
     \<lparr>rs_Admissions = sort_key adm_Identity (map snd (set_admissions s)),
      rs_Revocations = sort_key rev_Identity (map snd (set_revocations s))\<rparr>"

section \<open>Validity\<close>

definition MaxInt64 :: int64 where
  "MaxInt64 = 0x7FFFFFFFFFFFFFFF"

type_synonym question = "public_key \<times> int64"

lemma card_less_insert:
  fixes v :: "'a::finite set"
  shows "q \<notin> v \<Longrightarrow> card (- insert q v) < card (- v)"
  by (rule psubset_card_mono) auto

text \<open>
  \<^verbatim>\<open>visiting\<close> is deleted from on return, so passing it down as a value gives every call the
  same set as the source's shared map.
\<close>

function validAt :: "trust_set \<Rightarrow> public_key \<Rightarrow> int64 \<Rightarrow> question set \<Rightarrow> bool" where
  "validAt s ident tm visiting =
     (if ident = set_root s then
        (case map_of (set_revocations s) ident of
           None \<Rightarrow> True
         | Some rv \<Rightarrow>
             if sint tm < sint (rev_IssuedAt rv) then True
             else if rev_Revoker rv = ident then False
             else \<not> validAt s (rev_Revoker rv) (rev_IssuedAt rv) visiting)
      else if (ident, tm) \<in> visiting then False
      else
        let visiting' = insert (ident, tm) visiting in
        if (case map_of (set_revocations s) ident of
              None \<Rightarrow> False
            | Some rv \<Rightarrow>
                if sint (rev_IssuedAt rv) \<le> sint tm then
                  if rev_Revoker rv = ident then True
                  else validAt s (rev_Revoker rv) (rev_IssuedAt rv) visiting'
                else False)
        then False
        else
          (case map_of (set_admissions s) ident of
             None \<Rightarrow> False
           | Some a \<Rightarrow>
               if adm_Admitter a = ident then False
               else validAt s (adm_Admitter a) (adm_IssuedAt a) visiting'))"
  by pat_completeness auto

termination
proof (relation "measure (\<lambda>(s, ident, tm, visiting).
    2 * card (- visiting) + (if ident = set_root s then 1 else 0 :: nat))", goal_cases)
  case (3 s ident tm visiting x rv)
  then show ?case using card_less_insert [of "(ident, tm)" visiting] by auto
next
  case (4 s ident tm visiting x a)
  then show ?case using card_less_insert [of "(ident, tm)" visiting] by auto
qed auto

declare validAt.simps [simp del]

definition valid :: "trust_set \<Rightarrow> public_key \<Rightarrow> bool" where
  "valid s ident = validAt s ident MaxInt64 {}"

text \<open>\<^verbatim>\<open>Valid\<close> reads the cache and, on a valid answer, stores it.\<close>

definition Valid :: "trust_set \<Rightarrow> public_key \<Rightarrow> trust_set \<times> bool" where
  "Valid s ident =
     (if ident \<in> set (set_members s) then (s, True)
      else if valid s ident then (s\<lparr>set_members := List.insert ident (set_members s)\<rparr>, True)
      else (s, False))"

definition validAdmissions :: "trust_set \<Rightarrow> admission list" where
  "validAdmissions s = map snd (filter (\<lambda>(ident, a). valid s ident) (set_admissions s))"

section \<open>Queries\<close>

definition Lookup :: "trust_set \<Rightarrow> public_key \<Rightarrow> admission option" where
  "Lookup s ident = map_of (set_admissions s) ident"

text \<open>The last match and the number of matches; the result counts only if there is exactly one.\<close>

fun count_named :: "string \<Rightarrow> admission list \<Rightarrow> admission option \<times> nat \<Rightarrow> admission option \<times> nat" where
  "count_named name [] acc = acc"
| "count_named name (a # as) (found, n) =
     count_named name as (if adm_Name a = name then (Some a, n + 1) else (found, n))"

definition ByName :: "trust_set \<Rightarrow> string \<Rightarrow> admission option" where
  "ByName s name =
     (let (found, n) = count_named name (validAdmissions s) (None, 0) in
      if n = 1 then found else None)"

lemma slot_measure:
  fixes h :: uint64
  assumes "h \<noteq> 0"
  shows "(if h + 1 = 0 then 0 else 2 ^ 64 - unat (h + 1)) < (2 ^ 64 - unat h :: nat)"
proof -
  have "unat h < 2 ^ 64" using unsigned_less [where 'a = nat, of h] by simp
  moreover have "unat (h + 1) = unat h + 1" if "h + 1 \<noteq> 0"
    using that by (metis Suc_eq_plus1 add.commute unatSuc)
  ultimately show ?thesis by auto
qed

text \<open>
  The loop over slots: it stops above the limit, and at 0, which an increment reaches when the
  limit is the largest 64-bit number.
\<close>

function free_slot :: "uint64 list \<Rightarrow> uint64 \<Rightarrow> uint64 \<Rightarrow> uint64 option" where
  "free_slot used limit h =
     (if h \<le> limit \<and> h \<noteq> 0 then
        if h \<notin> set used then Some h else free_slot used limit (h + 1)
      else None)"
  by pat_completeness auto

termination
  by (relation "measure (\<lambda>(used, limit, h). if h = 0 then 0 else 2 ^ 64 - unat h)")
    (use slot_measure in auto)

declare free_slot.simps [simp del]

definition FreeHost :: "trust_set \<Rightarrow> uint64 \<Rightarrow> trust_error + uint64" where
  "FreeHost s limit =
     (let taken = map (\<lambda>(ident, a). adm_Host a) (set_admissions s);
          validTaken = map (\<lambda>(ident, a). adm_Host a) (filter (\<lambda>(ident, a). valid s ident) (set_admissions s))
      in
        case free_slot taken limit 1 of
          Some h \<Rightarrow> Inr h
        | None \<Rightarrow> (case free_slot validTaken limit 1 of Some h \<Rightarrow> Inr h | None \<Rightarrow> Inl OverlayFull))"

definition stronger_claim :: "public_key \<Rightarrow> admission \<Rightarrow> admission \<Rightarrow> bool" where
  "stronger_claim ident mine a \<longleftrightarrow>
     adm_Identity a \<noteq> ident \<and> adm_Host a = adm_Host mine \<and>
     (sint (adm_IssuedAt a) < sint (adm_IssuedAt mine) \<or>
      adm_IssuedAt a = adm_IssuedAt mine \<and> key_bytes (adm_Identity a) < key_bytes ident)"

definition HostConflict :: "trust_set \<Rightarrow> public_key \<Rightarrow> admission option" where
  "HostConflict s ident =
     (case map_of (set_admissions s) ident of
        None \<Rightarrow> None
      | Some mine \<Rightarrow> List.find (stronger_claim ident mine) (validAdmissions s))"

definition NameTaken :: "trust_set \<Rightarrow> string \<Rightarrow> public_key \<Rightarrow> bool" where
  "NameTaken s name except \<longleftrightarrow>
     list_ex (\<lambda>a. adm_Name a = name \<and> adm_Identity a \<noteq> except) (validAdmissions s)"

section \<open>The recursion, restated\<close>

text \<open>
  The membership rule over an oracle \<open>f\<close> for the questions it leads to: an identity is withdrawn
  at a time by a revocation from before that is its own or a member's, and admitted by an
  admission whose admitter was a member. \<open>leads_to\<close> is the relation between a question and
  those it asks. Induction and case analysis below go through these, not the equation.
\<close>

definition withdrawn :: "(public_key \<Rightarrow> int64 \<Rightarrow> bool) \<Rightarrow> trust_set \<Rightarrow> public_key \<Rightarrow> int64 \<Rightarrow> bool" where
  "withdrawn f s x tm \<longleftrightarrow>
     (\<exists>r. map_of (set_revocations s) x = Some r \<and> sint (rev_IssuedAt r) \<le> sint tm \<and>
        (rev_Revoker r = x \<or> f (rev_Revoker r) (rev_IssuedAt r)))"

definition admitted :: "(public_key \<Rightarrow> int64 \<Rightarrow> bool) \<Rightarrow> trust_set \<Rightarrow> public_key \<Rightarrow> bool" where
  "admitted f s x \<longleftrightarrow>
     (\<exists>a. map_of (set_admissions s) x = Some a \<and> adm_Admitter a \<noteq> x \<and> f (adm_Admitter a) (adm_IssuedAt a))"

inductive leads_to :: "trust_set \<Rightarrow> public_key \<Rightarrow> int64 \<Rightarrow> public_key \<Rightarrow> int64 \<Rightarrow> bool" for s where
  revoker: "map_of (set_revocations s) x = Some r \<Longrightarrow> sint (rev_IssuedAt r) \<le> sint tm \<Longrightarrow>
    rev_Revoker r \<noteq> x \<Longrightarrow> leads_to s x tm (rev_Revoker r) (rev_IssuedAt r)"
| admitter: "map_of (set_admissions s) x = Some a \<Longrightarrow> x \<noteq> set_root s \<Longrightarrow>
    adm_Admitter a \<noteq> x \<Longrightarrow> leads_to s x tm (adm_Admitter a) (adm_IssuedAt a)"

inductive_cases leads_toE: "leads_to s x tm y u"

lemma withdrawn_cong:
  assumes "\<And>y u. leads_to s x tm y u \<Longrightarrow> f y u = g y u"
  shows "withdrawn f s x tm = withdrawn g s x tm"
  using assms leads_to.revoker unfolding withdrawn_def by metis

lemma admitted_cong:
  assumes "x \<noteq> set_root s" and "\<And>y u. leads_to s x tm y u \<Longrightarrow> f y u = g y u"
  shows "admitted f s x = admitted g s x"
  using assms leads_to.admitter unfolding admitted_def by metis

lemma validAt_root: "validAt s (set_root s) tm V \<longleftrightarrow> \<not> withdrawn (\<lambda>y u. validAt s y u V) s (set_root s) tm"
  by (subst validAt.simps) (auto simp: withdrawn_def split: option.splits)

lemma validAt_other:
  "x \<noteq> set_root s \<Longrightarrow> validAt s x tm V \<longleftrightarrow> (x, tm) \<notin> V \<and>
     \<not> withdrawn (\<lambda>y u. validAt s y u (insert (x, tm) V)) s x tm \<and>
     admitted (\<lambda>y u. validAt s y u (insert (x, tm) V)) s x"
  by (subst validAt.simps) (auto simp: withdrawn_def admitted_def Let_def split: option.splits)

lemma validAt_induct [case_names root other]:
  assumes root: "\<And>tm V. (\<And>y u. leads_to s (set_root s) tm y u \<Longrightarrow> P y u V) \<Longrightarrow> P (set_root s) tm V"
    and other: "\<And>x tm V. x \<noteq> set_root s \<Longrightarrow>
      (\<And>y u. leads_to s x tm y u \<Longrightarrow> (x, tm) \<notin> V \<Longrightarrow> P y u (insert (x, tm) V)) \<Longrightarrow> P x tm V"
  shows "P x tm V"
proof (induction "2 * card (- V) + (if x = set_root s then 1 else 0 :: nat)" arbitrary: x tm V rule: less_induct)
  case less
  show ?case
  proof (cases "x = set_root s")
    case True
    have "P y u V" if "leads_to s x tm y u" for y u
      using that True by (intro less) (auto elim: leads_toE)
    then show ?thesis using root True by simp
  next
    case False
    have "P y u (insert (x, tm) V)" if "leads_to s x tm y u" and "(x, tm) \<notin> V" for y u
      using card_less_insert [OF that(2)] False by (intro less) auto
    then show ?thesis using other False by simp
  qed
qed

text \<open>
  Two sets give the same answers on a family of questions that is closed under \<open>leads_to\<close>, if
  their records agree on it and so do the sets of questions already being visited.
\<close>

lemma validAt_transfer:
  assumes root: "set_root s = set_root s'"
    and closed: "\<And>x tm y u. P x tm \<Longrightarrow> leads_to s x tm y u \<Longrightarrow> P y u"
    and revs: "\<And>x tm W. P x tm \<Longrightarrow>
      withdrawn (\<lambda>y u. validAt s' y u W) s x tm = withdrawn (\<lambda>y u. validAt s' y u W) s' x tm"
    and adms: "\<And>x tm W. P x tm \<Longrightarrow> x \<noteq> set_root s \<Longrightarrow>
      admitted (\<lambda>y u. validAt s' y u W) s x = admitted (\<lambda>y u. validAt s' y u W) s' x"
    and "P x tm" and "\<And>y u. P y u \<Longrightarrow> (y, u) \<in> V \<longleftrightarrow> (y, u) \<in> V'"
  shows "validAt s x tm V = validAt s' x tm V'"
  using assms(5,6)
proof (induction x tm V arbitrary: V' rule: validAt_induct [where s = s])
  case (root tm V)
  have "withdrawn (\<lambda>y u. validAt s y u V) s (set_root s) tm = withdrawn (\<lambda>y u. validAt s' y u V') s (set_root s) tm"
    by (rule withdrawn_cong) (use root closed in blast)
  then show ?case
    using validAt_root [of s tm V] validAt_root [of s' tm V'] assms(1) revs [OF root(2)] by simp
next
  case (other x tm V)
  let ?f = "\<lambda>t V y u. validAt t y u (insert (x, tm) V)"
  have root': "x \<noteq> set_root s'" using other(1) assms(1) by simp
  have eq: "?f s V y u = ?f s' V' y u" if "leads_to s x tm y u" and "(x, tm) \<notin> V" for y u
    using other(4) closed [OF other(3) that(1)] by (intro other(2) [OF that]) auto
  show ?case
  proof (cases "(x, tm) \<in> V")
    case True
    moreover from True have "(x, tm) \<in> V'" using other(3,4) by blast
    ultimately show ?thesis by (simp add: validAt_other [OF other(1)] validAt_other [OF root'])
  next
    case False
    moreover from False have "(x, tm) \<notin> V'" using other(3,4) by blast
    moreover have "withdrawn (?f s V) s x tm = withdrawn (?f s' V') s x tm"
      by (rule withdrawn_cong) (rule eq [OF _ False])
    moreover have "admitted (?f s V) s x = admitted (?f s' V') s x"
      by (rule admitted_cong [OF other(1)]) (rule eq [OF _ False])
    ultimately show ?thesis
      by (simp add: validAt_other [OF other(1)] validAt_other [OF root'] revs [OF other(3)] adms [OF other(3,1)])
  qed
qed

section \<open>The invariant\<close>

text \<open>Both maps are keyed by the identity of the record they hold and hold validated records only.\<close>

definition wf_admissions :: "ed25519 \<Rightarrow> public_key \<Rightarrow> (public_key \<times> admission) list \<Rightarrow> bool" where
  "wf_admissions C root m \<longleftrightarrow> go_map m \<and>
     (\<forall>(k, a) \<in> set m. adm_Identity a = k \<and> admission_Validate C a = None \<and>
        (adm_Admitter a = k \<longrightarrow> k = root))"

definition wf_revocations :: "ed25519 \<Rightarrow> (public_key \<times> revocation) list \<Rightarrow> bool" where
  "wf_revocations C m \<longleftrightarrow> go_map m \<and>
     (\<forall>(k, r) \<in> set m. rev_Identity r = k \<and> revocation_Validate C r = None)"

definition wf_set :: "ed25519 \<Rightarrow> trust_set \<Rightarrow> bool" where
  "wf_set C s \<longleftrightarrow> wf_admissions C (set_root s) (set_admissions s) \<and> wf_revocations C (set_revocations s) \<and>
     (\<forall>k \<in> set (set_members s). valid s k)"

text \<open>Validity reads the root and the two maps, and neither the cache nor the order of the maps.\<close>

definition same_records :: "trust_set \<Rightarrow> trust_set \<Rightarrow> bool" where
  "same_records s s' \<longleftrightarrow> set_root s = set_root s' \<and>
     map_of (set_admissions s) = map_of (set_admissions s') \<and>
     map_of (set_revocations s) = map_of (set_revocations s')"

lemma same_records_rule:
  assumes "same_records s s'"
  shows "withdrawn f s = withdrawn f s'" and "admitted f s = admitted f s'" and "set_root s = set_root s'"
  using assms by (auto simp: same_records_def withdrawn_def admitted_def fun_eq_iff)

lemma validAt_same_records:
  assumes "same_records s s'"
  shows "validAt s x tm V = validAt s' x tm V"
  by (rule validAt_transfer [where P = "\<lambda>_ _. True"]) (simp_all add: same_records_rule [OF assms])

lemma valid_same_records: "same_records s s' \<Longrightarrow> valid s ident = valid s' ident"
  unfolding valid_def by (rule validAt_same_records)

lemma same_records_refl [simp]: "same_records s s"
  by (simp add: same_records_def)

lemma same_records_members [simp]:
  "same_records (s\<lparr>set_members := ms\<rparr>) s" "same_records s (s\<lparr>set_members := ms\<rparr>)"
  by (simp_all add: same_records_def)

lemma valid_members [simp]: "valid (s\<lparr>set_members := ms\<rparr>) ident = valid s ident"
  by (rule valid_same_records) simp

lemma wf_NewSet [wf_intros]: "wf_set C (NewSet root)"
  by (simp add: wf_set_def NewSet_def wf_admissions_def wf_revocations_def)

lemma wf_admissions_update [wf_intros]:
  assumes "wf_admissions C root m" and "admission_Validate C a = None" and "adm_Admitter a = adm_Identity a \<longrightarrow> adm_Identity a = root"
  shows "wf_admissions C root (AList.update (adm_Identity a) a m)"
  using assms by (auto simp: wf_admissions_def dest!: set_AList_update)

lemma wf_revocations_update [wf_intros]:
  assumes "wf_revocations C m" and "revocation_Validate C r = None"
  shows "wf_revocations C (AList.update (rev_Identity r) r m)"
  using assms by (auto simp: wf_revocations_def dest!: set_AList_update)

text \<open>What the two adding operations do, as the branches a caller distinguishes.\<close>

definition accepts_admission :: "ed25519 \<Rightarrow> public_key \<Rightarrow> admission \<Rightarrow> bool" where
  "accepts_admission C root a \<longleftrightarrow>
     admission_Validate C a = None \<and> (adm_Admitter a = adm_Identity a \<longrightarrow> adm_Identity a = root)"

definition newer_admission :: "trust_set \<Rightarrow> admission \<Rightarrow> bool" where
  "newer_admission s a \<longleftrightarrow>
     (\<forall>cur. map_of (set_admissions s) (adm_Identity a) = Some cur \<longrightarrow> sint (adm_IssuedAt cur) < sint (adm_IssuedAt a))"

lemma AddAdmission_cases:
  obtains (rejected) e where "\<not> accepts_admission C (set_root s) a" "AddAdmission C s a = (s, Inl e)"
  | (kept) "accepts_admission C (set_root s) a" "\<not> newer_admission s a" "AddAdmission C s a = (s, Inr False)"
  | (stored) "accepts_admission C (set_root s) a" "newer_admission s a"
      "AddAdmission C s a =
        (s\<lparr>set_admissions := AList.update (adm_Identity a) a (set_admissions s), set_members := []\<rparr>, Inr True)"
proof (cases "accepts_admission C (set_root s) a")
  case False
  then have "\<exists>e. AddAdmission C s a = (s, Inl e)"
    by (auto simp: AddAdmission_def accepts_admission_def split: option.splits)
  with False show ?thesis using rejected by blast
next
  case True
  show ?thesis
  proof (cases "newer_admission s a")
    case newer: True
    with True show ?thesis
      by (intro stored) (auto simp: AddAdmission_def accepts_admission_def newer_admission_def set_forget_def
          split: option.splits)
  next
    case older: False
    with True show ?thesis
      by (intro kept) (auto simp: AddAdmission_def accepts_admission_def newer_admission_def)
  qed
qed

lemma AddRevocation_cases:
  obtains (rejected) e where "revocation_Validate C r = Some e" "AddRevocation C s r = (s, Inl e)"
  | (kept) q where "revocation_Validate C r = None" "map_of (set_revocations s) (rev_Identity r) = Some q"
      "AddRevocation C s r = (s, Inr False)"
  | (stored) "revocation_Validate C r = None" "map_of (set_revocations s) (rev_Identity r) = None"
      "AddRevocation C s r =
        (s\<lparr>set_revocations := AList.update (rev_Identity r) r (set_revocations s), set_members := []\<rparr>, Inr True)"
  by (cases "revocation_Validate C r"; cases "map_of (set_revocations s) (rev_Identity r)")
    (auto simp: AddRevocation_def set_forget_def)

lemma AddAdmission_wf [wf_intros]: "wf_set C s \<Longrightarrow> wf_set C (fst (AddAdmission C s a))"
  by (cases rule: AddAdmission_cases [of C s a])
    (auto simp: wf_set_def accepts_admission_def intro: wf_admissions_update)

lemma AddRevocation_wf [wf_intros]: "wf_set C s \<Longrightarrow> wf_set C (fst (AddRevocation C s r))"
  by (cases rule: AddRevocation_cases [of C r s]) (auto simp: wf_set_def intro: wf_revocations_update)

text \<open>A merge is a run of single additions, so what additions keep, every step keeps.\<close>

lemma merge_admissions_inv:
  assumes "P s" and "\<And>s a. P s \<Longrightarrow> P (fst (AddAdmission C s a))"
  shows "P (fst (merge_admissions C s as n))"
  using assms(1)
proof (induction as arbitrary: s n)
  case (Cons a as)
  then show ?case
    using assms(2) [of s a] by (cases "AddAdmission C s a") (simp add: Let_def)
qed simp

lemma merge_revocations_inv:
  assumes "P s" and "\<And>s r. P s \<Longrightarrow> P (fst (AddRevocation C s r))"
  shows "P (fst (merge_revocations C s rs n))"
  using assms(1)
proof (induction rs arbitrary: s n)
  case (Cons r rs)
  then show ?case
    using assms(2) [of s r] by (cases "AddRevocation C s r") (simp add: Let_def)
qed simp

lemma Merge_inv:
  assumes "P s" and "\<And>s a. P s \<Longrightarrow> P (fst (AddAdmission C s a))" and "\<And>s r. P s \<Longrightarrow> P (fst (AddRevocation C s r))"
  shows "P (fst (Merge C s rs))"
  using merge_admissions_inv [where P = P, OF assms(1,2)]
  by (auto simp: Merge_def split: prod.splits intro!: merge_revocations_inv [where P = P] assms(3)) (metis fst_conv)

lemma Merge_wf [wf_intros]: "wf_set C s \<Longrightarrow> wf_set C (fst (Merge C s rs))"
  by (rule Merge_inv) (auto intro: wf_intros)

lemma Valid_wf [wf_intros]: "wf_set C s \<Longrightarrow> wf_set C (fst (Valid s x))"
  by (auto simp: Valid_def wf_set_def)

lemma Valid_same_records [simp]: "same_records (fst (Valid s x)) s" "same_records s (fst (Valid s x))"
  by (auto simp: Valid_def)

lemma Valid_frame [frame_simps]:
  "set_root (fst (Valid s x)) = set_root s" "set_admissions (fst (Valid s x)) = set_admissions s"
  "set_revocations (fst (Valid s x)) = set_revocations s"
  by (auto simp: Valid_def)

lemma Valid_answer: "wf_set C s \<Longrightarrow> snd (Valid s x) = valid s x"
  by (auto simp: Valid_def wf_set_def)

lemma AddAdmission_root [frame_simps]: "set_root (fst (AddAdmission C s a)) = set_root s"
  by (cases rule: AddAdmission_cases [of C s a]) auto

lemma AddAdmission_revocations [frame_simps]: "set_revocations (fst (AddAdmission C s a)) = set_revocations s"
  by (cases rule: AddAdmission_cases [of C s a]) auto

lemma AddRevocation_root [frame_simps]: "set_root (fst (AddRevocation C s r)) = set_root s"
  by (cases rule: AddRevocation_cases [of C r s]) auto

lemma AddRevocation_admissions [frame_simps]: "set_admissions (fst (AddRevocation C s r)) = set_admissions s"
  by (cases rule: AddRevocation_cases [of C r s]) auto

section \<open>Reachable sets\<close>

text \<open>Everything a holder of a set can do with it. Queries change nothing but the cache.\<close>

inductive set_step :: "ed25519 \<Rightarrow> trust_set \<Rightarrow> trust_set \<Rightarrow> bool" for C where
  admission: "set_step C s (fst (AddAdmission C s a))"
| revocation: "set_step C s (fst (AddRevocation C s r))"
| merge: "set_step C s (fst (Merge C s rs))"
| query: "set_step C s (fst (Valid s x))"

inductive set_run :: "ed25519 \<Rightarrow> trust_set \<Rightarrow> trust_set \<Rightarrow> bool" for C where
  stay: "set_run C s s"
| more: "set_run C s s' \<Longrightarrow> set_step C s' s'' \<Longrightarrow> set_run C s s''"

inductive_cases set_stepE: "set_step C s s'"

lemma set_step_wf: "set_step C s s' \<Longrightarrow> wf_set C s \<Longrightarrow> wf_set C s'"
  by (erule set_stepE) (auto intro: wf_intros)

lemma set_run_wf: "set_run C s s' \<Longrightarrow> wf_set C s \<Longrightarrow> wf_set C s'"
  by (induction rule: set_run.induct) (auto intro: set_step_wf)

lemma set_run_inv:
  assumes "set_run C s s'" and "P s"
    and "\<And>s a. P s \<Longrightarrow> P (fst (AddAdmission C s a))" and "\<And>s r. P s \<Longrightarrow> P (fst (AddRevocation C s r))"
    and "\<And>s x. P s \<Longrightarrow> P (fst (Valid s x))"
  shows "P s'"
proof -
  have "P (fst (Merge C s rs))" if "P s" for s rs
    using that assms(3,4) by (rule Merge_inv)
  then have "P s'" if "set_step C s s'" and "P s" for s s'
    using that assms(3-5) by (auto elim: set_stepE)
  with assms(1,2) show ?thesis
    by (induction rule: set_run.induct) auto
qed

end
