(* ===== verification/Trust_Validity.thy ===== *)
theory Trust_Validity
  imports Trust_Set
begin

text \<open>
  What \<^verbatim>\<open>Valid\<close> decides (\<^verbatim>\<open>internal/trust/set.go\<close>). A member always has a chain of signed
  admissions up to the root; under causal time stamps the recursion's cycle guard never decides an
  answer, so the documented membership rule holds without it; a self-signed revocation is final
  whatever happens later; a member's newest revocation removes its target and nobody else; a
  member's newest admission of an unknown identity adds it and changes nobody else.
\<close>

section \<open>Record times and visited questions\<close>

definition record_times :: "trust_set \<Rightarrow> int64 set" where
  "record_times s = {adm_IssuedAt a |k a. map_of (set_admissions s) k = Some a} \<union>
     {rev_IssuedAt r |k r. map_of (set_revocations s) k = Some r}"

lemma leads_to_time: "leads_to s x tm y u \<Longrightarrow> u \<in> record_times s"
  by (erule leads_toE) (auto simp: record_times_def)

lemma leads_to_irrefl: "\<not> leads_to s x tm x u"
  by (auto elim: leads_toE)

lemma sint_MaxInt64: "sint (u :: int64) \<le> sint MaxInt64"
proof -
  have "sint u < 2 ^ 63" using sint_lt [of u] by simp
  moreover have "sint MaxInt64 = 2 ^ 63 - 1" by (simp add: MaxInt64_def)
  ultimately show ?thesis by simp
qed

text \<open>Visited questions at times no record has are never met again.\<close>

lemma validAt_visited_irrelevant:
  assumes "tm \<in> record_times s" and "\<And>y u. u \<in> record_times s \<Longrightarrow> (y, u) \<in> V \<longleftrightarrow> (y, u) \<in> V'"
  shows "validAt s x tm V = validAt s x tm V'"
  by (rule validAt_transfer [where P = "\<lambda>y u. u \<in> record_times s"])
    (use assms leads_to_time in auto)

section \<open>Members have a chain of admissions\<close>

fun admission_chain :: "ed25519 \<Rightarrow> trust_set \<Rightarrow> public_key list \<Rightarrow> bool" where
  "admission_chain C s [] = False"
| "admission_chain C s [k] = (k = set_root s)"
| "admission_chain C s (x # y # ks) =
     ((case Lookup s x of
         None \<Rightarrow> False
       | Some a \<Rightarrow> adm_Identity a = x \<and> adm_Admitter a = y \<and>
           Verify C y (admission_signedBytes a) (adm_Signature a)) \<and>
      admission_chain C s (y # ks))"

lemma wf_set_admission:
  assumes "wf_set C s" and "map_of (set_admissions s) x = Some a"
  shows "adm_Identity a = x" and "admission_Validate C a = None" and "adm_Admitter a = x \<Longrightarrow> x = set_root s"
  using assms map_of_SomeD [OF assms(2)] by (auto simp: wf_set_def wf_admissions_def)

lemma wf_set_revocation:
  assumes "wf_set C s" and "map_of (set_revocations s) x = Some r"
  shows "rev_Identity r = x" and "revocation_Validate C r = None"
  using assms map_of_SomeD [OF assms(2)] by (auto simp: wf_set_def wf_revocations_def)

lemma validAt_chain:
  "wf_set C s \<Longrightarrow> validAt s x tm V \<Longrightarrow> \<exists>ks. admission_chain C s (x # ks)"
proof (induction x tm V rule: validAt_induct [where s = s])
  case (root tm V)
  have "admission_chain C s [set_root s]" by simp
  then show ?case by blast
next
  case (other x tm V)
  then obtain a where a: "map_of (set_admissions s) x = Some a" "adm_Admitter a \<noteq> x"
    and v: "validAt s (adm_Admitter a) (adm_IssuedAt a) (insert (x, tm) V)" and "(x, tm) \<notin> V"
    by (auto simp: validAt_other admitted_def)
  then obtain ks where ks: "admission_chain C s (adm_Admitter a # ks)"
    using other leads_to.admitter [OF a(1) other(1) a(2)] by blast
  have "Verify C (adm_Admitter a) (admission_signedBytes a) (adm_Signature a)"
    using wf_set_admission(2) [OF other(3) a(1)] by (auto simp: admission_Validate_def split: if_splits)
  then have "admission_chain C s (x # adm_Admitter a # ks)"
    using ks a(1) wf_set_admission(1) [OF other(3) a(1)] by (simp add: Lookup_def)
  then show ?case by blast
qed

section \<open>The membership rule\<close>

text \<open>
  Time stamps are causal when every identity that signed a record about another was admitted
  before (the root needs no admission) and was not revoked in the very second it signed.
\<close>

definition causal_signer :: "trust_set \<Rightarrow> public_key \<Rightarrow> int64 \<Rightarrow> bool" where
  "causal_signer s y u \<longleftrightarrow>
     (y = set_root s \<or> (\<forall>b. map_of (set_admissions s) y = Some b \<longrightarrow> sint (adm_IssuedAt b) < sint u)) \<and>
     (\<forall>r. map_of (set_revocations s) y = Some r \<longrightarrow> rev_IssuedAt r \<noteq> u)"

definition causal :: "trust_set \<Rightarrow> bool" where
  "causal s \<longleftrightarrow>
     (\<forall>(x, a) \<in> set (set_admissions s). x \<noteq> set_root s \<and> adm_Admitter a \<noteq> x \<longrightarrow> causal_signer s (adm_Admitter a) (adm_IssuedAt a)) \<and>
     (\<forall>(x, r) \<in> set (set_revocations s). rev_Revoker r \<noteq> x \<longrightarrow> causal_signer s (rev_Revoker r) (rev_IssuedAt r))"

lemma causal_leads_to: "causal s \<Longrightarrow> leads_to s x tm y u \<Longrightarrow> causal_signer s y u"
  by (erule leads_toE) (auto simp: causal_def dest!: map_of_SomeD)

lemma causal_signer_decreases: "causal_signer s y u \<Longrightarrow> leads_to s y u z v \<Longrightarrow> sint v < sint u"
proof (erule leads_toE)
  fix r
  assume "causal_signer s y u" and "map_of (set_revocations s) y = Some r" and "sint (rev_IssuedAt r) \<le> sint u"
    and "v = rev_IssuedAt r"
  then show ?thesis by (metis causal_signer_def order_le_less signed_word_eqI)
qed (auto simp: causal_signer_def)

lemma validAt_unguarded:
  assumes "causal s" and "causal_signer s x tm" and "(x, tm) \<notin> V" and "\<And>y u. (y, u) \<in> V \<Longrightarrow> sint tm \<le> sint u"
  shows "validAt s x tm V = validAt s x tm {}"
proof (rule validAt_transfer [where P = "\<lambda>y u. causal_signer s y u \<and> ((y, u) = (x, tm) \<or> sint u < sint tm)"])
  fix y u z v
  assume "causal_signer s y u \<and> ((y, u) = (x, tm) \<or> sint u < sint tm)" and l: "leads_to s y u z v"
  then show "causal_signer s z v \<and> ((z, v) = (x, tm) \<or> sint v < sint tm)"
    using causal_signer_decreases [OF _ l] causal_leads_to [OF assms(1) l] by auto
qed (use assms in fastforce)+

lemma validAt_rule:
  assumes "causal s" and "tm = MaxInt64 \<or> causal_signer s x tm"
  shows "validAt s x tm {} \<longleftrightarrow>
    \<not> withdrawn (\<lambda>y u. validAt s y u {}) s x tm \<and> (x = set_root s \<or> admitted (\<lambda>y u. validAt s y u {}) s x)"
proof (cases "x = set_root s")
  case True
  then show ?thesis using validAt_root by simp
next
  case False
  have eq: "validAt s y u {(x, tm)} = validAt s y u {}" if l: "leads_to s x tm y u" for y u
  proof (rule validAt_unguarded [OF assms(1) causal_leads_to [OF assms(1) l]])
    show "(y, u) \<notin> {(x, tm)}" using l leads_to_irrefl by auto
    have "sint u \<le> sint tm"
      using assms(2) causal_signer_decreases [OF _ l] sint_MaxInt64 by fastforce
    then show "\<And>z v. (z, v) \<in> {(x, tm)} \<Longrightarrow> sint u \<le> sint v" by simp
  qed
  have "withdrawn (\<lambda>y u. validAt s y u {(x, tm)}) s x tm = withdrawn (\<lambda>y u. validAt s y u {}) s x tm"
    by (rule withdrawn_cong) (rule eq)
  moreover have "admitted (\<lambda>y u. validAt s y u {(x, tm)}) s x = admitted (\<lambda>y u. validAt s y u {}) s x"
    by (rule admitted_cong [OF False]) (rule eq)
  ultimately show ?thesis
    using False validAt_other [OF False, of tm "{}"] by simp
qed

section \<open>Revocations\<close>

lemma self_revoked_not_valid:
  assumes "map_of (set_revocations s) x = Some r" and "rev_Revoker r = x"
  shows "\<not> valid s x"
proof -
  have w: "withdrawn f s x MaxInt64" for f
    using assms sint_MaxInt64 unfolding withdrawn_def by blast
  show ?thesis
    unfolding valid_def by (cases "x = set_root s") (use w in \<open>simp_all add: validAt_root validAt_other\<close>)
qed

lemma revocation_kept:
  assumes "set_run C s s'" and "map_of (set_revocations s) x = Some r"
  shows "map_of (set_revocations s') x = Some r"
proof (rule set_run_inv [where P = "\<lambda>s. map_of (set_revocations s) x = Some r", OF assms])
  fix s :: trust_set and q
  assume "map_of (set_revocations s) x = Some r"
  then show "map_of (set_revocations (fst (AddRevocation C s q))) x = Some r"
    by (cases rule: AddRevocation_cases [of C q s]) auto
qed (simp_all add: frame_simps)

text \<open>Adding a record at a time later than every other leaves the answers at earlier times alone.\<close>

lemma validAt_newer_revocation:
  assumes "map_of (set_revocations s) x = None" and "\<forall>u \<in> record_times s. sint u < sint (rev_IssuedAt r)"
    and s': "set_root s' = set_root s" "map_of (set_admissions s') = map_of (set_admissions s)"
      "map_of (set_revocations s') = (map_of (set_revocations s))(x \<mapsto> r)"
    and "y \<noteq> x \<or> sint tm < sint (rev_IssuedAt r)"
  shows "validAt s y tm V = validAt s' y tm V"
  using assms(6)
  by (intro validAt_transfer [where P = "\<lambda>y u. y \<noteq> x \<or> sint u < sint (rev_IssuedAt r)"])
    (use assms(1,2) s' leads_to_time in \<open>auto simp: withdrawn_def admitted_def\<close>)

text \<open>At a time after every record, a question has the same answer as at the end of time.\<close>

lemma withdrawn_late:
  assumes "\<forall>v \<in> record_times s. sint v \<le> sint u"
  shows "withdrawn f s y u = withdrawn f s y MaxInt64"
proof -
  have "sint (rev_IssuedAt r) \<le> sint u" if "map_of (set_revocations s) y = Some r" for r
    using assms that by (auto simp: record_times_def)
  then show ?thesis using sint_MaxInt64 unfolding withdrawn_def by blast
qed

lemma validAt_end:
  assumes late: "\<forall>v \<in> record_times s. sint v < sint u" and "x \<noteq> y" and "V \<subseteq> {(x, MaxInt64)}"
  shows "validAt s y u V = valid s y"
proof -
  have "u \<notin> record_times s" and "MaxInt64 \<notin> record_times s"
    using late sint_MaxInt64 [of u] by fastforce+
  then have eq: "validAt s z v W = validAt s z v W'"
    if "leads_to s y MaxInt64 z v" "W \<subseteq> insert (y, u) V" "W' \<subseteq> {(y, MaxInt64)}" for z v W W'
    using that assms(3) leads_to_time by (intro validAt_visited_irrelevant) blast+
  have w: "withdrawn f s y u = withdrawn f s y MaxInt64" for f
    using late by (intro withdrawn_late) (auto intro: less_imp_le)
  show ?thesis
  proof (cases "y = set_root s")
    case True
    have "withdrawn (\<lambda>z v. validAt s z v V) s y MaxInt64 = withdrawn (\<lambda>z v. validAt s z v {}) s y MaxInt64"
      by (rule withdrawn_cong) (rule eq; blast)
    then show ?thesis using True w by (simp add: valid_def validAt_root)
  next
    case False
    let ?f = "\<lambda>z v. validAt s z v (insert (y, u) V)" and ?g = "\<lambda>z v. validAt s z v {(y, MaxInt64)}"
    have "withdrawn ?f s y MaxInt64 = withdrawn ?g s y MaxInt64"
      by (rule withdrawn_cong) (rule eq; blast)
    moreover have "admitted ?f s y = admitted ?g s y"
      by (rule admitted_cong [OF False, where tm = MaxInt64]) (rule eq; blast)
    moreover have "(y, u) \<notin> V" using assms(2,3) by blast
    ultimately show ?thesis using w by (simp add: valid_def validAt_other [OF False])
  qed
qed

lemma valid_by:
  assumes "wf_set C s"
  shows "snd (Valid s x) \<longleftrightarrow> valid s x"
  using Valid_answer [OF assms] by simp

lemma AddRevocation_fresh:
  assumes "revocation_Validate C r = None" and "map_of (set_revocations s) (rev_Identity r) = None"
  shows "AddRevocation C s r =
    (s\<lparr>set_revocations := AList.update (rev_Identity r) r (set_revocations s), set_members := []\<rparr>, Inr True)"
  using assms by (cases rule: AddRevocation_cases [of C r s]) auto

lemma AddAdmission_newer:
  assumes "accepts_admission C (set_root s) a" and "newer_admission s a"
  shows "AddAdmission C s a =
    (s\<lparr>set_admissions := AList.update (adm_Identity a) a (set_admissions s), set_members := []\<rparr>, Inr True)"
  using assms by (cases rule: AddAdmission_cases [of C s a]) auto

lemma revocation_exact:
  assumes "map_of (set_revocations s) x = None" and "\<forall>u \<in> record_times s. sint u < sint (rev_IssuedAt r)"
    and s': "set_root s' = set_root s" "map_of (set_admissions s') = map_of (set_admissions s)"
      "map_of (set_revocations s') = (map_of (set_revocations s))(x \<mapsto> r)"
    and y: "rev_Revoker r \<noteq> x" "valid s (rev_Revoker r)"
  shows "\<not> valid s' x" and "z \<noteq> x \<Longrightarrow> valid s' z = valid s z"
proof -
  note same = validAt_newer_revocation [OF assms(1-5)]
  show "z \<noteq> x \<Longrightarrow> valid s' z = valid s z"
    using same by (simp add: valid_def)
  have "validAt s' (rev_Revoker r) (rev_IssuedAt r) V" if "V \<subseteq> {(x, MaxInt64)}" for V
    using same y validAt_end [OF assms(2) y(1) [symmetric] that] by metis
  then have "withdrawn (\<lambda>y u. validAt s' y u V) s' x MaxInt64" if "V \<subseteq> {(x, MaxInt64)}" for V
    using s' sint_MaxInt64 that by (auto simp: withdrawn_def)
  then show "\<not> valid s' x"
    unfolding valid_def by (cases "x = set_root s'") (auto simp: validAt_root validAt_other)
qed

text \<open>An identity nothing is known of: it has no record and signed none.\<close>

definition unknown :: "trust_set \<Rightarrow> public_key \<Rightarrow> bool" where
  "unknown s x \<longleftrightarrow> x \<noteq> set_root s \<and> map_of (set_admissions s) x = None \<and> map_of (set_revocations s) x = None \<and>
     (\<forall>(k, a) \<in> set (set_admissions s). adm_Admitter a \<noteq> x) \<and> (\<forall>(k, r) \<in> set (set_revocations s). rev_Revoker r \<noteq> x)"

lemma unknown_not_asked: "unknown s x \<Longrightarrow> leads_to s y tm z u \<Longrightarrow> z \<noteq> x"
  by (erule leads_toE) (auto simp: unknown_def dest!: map_of_SomeD)

lemma admission_exact:
  assumes "unknown s x" and late: "\<forall>u \<in> record_times s. sint u < sint (adm_IssuedAt a)"
    and s': "set_root s' = set_root s" "map_of (set_admissions s') = (map_of (set_admissions s))(x \<mapsto> a)"
      "map_of (set_revocations s') = map_of (set_revocations s)"
    and y: "adm_Admitter a \<noteq> x" "valid s (adm_Admitter a)"
  shows "valid s' x" and "z \<noteq> x \<Longrightarrow> valid s' z = valid s z"
proof -
  have same: "validAt s z tm V = validAt s' z tm V" if "z \<noteq> x" for z tm V
    by (rule validAt_transfer [where P = "\<lambda>z u. z \<noteq> x"])
      (use that s' unknown_not_asked [OF assms(1)] in \<open>auto simp: withdrawn_def admitted_def\<close>)
  then show "z \<noteq> x \<Longrightarrow> valid s' z = valid s z" by (simp add: valid_def)
  have "validAt s' (adm_Admitter a) (adm_IssuedAt a) {(x, MaxInt64)}"
    using same y validAt_end [OF late y(1) [symmetric], of "{(x, MaxInt64)}"] by simp
  then have "admitted (\<lambda>y u. validAt s' y u {(x, MaxInt64)}) s' x"
    using s' y(1) by (auto simp: admitted_def)
  moreover have "\<not> withdrawn f s' x MaxInt64" for f
    using assms(1) s' by (auto simp: withdrawn_def unknown_def)
  ultimately show "valid s' x"
    using assms(1) s' by (simp add: valid_def validAt_other unknown_def)
qed

section \<open>A concrete membership\<close>

text \<open>Root 1 admits 2 at time 100, which admits 3 at time 200.\<close>

definition demo_admission :: "nat \<Rightarrow> public_key \<Rightarrow> string \<Rightarrow> uint64 \<Rightarrow> int64 \<Rightarrow> admission" where
  "demo_admission n who name host now = Admit demo_ed25519 (demo_identity n) who name host now"

definition demo_set :: trust_set where
  "demo_set = fst (AddAdmission demo_ed25519
     (fst (AddAdmission demo_ed25519 (NewSet 1) (demo_admission 1 2 ''b'' 2 100)))
     (demo_admission 2 3 ''c'' 3 200))"

lemma demo_admission_simps [simp]:
  "adm_Identity (demo_admission n i nm h t) = i" "adm_Name (demo_admission n i nm h t) = nm"
  "adm_Host (demo_admission n i nm h t) = h" "adm_IssuedAt (demo_admission n i nm h t) = t"
  "n < 256 ^ 32 \<Longrightarrow> adm_Admitter (demo_admission n i nm h t) = of_nat n"
  "admission_Validate demo_ed25519 (demo_admission n i nm h t) =
    (if nm = '''' then Some AdmissionWithoutName else if h = 0 then Some AdmissionWithoutSlot else None)"
  by (simp_all add: demo_admission_def Admit_Validate)

lemma demo_set_eq:
  "demo_set = \<lparr>set_root = 1, set_admissions = [(2, demo_admission 1 2 ''b'' 2 100), (3, demo_admission 2 3 ''c'' 3 200)],
     set_revocations = [], set_members = []\<rparr>"
  by (simp add: demo_set_def AddAdmission_def NewSet_def set_forget_def)

lemma demo_set_run: "set_run demo_ed25519 (NewSet 1) demo_set"
  unfolding demo_set_def
  by (rule set_run.more [OF set_run.more [OF set_run.stay set_step.admission] set_step.admission])

lemma demo_set_wf: "wf_set demo_ed25519 demo_set"
  using demo_set_run wf_NewSet by (rule set_run_wf)

lemma demo_set_valid [simp]: "valid demo_set 1" "valid demo_set 2" "valid demo_set 3" "\<not> valid demo_set 4"
  by (simp_all add: demo_set_eq valid_def validAt.simps MaxInt64_def)

lemma demo_set_times: "u \<in> record_times demo_set \<Longrightarrow> u = 100 \<or> u = 200"
  by (auto simp: record_times_def demo_set_eq split: if_splits)

lemma demo_set_late: "\<forall>u \<in> record_times demo_set. sint u < sint (300 :: int64)"
  by (auto dest: demo_set_times)

section \<open>Properties\<close>

text \<open>
  C2. Whoever \<^verbatim>\<open>Valid\<close> calls a member, in any set reached from a new one by any sequence of
  operations and whatever its cache holds, has a chain of stored admissions up to the pinned
  root, every link signed by the identity above it.
\<close>

theorem member_has_chain:
  assumes "set_run C (NewSet root) s" and "snd (Valid s x)"
  shows "\<exists>ks. admission_chain C s (x # ks)"
  using assms validAt_chain valid_by set_run_wf [OF assms(1) wf_NewSet] unfolding valid_def by metis

theorem member_has_chain_witness: "\<exists>ks. admission_chain demo_ed25519 demo_set (3 # ks)"
  using member_has_chain [OF demo_set_run, of 3] Valid_answer [OF demo_set_wf] by simp

text \<open>
  C1. The documented membership rule, with no cycle guard in it: under causal time stamps an
  identity is a member at a time exactly if it was not withdrawn by then (by itself, or by an
  identity that was a member when it signed the revocation) and is the root or was admitted by
  an identity that was a member when it signed the admission. It holds of the present and of
  every moment a record was signed, so it determines every answer by itself.
\<close>

theorem membership_rule:
  assumes "causal s" and "tm = MaxInt64 \<or> causal_signer s x tm"
  shows "validAt s x tm {} \<longleftrightarrow>
    \<not> withdrawn (\<lambda>y u. validAt s y u {}) s x tm \<and> (x = set_root s \<or> admitted (\<lambda>y u. validAt s y u {}) s x)"
  using assms by (rule validAt_rule)

theorem membership_rule_witness:
  "causal demo_set \<and> (validAt demo_set 3 MaxInt64 {} \<longleftrightarrow>
    \<not> withdrawn (\<lambda>y u. validAt demo_set y u {}) demo_set 3 MaxInt64 \<and>
    (3 = set_root demo_set \<or> admitted (\<lambda>y u. validAt demo_set y u {}) demo_set 3))"
proof -
  have "causal demo_set"
    by (simp add: causal_def causal_signer_def demo_set_eq)
  then show ?thesis using membership_rule [of demo_set MaxInt64 3] by blast
qed

text \<open>
  C4. A self-signed revocation is final: once a set has stored it, no sequence of admissions,
  revocations, merges and queries makes that identity a member again.
\<close>

theorem self_revocation_final:
  assumes "set_run C (NewSet root) s" and "AddRevocation C s r = (s', Inr True)"
    and "rev_Revoker r = rev_Identity r" and "set_run C s' s''"
  shows "\<not> snd (Valid s'' (rev_Identity r))"
proof -
  have "map_of (set_revocations s') (rev_Identity r) = Some r"
    using assms(2) by (cases rule: AddRevocation_cases [of C r s]) auto
  then have "\<not> valid s'' (rev_Identity r)"
    using revocation_kept [OF assms(4)] self_revoked_not_valid assms(3) by blast
  moreover have "wf_set C s''"
    using set_run_wf wf_NewSet AddRevocation_wf assms(1,2,4) by (metis fst_conv)
  ultimately show ?thesis using valid_by by blast
qed

theorem self_revocation_final_witness:
  "let s' = fst (AddRevocation demo_ed25519 demo_set (Revoke demo_ed25519 (demo_identity 3) 3 300)) in
   \<not> snd (Valid (fst (AddAdmission demo_ed25519 s' (demo_admission 1 3 ''c'' 3 900))) 3)"
proof -
  let ?r = "Revoke demo_ed25519 (demo_identity 3) 3 300" and ?C = demo_ed25519
  let ?s = "fst (AddRevocation ?C demo_set ?r)"
  have "AddRevocation ?C demo_set ?r = (?s, Inr True)"
    using AddRevocation_fresh [of ?C ?r demo_set] Revoke_Validate [of ?C "demo_identity 3" 3 300]
    by (simp add: demo_set_eq)
  from self_revocation_final [OF demo_set_run this _ set_run.more [OF set_run.stay set_step.admission]]
  show ?thesis by (simp add: Let_def)
qed

text \<open>
  Revoking removes the target and nobody else: a member's revocation of an identity that has
  none yet, newer than every record of the set, is stored, ends the target's membership, the
  root's included, and leaves the membership of every other identity as it was, those admitted by
  the target included.
\<close>

theorem revoke_removes_exactly:
  assumes "ed25519_correct C" and "wf_identity C i" and "set_run C (NewSet root) s"
    and "snd (Valid s (id_Public C i))" and "x \<noteq> id_Public C i"
    and "map_of (set_revocations s) x = None" and "\<forall>u \<in> record_times s. sint u < sint now"
    and "s' = fst (AddRevocation C s (Revoke C i x now))"
  shows "\<not> snd (Valid s' x) \<and> (z \<noteq> x \<longrightarrow> snd (Valid s' z) = snd (Valid s z))"
proof -
  have wf: "wf_set C s" using assms(3) wf_NewSet by (rule set_run_wf)
  then have wf': "wf_set C s'" using AddRevocation_wf assms(8) by blast
  have s': "s' = s\<lparr>set_revocations := AList.update x (Revoke C i x now) (set_revocations s), set_members := []\<rparr>"
    using AddRevocation_fresh [OF Revoke_Validate [OF assms(1,2)]] assms(6,8) by simp
  have "\<not> valid s' x" and "z \<noteq> x \<Longrightarrow> valid s' z = valid s z"
    using revocation_exact [of s x "Revoke C i x now" s'] assms(4-7) s' valid_by [OF wf] by auto
  then show ?thesis using valid_by [OF wf] valid_by [OF wf'] by blast
qed

theorem revoke_removes_exactly_witness:
  "let s' = fst (AddRevocation demo_ed25519 demo_set (Revoke demo_ed25519 (demo_identity 1) 2 300)) in
   \<not> snd (Valid s' 2) \<and> snd (Valid s' 3)"
  using revoke_removes_exactly [of demo_ed25519 "demo_identity 1" 1 demo_set 2 300 _ 3, OF demo_ed25519_correct
      wf_demo_identity demo_set_run _ _ _ demo_set_late refl]
  by (simp add: valid_by [OF demo_set_wf] demo_set_eq [THEN arg_cong, of set_revocations] Let_def)

text \<open>
  Admitting adds the newcomer and changes nobody else: a member's admission of an unknown
  identity under a name and a slot, newer than every record of the set, is stored, makes that
  identity a member and leaves the membership of every other identity as it was.
\<close>

theorem admit_adds_exactly:
  assumes "ed25519_correct C" and "wf_identity C i" and "set_run C (NewSet root) s"
    and "snd (Valid s (id_Public C i))" and "unknown s x" and "x \<noteq> id_Public C i"
    and "name \<noteq> ''''" and "host \<noteq> 0" and "\<forall>u \<in> record_times s. sint u < sint now"
    and "s' = fst (AddAdmission C s (Admit C i x name host now))"
  shows "snd (Valid s' x) \<and> Lookup s' x = Some (Admit C i x name host now) \<and>
    (z \<noteq> x \<longrightarrow> snd (Valid s' z) = snd (Valid s z))"
proof -
  have wf: "wf_set C s" using assms(3) wf_NewSet by (rule set_run_wf)
  then have wf': "wf_set C s'" using AddAdmission_wf assms(10) by blast
  have "accepts_admission C (set_root s) (Admit C i x name host now)" and "newer_admission s (Admit C i x name host now)"
    using Admit_Validate [OF assms(1,2)] assms(5-8) by (auto simp: accepts_admission_def newer_admission_def unknown_def)
  then have s': "s' = s\<lparr>set_admissions := AList.update x (Admit C i x name host now) (set_admissions s), set_members := []\<rparr>"
    using AddAdmission_newer assms(10) by simp
  have "valid s' x" and "z \<noteq> x \<Longrightarrow> valid s' z = valid s z"
    using admission_exact [of s x "Admit C i x name host now" s'] assms(4-6,9) s' valid_by [OF wf] by auto
  then show ?thesis using valid_by [OF wf] valid_by [OF wf'] s' by (auto simp: Lookup_def)
qed

theorem admit_adds_exactly_witness:
  "let s' = fst (AddAdmission demo_ed25519 demo_set (Admit demo_ed25519 (demo_identity 3) 4 ''d'' 4 300)) in
   snd (Valid s' 4) \<and> snd (Valid s' 2)"
proof -
  have "unknown demo_set 4" by (simp add: unknown_def demo_set_eq)
  then show ?thesis
    using admit_adds_exactly [of demo_ed25519 "demo_identity 3" 1 demo_set 4 "''d''" 4 300 _ 2, OF demo_ed25519_correct
        wf_demo_identity demo_set_run _ _ _ _ _ demo_set_late refl]
    by (simp add: valid_by [OF demo_set_wf] Let_def)
qed

section \<open>Records of outsiders\<close>

text \<open>An identity with no admission that is not the root is never a member.\<close>

definition outsider :: "trust_set \<Rightarrow> public_key \<Rightarrow> bool" where
  "outsider s k \<longleftrightarrow> k \<noteq> set_root s \<and> map_of (set_admissions s) k = None"

lemma outsider_not_valid: "outsider s k \<Longrightarrow> \<not> validAt s k tm V"
  by (simp add: outsider_def validAt_other admitted_def)

text \<open>
  The first stored revocation of an identity keeps its place whoever signed it: a revocation
  signed by a key that is no member changes nobody's membership, and from then on every other
  revocation of that identity, a member's included, is ignored.
\<close>

theorem outsider_revocation_shields:
  assumes "outsider s (rev_Revoker r)" and "rev_Revoker r \<noteq> rev_Identity r"
    and "revocation_Validate C r = None" and "map_of (set_revocations s) (rev_Identity r) = None"
    and "s' = fst (AddRevocation C s r)"
  shows "valid s' z = valid s z \<and> (rev_Identity q = rev_Identity r \<longrightarrow> fst (AddRevocation C s' q) = s')"
proof -
  have s': "s' = s\<lparr>set_revocations := AList.update (rev_Identity r) r (set_revocations s), set_members := []\<rparr>"
    using AddRevocation_fresh assms(3-5) by simp
  then have "outsider s' (rev_Revoker r)" using assms(1) by (simp add: outsider_def)
  note never = outsider_not_valid [OF this]
  have "validAt s z MaxInt64 {} = validAt s' z MaxInt64 {}"
    by (rule validAt_transfer [where P = "\<lambda>_ _. True"])
      (use assms(2,4) s' never in \<open>auto simp: withdrawn_def admitted_def\<close>)
  moreover have "fst (AddRevocation C s' q) = s'" if "rev_Identity q = rev_Identity r"
    using that s' by (cases rule: AddRevocation_cases [of C q s']) auto
  ultimately show ?thesis by (auto simp: valid_def)
qed

theorem outsider_revocation_shields_witness:
  "let s' = fst (AddRevocation demo_ed25519 demo_set (Revoke demo_ed25519 (demo_identity 9) 3 0)) in
   valid s' 3 \<and> fst (AddRevocation demo_ed25519 s' (Revoke demo_ed25519 (demo_identity 1) 3 300)) = s'"
proof -
  have "outsider demo_set 9" by (simp add: outsider_def demo_set_eq)
  then show ?thesis
    using outsider_revocation_shields [of demo_set "Revoke demo_ed25519 (demo_identity 9) 3 0" demo_ed25519 _ 3
        "Revoke demo_ed25519 (demo_identity 1) 3 300", OF _ _ _ _ refl]
    by (simp add: Revoke_Validate demo_set_eq [THEN arg_cong, of set_revocations] Let_def)
qed

text \<open>
  The newest admission of an identity keeps its place whoever signed it: an admission signed
  by a key that is no member, if newer than the stored one, replaces it and ends the membership
  of an identity other than the root.
\<close>

theorem outsider_admission_evicts:
  assumes "outsider s (adm_Admitter a)" and "adm_Admitter a \<noteq> adm_Identity a" and "adm_Identity a \<noteq> set_root s"
    and "admission_Validate C a = None" and "newer_admission s a"
    and "s' = fst (AddAdmission C s a)"
  shows "\<not> valid s' (adm_Identity a)"
proof -
  have s': "s' = s\<lparr>set_admissions := AList.update (adm_Identity a) a (set_admissions s), set_members := []\<rparr>"
    using AddAdmission_newer assms(2,4-6) by (simp add: accepts_admission_def)
  then have "outsider s' (adm_Admitter a)" using assms(1,2) by (simp add: outsider_def)
  then have "\<not> admitted (\<lambda>y u. validAt s' y u V) s' (adm_Identity a)" for V
    using s' outsider_not_valid by (auto simp: admitted_def)
  then show ?thesis
    using assms(3) s' by (simp add: valid_def validAt_other)
qed

theorem outsider_admission_evicts_witness:
  "valid demo_set 3 \<and> \<not> valid (fst (AddAdmission demo_ed25519 demo_set (demo_admission 9 3 ''c'' 3 300))) 3"
proof -
  have "outsider demo_set 9" and "set_root demo_set = 1" by (simp_all add: outsider_def demo_set_eq)
  then show ?thesis
    using outsider_admission_evicts [of demo_set "demo_admission 9 3 ''c'' 3 300" demo_ed25519, OF _ _ _ _ _ refl]
    by (simp add: newer_admission_def demo_set_eq [THEN arg_cong, of set_admissions])
qed

end
