(* ===== verification/Trust_Merge.thy ===== *)
theory Trust_Merge
  imports Trust_Validity
begin

text \<open>
  Exchange of records between nodes (\<^verbatim>\<open>Merge\<close> and \<^verbatim>\<open>Records\<close> of \<^verbatim>\<open>internal/trust/set.go\<close>). Each
  of the two maps of a set is a store with one record per key, in which a record replaces the
  stored one if it is newer; the locale \<open>keyed_store\<close> states what that needs, and the maps are its
  two interpretations (a newer time stamp for admissions, never for revocations). What follows is
  convergence: where no two records compete for a place without one being newer, the order and
  the batches in which records arrive do not matter.
\<close>

section \<open>Stores with one record per key\<close>

definition absorb :: "('r \<Rightarrow> 'k) \<Rightarrow> ('r \<Rightarrow> 'r \<Rightarrow> bool) \<Rightarrow> ('k \<rightharpoonup> 'r) \<Rightarrow> 'r \<Rightarrow> ('k \<rightharpoonup> 'r)" where
  "absorb key newer m r =
     (case m (key r) of
        None \<Rightarrow> m(key r \<mapsto> r)
      | Some cur \<Rightarrow> if newer r cur then m(key r \<mapsto> r) else m)"

definition absorb_all :: "('r \<Rightarrow> 'k) \<Rightarrow> ('r \<Rightarrow> 'r \<Rightarrow> bool) \<Rightarrow> ('k \<rightharpoonup> 'r) \<Rightarrow> 'r list \<Rightarrow> ('k \<rightharpoonup> 'r)" where
  "absorb_all key newer m rs = foldl (absorb key newer) m rs"

text \<open>Of two different records for one key, one is newer.\<close>

definition unambiguous :: "('r \<Rightarrow> 'k) \<Rightarrow> ('r \<Rightarrow> 'r \<Rightarrow> bool) \<Rightarrow> 'r set \<Rightarrow> bool" where
  "unambiguous key newer R \<longleftrightarrow> (\<forall>r \<in> R. \<forall>q \<in> R. key r = key q \<and> r \<noteq> q \<longrightarrow> newer r q \<or> newer q r)"

locale keyed_store =
  fixes key :: "'r \<Rightarrow> 'k" and newer :: "'r \<Rightarrow> 'r \<Rightarrow> bool"
  assumes newer_irrefl: "\<not> newer r r"
    and newer_trans: "newer r q \<Longrightarrow> newer q p \<Longrightarrow> newer r p"
begin

lemma absorb_all_snoc: "absorb_all key newer m (rs @ [r]) = absorb key newer (absorb_all key newer m rs) r"
  by (simp add: absorb_all_def)

lemma stored_if_seen:
  "q \<in> set rs \<Longrightarrow> \<exists>r. absorb_all key newer Map.empty rs (key q) = Some r"
proof (induction rs rule: rev_induct)
  case Nil
  then show ?case by simp
next
  case (snoc p rs)
  then show ?case
    unfolding absorb_all_snoc absorb_def by (auto split: option.splits if_splits)
qed

lemma stored_is_newest:
  "absorb_all key newer Map.empty rs k = Some r \<Longrightarrow>
   r \<in> set rs \<and> key r = k \<and> (\<forall>q \<in> set rs. key q = k \<longrightarrow> \<not> newer q r)"
proof (induction rs arbitrary: r rule: rev_induct)
  case Nil
  then show ?case by (simp add: absorb_all_def)
next
  case (snoc p rs)
  let ?m = "absorb_all key newer Map.empty rs"
  from snoc.prems have new: "absorb key newer ?m p k = Some r"
    unfolding absorb_all_snoc .
  consider (old) "?m k = Some r" "key p = k \<longrightarrow> \<not> newer p r"
    | (first) "r = p" "key p = k" "?m k = None"
    | (replaced) cur where "r = p" "key p = k" "?m k = Some cur" "newer p cur"
    using new unfolding absorb_def by (cases "key p = k"; cases "?m (key p)") (auto split: if_splits)
  then show ?case
  proof cases
    case old
    then show ?thesis using snoc.IH [of r] by auto
  next
    case first
    then have "\<forall>q \<in> set rs. key q \<noteq> k" using stored_if_seen by fastforce
    then show ?thesis using first newer_irrefl by auto
  next
    case replaced
    then show ?thesis using snoc.IH [of cur] newer_irrefl newer_trans by auto
  qed
qed

lemma order_irrelevant:
  assumes "set rs = set rs'" and "unambiguous key newer (set rs)"
  shows "absorb_all key newer Map.empty rs = absorb_all key newer Map.empty rs'"
proof
  fix k
  show "absorb_all key newer Map.empty rs k = absorb_all key newer Map.empty rs' k"
  proof (cases "\<exists>q \<in> set rs. key q = k")
    case True
    then obtain r r' where "absorb_all key newer Map.empty rs k = Some r" "absorb_all key newer Map.empty rs' k = Some r'"
      using stored_if_seen assms(1) by metis
    moreover from this have "r = r'"
      using stored_is_newest assms unfolding unambiguous_def by metis
    ultimately show ?thesis by simp
  next
    case False
    then have "absorb_all key newer Map.empty rs k = None" and "absorb_all key newer Map.empty rs' k = None"
      using stored_is_newest assms(1) by (metis not_None_eq)+
    then show ?thesis by simp
  qed
qed

lemma distinct_keys_all_stored:
  assumes "distinct (map key rs)"
  shows "absorb_all key newer Map.empty rs = map_of (map (\<lambda>r. (key r, r)) rs)"
proof
  fix k
  have inj: "r = q" if "r \<in> set rs" "q \<in> set rs" "key r = key q" for r q
    using assms that by (metis distinct_map inj_onD)
  show "absorb_all key newer Map.empty rs k = map_of (map (\<lambda>r. (key r, r)) rs) k"
  proof (cases "\<exists>q \<in> set rs. key q = k")
    case True
    then obtain q where q: "q \<in> set rs" "key q = k" by blast
    then obtain r where "absorb_all key newer Map.empty rs k = Some r"
      using stored_if_seen by blast
    moreover from this have "r = q" using stored_is_newest inj q by metis
    moreover have "map_of (map (\<lambda>r. (key r, r)) rs) k = Some q"
      using assms q by (intro map_of_is_SomeI) (auto simp: comp_def)
    ultimately show ?thesis by simp
  next
    case False
    then have "absorb_all key newer Map.empty rs k = None"
      using stored_is_newest by (metis not_None_eq)
    moreover have "map_of (map (\<lambda>r. (key r, r)) rs) k = None"
      using False by (auto simp: map_of_eq_None_iff)
    ultimately show ?thesis by simp
  qed
qed

end

definition newer_time :: "admission \<Rightarrow> admission \<Rightarrow> bool" where
  "newer_time a cur \<longleftrightarrow> sint (adm_IssuedAt cur) < sint (adm_IssuedAt a)"

definition never_newer :: "revocation \<Rightarrow> revocation \<Rightarrow> bool" where
  "never_newer r cur \<longleftrightarrow> False"

interpretation admissions_store: keyed_store adm_Identity newer_time
  by unfold_locales (auto simp: newer_time_def)

interpretation revocations_store: keyed_store rev_Identity never_newer
  by unfold_locales (auto simp: never_newer_def)

section \<open>The two maps as stores\<close>

abbreviation accepted_admissions :: "ed25519 \<Rightarrow> public_key \<Rightarrow> admission list \<Rightarrow> admission list" where
  "accepted_admissions C root \<equiv> filter (accepts_admission C root)"

abbreviation accepted_revocations :: "ed25519 \<Rightarrow> revocation list \<Rightarrow> revocation list" where
  "accepted_revocations C \<equiv> filter (\<lambda>r. revocation_Validate C r = None)"

lemma AddAdmission_absorb:
  "map_of (set_admissions (fst (AddAdmission C s a))) =
    (if accepts_admission C (set_root s) a then absorb adm_Identity newer_time (map_of (set_admissions s)) a
     else map_of (set_admissions s))"
  by (cases rule: AddAdmission_cases [of C s a])
    (auto simp: absorb_def newer_admission_def newer_time_def split: option.splits)

lemma AddRevocation_absorb:
  "map_of (set_revocations (fst (AddRevocation C s r))) =
    (if revocation_Validate C r = None then absorb rev_Identity never_newer (map_of (set_revocations s)) r
     else map_of (set_revocations s))"
  by (cases rule: AddRevocation_cases [of C r s]) (auto simp: absorb_def never_newer_def)

lemma merge_admissions_Cons:
  "fst (merge_admissions C s (a # as) n) =
    fst (merge_admissions C (fst (AddAdmission C s a)) as (if snd (AddAdmission C s a) = Inr True then n + 1 else n))"
  by (simp add: case_prod_beta)

lemma merge_revocations_Cons:
  "fst (merge_revocations C s (r # rs) n) =
    fst (merge_revocations C (fst (AddRevocation C s r)) rs (if snd (AddRevocation C s r) = Inr True then n + 1 else n))"
  by (simp add: case_prod_beta)

lemma merge_admissions_absorb:
  "set_root (fst (merge_admissions C s as n)) = set_root s"
  "set_revocations (fst (merge_admissions C s as n)) = set_revocations s"
  "map_of (set_admissions (fst (merge_admissions C s as n))) =
    absorb_all adm_Identity newer_time (map_of (set_admissions s)) (accepted_admissions C (set_root s) as)"
  by (induction as arbitrary: s n)
    (simp_all add: merge_admissions_Cons frame_simps AddAdmission_absorb absorb_all_def del: merge_admissions.simps(2))

lemma merge_revocations_absorb:
  "set_root (fst (merge_revocations C s rs n)) = set_root s"
  "set_admissions (fst (merge_revocations C s rs n)) = set_admissions s"
  "map_of (set_revocations (fst (merge_revocations C s rs n))) =
    absorb_all rev_Identity never_newer (map_of (set_revocations s)) (accepted_revocations C rs)"
  by (induction rs arbitrary: s n)
    (simp_all add: merge_revocations_Cons frame_simps AddRevocation_absorb absorb_all_def del: merge_revocations.simps(2))

lemma Merge_absorb:
  "set_root (fst (Merge C s rs)) = set_root s"
  "map_of (set_admissions (fst (Merge C s rs))) =
    absorb_all adm_Identity newer_time (map_of (set_admissions s)) (accepted_admissions C (set_root s) (rs_Admissions rs))"
  "map_of (set_revocations (fst (Merge C s rs))) =
    absorb_all rev_Identity never_newer (map_of (set_revocations s)) (accepted_revocations C (rs_Revocations rs))"
  by (simp_all add: Merge_def case_prod_beta merge_admissions_absorb merge_revocations_absorb)




section \<open>Deterministic contents\<close>

lemma sorted_values_unique:
  assumes "go_map m" and "go_map m'" and "map_of m = map_of m'" and "\<forall>(k, v) \<in> set m. f v = k"
  shows "sort_key f (map snd m) = sort_key (f :: 'v \<Rightarrow> 'k::linorder) (map snd m')"
proof (rule sort_key_inj_key_eq)
  have ms: "mset m = mset m'" using go_map_same_entries assms(1-3) by blast
  then show eq: "mset (map snd m) = mset (sort_key f (map snd m'))" by (simp only: mset_sort mset_map)
  have "map f (map snd m) = map fst m" using assms(4) by auto
  then have "distinct (map f (map snd m))" using assms(1) by (simp only: go_map_def)
  then show "inj_on f (set (map snd m))" by (rule distinct_map [THEN iffD1, THEN conjunct2])
qed simp

lemma Records_unique:
  assumes "wf_set C s" and "wf_set C s'" and "same_records s s'"
  shows "Records s = Records s'"
proof -
  have "sort_key adm_Identity (map snd (set_admissions s)) = sort_key adm_Identity (map snd (set_admissions s'))"
    using assms by (intro sorted_values_unique) (auto simp: wf_set_def wf_admissions_def same_records_def)
  moreover have "sort_key rev_Identity (map snd (set_revocations s)) = sort_key rev_Identity (map snd (set_revocations s'))"
    using assms by (intro sorted_values_unique) (auto simp: wf_set_def wf_revocations_def same_records_def)
  ultimately show ?thesis by (simp add: Records_def)
qed



section \<open>Round trip\<close>

text \<open>Records for pairwise different identities, all acceptable and none known: each one counts.\<close>

lemma merge_admissions_count:
  assumes "distinct (map adm_Identity as)" and "\<forall>a \<in> set as. accepts_admission C (set_root s) a"
    and "\<forall>a \<in> set as. map_of (set_admissions s) (adm_Identity a) = None"
  shows "snd (merge_admissions C s as n) = n + length as"
  using assms
proof (induction as arbitrary: s n)
  case (Cons a as)
  let ?s = "s\<lparr>set_admissions := AList.update (adm_Identity a) a (set_admissions s), set_members := []\<rparr>"
  have "AddAdmission C s a = (?s, Inr True)"
    using Cons.prems by (intro AddAdmission_newer) (auto simp: newer_admission_def)
  moreover have "snd (merge_admissions C ?s as (n + 1)) = n + 1 + length as"
    using Cons.prems by (intro Cons.IH) (auto, metis image_eqI)
  ultimately show ?case by simp
qed simp

lemma merge_revocations_count:
  assumes "distinct (map rev_Identity rs)" and "\<forall>r \<in> set rs. revocation_Validate C r = None"
    and "\<forall>r \<in> set rs. map_of (set_revocations s) (rev_Identity r) = None"
  shows "snd (merge_revocations C s rs n) = n + length rs"
  using assms
proof (induction rs arbitrary: s n)
  case (Cons r rs)
  let ?s = "s\<lparr>set_revocations := AList.update (rev_Identity r) r (set_revocations s), set_members := []\<rparr>"
  have "AddRevocation C s r = (?s, Inr True)"
    using Cons.prems by (intro AddRevocation_fresh) auto
  moreover have "snd (merge_revocations C ?s rs (n + 1)) = n + 1 + length rs"
    using Cons.prems by (intro Cons.IH) (auto, metis image_eqI)
  ultimately show ?case by simp
qed simp

lemma sorted_values_map:
  assumes "go_map m" and "\<forall>(k, v) \<in> set m. f v = k"
  shows "distinct (map f (sort_key (f :: 'v \<Rightarrow> 'k::linorder) (map snd m)))"
    and "map_of (map (\<lambda>v. (f v, v)) (sort_key f (map snd m))) = map_of m"
proof -
  have keys: "map f (map snd m) = map fst m" using assms(2) by auto
  have "mset (map f (sort_key f (map snd m))) = mset (map f (map snd m))"
    by (simp only: mset_map mset_sort)
  then show dist: "distinct (map f (sort_key f (map snd m)))"
    using assms(1) keys by (metis go_map_def mset_eq_imp_distinct_iff)
  have "set (map (\<lambda>v. (f v, v)) (sort_key f (map snd m))) = set m"
    using assms(2) by force
  then show "map_of (map (\<lambda>v. (f v, v)) (sort_key f (map snd m))) = map_of m"
    using assms(1) dist by (subst map_of_inject_set) (auto simp: go_map_def comp_def)
qed

lemma records_of_wf:
  assumes "wf_set C s"
  shows "\<forall>a \<in> set (rs_Admissions (Records s)). accepts_admission C (set_root s) a"
    and "\<forall>r \<in> set (rs_Revocations (Records s)). revocation_Validate C r = None"
    and "distinct (map adm_Identity (rs_Admissions (Records s)))"
    and "distinct (map rev_Identity (rs_Revocations (Records s)))"
    and "map_of (map (\<lambda>a. (adm_Identity a, a)) (rs_Admissions (Records s))) = map_of (set_admissions s)"
    and "map_of (map (\<lambda>r. (rev_Identity r, r)) (rs_Revocations (Records s))) = map_of (set_revocations s)"
  using assms sorted_values_map [of "set_admissions s" adm_Identity] sorted_values_map [of "set_revocations s" rev_Identity]
  by (auto simp: Records_def wf_set_def wf_admissions_def wf_revocations_def accepts_admission_def)

lemma accept_all: "\<forall>a \<in> set as. P a \<Longrightarrow> filter P as = as"
  by (induction as) auto

lemma merge_records_same:
  assumes "wf_set C s"
  shows "same_records (fst (Merge C (NewSet (set_root s)) (Records s))) s"
proof -
  note rs = records_of_wf [OF assms]
  have "map_of (set_admissions (fst (Merge C (NewSet (set_root s)) (Records s)))) = map_of (set_admissions s)"
    unfolding Merge_absorb using rs(1,3,5) admissions_store.distinct_keys_all_stored
    by (simp add: NewSet_def accept_all)
  moreover have "map_of (set_revocations (fst (Merge C (NewSet (set_root s)) (Records s)))) = map_of (set_revocations s)"
    unfolding Merge_absorb using rs(2,4,6) revocations_store.distinct_keys_all_stored
    by (simp add: NewSet_def accept_all)
  ultimately show ?thesis by (simp add: same_records_def Merge_absorb NewSet_def)
qed

lemma merge_records_count:
  assumes "wf_set C s"
  shows "snd (Merge C (NewSet (set_root s)) (Records s)) = length (set_admissions s) + length (set_revocations s)"
proof -
  note rs = records_of_wf [OF assms]
  let ?t = "fst (merge_admissions C (NewSet (set_root s)) (rs_Admissions (Records s)) 0)"
  have "snd (merge_admissions C (NewSet (set_root s)) (rs_Admissions (Records s)) 0) = length (rs_Admissions (Records s))"
    using rs(1,3) merge_admissions_count [of "rs_Admissions (Records s)" C "NewSet (set_root s)" 0] by (simp add: NewSet_def)
  moreover have "snd (merge_revocations C ?t (rs_Revocations (Records s)) n) = n + length (rs_Revocations (Records s))" for n
    using rs(2,4) merge_revocations_count [of "rs_Revocations (Records s)" C ?t n]
    by (simp add: merge_admissions_absorb NewSet_def)
  ultimately show ?thesis by (simp add: Merge_def case_prod_beta Records_def)
qed

lemma set_run_root: "set_run C (NewSet root) s \<Longrightarrow> set_root s = root"
  using set_run_inv [of C "NewSet root" s "\<lambda>s. set_root s = root"] by (simp add: NewSet_def frame_simps)

text \<open>
  What a node writes to its state file and sends in a push/pull exchange is its whole
  membership: merging the records of a set into a new set with the same root takes every one of
  them and gives a set with the same records and the same members.
\<close>

theorem records_round_trip:
  assumes "set_run C (NewSet root) s" and "Merge C (NewSet root) (Records s) = (s', changed)"
  shows "Records s' = Records s \<and> snd (Valid s' x) = snd (Valid s x) \<and>
    changed = length (set_admissions s) + length (set_revocations s)"
proof -
  have wf: "wf_set C s" using assms(1) wf_NewSet by (rule set_run_wf)
  have m: "Merge C (NewSet (set_root s)) (Records s) = (s', changed)"
    using assms set_run_root by metis
  then have same: "same_records s' s" and wf': "wf_set C s'"
    using merge_records_same [OF wf] Merge_wf [OF wf_NewSet] by (metis fst_conv)+
  then show ?thesis
    using m merge_records_count [OF wf] Records_unique [OF wf' wf same] valid_same_records [OF same]
      valid_by [OF wf] valid_by [OF wf'] by simp
qed

theorem records_round_trip_witness:
  "let (s', changed) = Merge demo_ed25519 (NewSet 1) (Records demo_set) in
   Records s' = Records demo_set \<and> snd (Valid s' 3) \<and> changed = 2"
  using records_round_trip [OF demo_set_run surjective_pairing, of 3]
  by (simp add: case_prod_beta valid_by [OF demo_set_wf] demo_set_eq [THEN arg_cong, of set_admissions]
      demo_set_eq [THEN arg_cong, of set_revocations])

end
