(* ===== verification/Trust_Slots.thy ===== *)
theory Trust_Slots
  imports Trust_Merge "HOL-Library.Product_Lexorder"
begin

text \<open>
  Overlay slots and names in a membership (\<^verbatim>\<open>FreeHost\<close>, \<^verbatim>\<open>HostConflict\<close>, \<^verbatim>\<open>ByName\<close> and
  \<^verbatim>\<open>NameTaken\<close> of \<^verbatim>\<open>internal/trust/set.go\<close>): the slot handed to a joiner, who yields when two
  members hold one slot, and what a name resolves to.
\<close>

section \<open>Free slots\<close>

lemma word_less_plus_one: "h + 1 \<noteq> 0 \<Longrightarrow> h < h + (1 :: 'a::len word)"
  by (metis add.commute lessI unatSuc word_less_nat_alt)

lemma word_plus_one_le: "h < k \<Longrightarrow> h + (1 :: 'a::len word) \<le> k"
  by (metis Suc_leI add.commute add_0 unatSuc word_le_nat_alt word_less_nat_alt word_zero_le)

lemma free_slot_Some:
  "free_slot used limit h0 = Some h \<Longrightarrow>
   h0 \<le> h \<and> h \<le> limit \<and> h \<noteq> 0 \<and> h \<notin> set used \<and> (\<forall>k. h0 \<le> k \<and> k < h \<longrightarrow> k \<in> set used)"
proof (induction used limit h0 rule: free_slot.induct)
  case (1 used limit h0)
  show ?case
  proof (cases "h0 \<in> set used")
    case False
    with "1.prems" show ?thesis by (auto simp: free_slot.simps [of used limit h0] split: if_splits)
  next
    case True
    with "1.prems" have in_range: "h0 \<le> limit \<and> h0 \<noteq> 0" and "free_slot used limit (h0 + 1) = Some h"
      by (auto simp: free_slot.simps [of used limit h0] split: if_splits)
    with "1.IH" True have IH: "h0 + 1 \<le> h \<and> h \<le> limit \<and> h \<noteq> 0 \<and> h \<notin> set used \<and>
        (\<forall>k. h0 + 1 \<le> k \<and> k < h \<longrightarrow> k \<in> set used)"
      by blast
    from \<open>free_slot used limit (h0 + 1) = Some h\<close> have "h0 + 1 \<noteq> 0"
      by (auto simp: free_slot.simps [of used limit "h0 + 1"] split: if_splits)
    then have "h0 < h" using IH word_less_plus_one by (metis order_less_le_trans)
    with IH True show ?thesis
      using word_plus_one_le by (metis order_le_less order_less_imp_le)
  qed
qed

lemma free_slot_None:
  "free_slot used limit h0 = None \<Longrightarrow> h0 \<noteq> 0 \<Longrightarrow> h0 \<le> k \<Longrightarrow> k \<le> limit \<Longrightarrow> k \<in> set used"
proof (induction used limit h0 rule: free_slot.induct)
  case (1 used limit h0)
  have "h0 \<le> limit" using "1.prems"(3,4) by simp
  with "1.prems"(1,2) have used: "h0 \<in> set used" and rest: "free_slot used limit (h0 + 1) = None"
    by (auto simp: free_slot.simps [of used limit h0] split: if_splits)
  show ?case
  proof (cases "k = h0")
    case True
    with used show ?thesis by simp
  next
    case False
    with "1.prems"(3) have "h0 < k" by simp
    then have le: "h0 + 1 \<le> k" by (rule word_plus_one_le)
    have "h0 + 1 \<noteq> 0"
    proof
      assume "h0 + 1 = 0"
      then have "h0 = - 1" by (simp add: eq_neg_iff_add_eq_0)
      with \<open>h0 < k\<close> show False using word_order.extremum [of k] by (simp add: leD)
    qed
    then show ?thesis using "1.IH" used \<open>h0 \<le> limit\<close> "1.prems"(2,4) rest le by blast
  qed
qed

definition slot_used :: "trust_set \<Rightarrow> uint64 \<Rightarrow> bool" where
  "slot_used s h \<longleftrightarrow> (\<exists>(k, a) \<in> set (set_admissions s). adm_Host a = h)"

definition slot_held :: "trust_set \<Rightarrow> uint64 \<Rightarrow> bool" where
  "slot_held s h \<longleftrightarrow> (\<exists>(k, a) \<in> set (set_admissions s). valid s k \<and> adm_Host a = h)"

definition slot_in_range :: "uint64 \<Rightarrow> uint64 \<Rightarrow> bool" where
  "slot_in_range limit h \<longleftrightarrow> 1 \<le> h \<and> h \<le> limit"

definition lowest_slot :: "(uint64 \<Rightarrow> bool) \<Rightarrow> uint64 \<Rightarrow> uint64 \<Rightarrow> bool" where
  "lowest_slot used limit h \<longleftrightarrow> slot_in_range limit h \<and> \<not> used h \<and> (\<forall>k. slot_in_range limit k \<and> k < h \<longrightarrow> used k)"

lemma slot_nonzero: "1 \<le> h \<longleftrightarrow> h \<noteq> (0 :: uint64)"
  by (simp add: word_le_nat_alt unat_eq_0 [symmetric] Suc_le_eq del: unat_eq_0)

lemma free_slot_lowest:
  assumes "\<And>h. h \<in> set used \<longleftrightarrow> P h"
  shows "free_slot used limit 1 = Some h \<Longrightarrow> lowest_slot P limit h"
    and "free_slot used limit 1 = None \<Longrightarrow> slot_in_range limit k \<Longrightarrow> P k"
  using free_slot_Some [of used limit 1 h] free_slot_None [of used limit 1 k] assms
  by (auto simp: lowest_slot_def slot_in_range_def slot_nonzero)

text \<open>
  C15. \<^verbatim>\<open>FreeHost\<close> returns the lowest slot in range that no admission uses; if there is none, the
  lowest one that no member holds; and fails only if every slot in range is held by a member. So
  it never hands out a slot a member holds, for every limit, the largest 64-bit number included.
\<close>

theorem FreeHost_lowest:
  "case FreeHost s limit of
     Inr h \<Rightarrow> \<not> slot_held s h \<and>
       (lowest_slot (slot_used s) limit h \<or>
        (\<forall>k. slot_in_range limit k \<longrightarrow> slot_used s k) \<and> lowest_slot (slot_held s) limit h)
   | Inl e \<Rightarrow> e = OverlayFull \<and> (\<forall>k. slot_in_range limit k \<longrightarrow> slot_held s k)"
proof -
  let ?taken = "map (\<lambda>(ident, a). adm_Host a) (set_admissions s)"
  let ?held = "map (\<lambda>(ident, a). adm_Host a) (filter (\<lambda>(ident, a). valid s ident) (set_admissions s))"
  have "h \<in> set ?taken \<longleftrightarrow> slot_used s h" and "h \<in> set ?held \<longleftrightarrow> slot_held s h" for h
    by (force simp: slot_used_def slot_held_def)+
  note taken = free_slot_lowest [OF this(1)] and held = free_slot_lowest [OF this(2)]
  have "slot_held s h \<Longrightarrow> slot_used s h" for h
    by (auto simp: slot_used_def slot_held_def)
  then have unused: "lowest_slot (slot_used s) limit h \<Longrightarrow> \<not> slot_held s h" for h
    by (auto simp: lowest_slot_def)
  have free: "lowest_slot (slot_held s) limit h \<Longrightarrow> \<not> slot_held s h" for h
    by (auto simp: lowest_slot_def)
  show ?thesis
    unfolding FreeHost_def Let_def
    by (cases "free_slot ?taken limit 1"; cases "free_slot ?held limit 1") (simp_all add: taken held unused free)
qed

theorem FreeHost_lowest_witness:
  "FreeHost demo_set 10 = Inr 1 \<and> \<not> slot_held demo_set 1 \<and> FreeHost demo_set 0 = Inl OverlayFull"
proof -
  have "FreeHost demo_set 10 = Inr 1" and "FreeHost demo_set 0 = Inl OverlayFull"
    by (simp_all add: FreeHost_def Let_def demo_set_eq [THEN arg_cong, of set_admissions] free_slot.simps)
  then show ?thesis using FreeHost_lowest [where s = demo_set and limit = 10] by simp
qed

section \<open>Who keeps a slot\<close>

text \<open>The members that hold a slot, and the strength of a claim: an earlier time, then a smaller key.\<close>

definition holds_slot :: "trust_set \<Rightarrow> uint64 \<Rightarrow> public_key \<Rightarrow> bool" where
  "holds_slot s h x \<longleftrightarrow> valid s x \<and> (\<exists>a. Lookup s x = Some a \<and> adm_Host a = h)"

definition claim :: "trust_set \<Rightarrow> public_key \<Rightarrow> int \<times> public_key" where
  "claim s x = (case Lookup s x of None \<Rightarrow> (0, x) | Some a \<Rightarrow> (sint (adm_IssuedAt a), x))"

lemma claim_inject [simp]: "claim s x = claim s y \<longleftrightarrow> x = y"
  by (auto simp: claim_def split: option.splits)

lemma validAdmissions_iff:
  "wf_set C s \<Longrightarrow> a \<in> set (validAdmissions s) \<longleftrightarrow> valid s (adm_Identity a) \<and> Lookup s (adm_Identity a) = Some a"
  by (force simp: validAdmissions_def Lookup_def wf_set_def wf_admissions_def go_map_entry [symmetric])

lemma stronger_claim_iff:
  assumes "wf_set C s" and "Lookup s x = Some mine" and "a \<in> set (validAdmissions s)"
  shows "stronger_claim x mine a \<longleftrightarrow> adm_Host a = adm_Host mine \<and> claim s (adm_Identity a) < claim s x"
  using assms(2) validAdmissions_iff [OF assms(1), of a] assms(3)
  by (auto simp: stronger_claim_def claim_def key_bytes_less_iff less_prod_def order_le_less signed_word_eqI)

lemma holders_admissions:
  assumes "wf_set C s"
  shows "adm_Identity ` {a \<in> set (validAdmissions s). adm_Host a = h} = {y. holds_slot s h y}"
proof -
  have "adm_Identity a = y" if "Lookup s y = Some a" for y a
    using that wf_set_admission(1) [OF assms] by (simp add: Lookup_def)
  then show ?thesis
    by (auto simp: holds_slot_def validAdmissions_iff [OF assms] image_iff)
qed

lemma HostConflict_None_iff:
  assumes "wf_set C s" and "Lookup s x = Some mine"
  shows "HostConflict s x = None \<longleftrightarrow> (\<forall>y. holds_slot s (adm_Host mine) y \<longrightarrow> claim s x \<le> claim s y)"
proof -
  have "HostConflict s x = None \<longleftrightarrow> (\<forall>a \<in> set (validAdmissions s). \<not> stronger_claim x mine a)"
    using assms(2) by (auto simp: HostConflict_def Lookup_def find_None_iff)
  also have "\<dots> \<longleftrightarrow> (\<forall>a \<in> set (validAdmissions s). adm_Host a = adm_Host mine \<longrightarrow> claim s x \<le> claim s (adm_Identity a))"
    using stronger_claim_iff [OF assms] by (auto simp: not_less)
  also have "\<dots> \<longleftrightarrow> (\<forall>y \<in> adm_Identity ` {a \<in> set (validAdmissions s). adm_Host a = adm_Host mine}. claim s x \<le> claim s y)"
    by auto
  finally show ?thesis by (simp only: holders_admissions [OF assms(1)] mem_Collect_eq Ball_def)
qed

lemma finite_holders: "finite {x. holds_slot s h x}"
proof -
  have "{x. holds_slot s h x} \<subseteq> fst ` set (set_admissions s)"
    by (force simp: holds_slot_def Lookup_def dest: map_of_SomeD)
  then show ?thesis by (rule finite_subset) simp
qed

lemma one_holder:
  assumes "wf_set C s" and "holds_slot s h z"
  shows "\<exists>!x. holds_slot s h x \<and> HostConflict s x = None"
proof -
  let ?S = "claim s ` {x. holds_slot s h x}"
  have "finite ?S" and "?S \<noteq> {}" using finite_holders assms(2) by auto
  then obtain x where x: "holds_slot s h x" "claim s x = Min ?S"
    using Min_in by (metis (no_types, lifting) imageE mem_Collect_eq)
  have least: "claim s x \<le> claim s y" if "holds_slot s h y" for y
    using \<open>finite ?S\<close> that x(2) by simp
  have iff: "HostConflict s y = None \<longleftrightarrow> (\<forall>w. holds_slot s h w \<longrightarrow> claim s y \<le> claim s w)" if "holds_slot s h y" for y
    using that HostConflict_None_iff [OF assms(1)] by (auto simp: holds_slot_def)
  show ?thesis
  proof (rule ex1I [of _ x])
    show "holds_slot s h x \<and> HostConflict s x = None" using x(1) iff least by blast
    show "y = x" if "holds_slot s h y \<and> HostConflict s y = None" for y
      using that iff least x(1) claim_inject by (metis order_antisym)
  qed
qed

text \<open>
  C14. Every slot a member holds has exactly one member that keeps it: of all members whose
  admissions carry that slot, exactly one has no conflict. Since the answer depends only on the
  records, nodes with the same records agree on who that is.
\<close>

theorem slot_kept_by_one:
  assumes "set_run C (NewSet root) s" and "holds_slot s h z"
  shows "(\<exists>!x. holds_slot s h x \<and> HostConflict s x = None) \<and>
    (set_run C (NewSet root) s' \<and> same_records s s' \<longrightarrow> (HostConflict s z = None \<longleftrightarrow> HostConflict s' z = None))"
proof -
  have wf: "wf_set C s" using assms(1) wf_NewSet by (rule set_run_wf)
  have "HostConflict s z = None \<longleftrightarrow> HostConflict s' z = None" if run: "set_run C (NewSet root) s'" and same: "same_records s s'"
  proof -
    have lookup: "Lookup s' = Lookup s" and valid: "valid s' = valid s"
      using same valid_same_records [OF same] by (auto simp: same_records_def Lookup_def fun_eq_iff)
    then have "holds_slot s' = holds_slot s" and "claim s' = claim s"
      by (simp_all add: holds_slot_def claim_def fun_eq_iff)
    moreover obtain a where "Lookup s z = Some a" using assms(2) by (auto simp: holds_slot_def)
    ultimately show ?thesis
      using HostConflict_None_iff [OF wf] HostConflict_None_iff [OF set_run_wf [OF run wf_NewSet]] lookup by simp
  qed
  then show ?thesis using one_holder [OF wf assms(2)] by blast
qed

theorem slot_kept_by_one_witness:
  "holds_slot demo_set 3 3 \<and> (\<exists>!x. holds_slot demo_set 3 x \<and> HostConflict demo_set x = None)"
proof -
  have "Lookup demo_set 3 = Some (demo_admission 2 3 ''c'' 3 200)" by (simp add: Lookup_def demo_set_eq)
  then have "holds_slot demo_set 3 3" by (simp add: holds_slot_def)
  then show ?thesis using slot_kept_by_one [OF demo_set_run, of 3 3] by blast
qed

section \<open>Names\<close>

lemma count_named_filter:
  "count_named name as (found, n) =
    (let hits = filter (\<lambda>a. adm_Name a = name) as in
     (if hits = [] then found else Some (last hits), n + length hits))"
  by (induction as arbitrary: found n) (auto simp: Let_def)

lemma validAdmissions_distinct: "wf_set C s \<Longrightarrow> distinct (map adm_Identity (validAdmissions s))"
proof -
  assume wf: "wf_set C s"
  then have "map adm_Identity (validAdmissions s) = map fst (filter (\<lambda>(ident, a). valid s ident) (set_admissions s))"
    by (auto simp: validAdmissions_def wf_set_def wf_admissions_def)
  then show ?thesis using wf by (simp add: wf_set_def wf_admissions_def go_map_def distinct_map_filter)
qed

text \<open>
  A name resolves to a member exactly if that member has it and no other does, and a name is
  taken, for a given identity, exactly if another member has it: a joiner whose name is not taken
  can be found by that name once it is a member.
\<close>

theorem ByName_unique:
  assumes "set_run C (NewSet root) s"
  shows "(ByName s name = Some a \<longleftrightarrow> a \<in> set (validAdmissions s) \<and> adm_Name a = name \<and>
      (\<forall>b \<in> set (validAdmissions s). adm_Name b = name \<longrightarrow> b = a)) \<and>
    (NameTaken s name x \<longleftrightarrow> (\<exists>b. Lookup s (adm_Identity b) = Some b \<and> valid s (adm_Identity b) \<and>
      adm_Name b = name \<and> adm_Identity b \<noteq> x))"
proof -
  have wf: "wf_set C s" using assms wf_NewSet by (rule set_run_wf)
  let ?hits = "filter (\<lambda>a. adm_Name a = name) (validAdmissions s)"
  have "distinct ?hits"
    using validAdmissions_distinct [OF wf] by (simp add: distinct_map)
  then have "?hits = [a] \<longleftrightarrow> set ?hits = {a}"
    by (cases ?hits) (auto simp: subset_singleton_iff)
  moreover have "ByName s name = Some a \<longleftrightarrow> ?hits = [a]"
    by (cases ?hits) (auto simp: ByName_def count_named_filter Let_def)
  ultimately have "ByName s name = Some a \<longleftrightarrow> set ?hits = {a}" by simp
  moreover have "set ?hits = {a} \<longleftrightarrow> a \<in> set (validAdmissions s) \<and> adm_Name a = name \<and>
      (\<forall>b \<in> set (validAdmissions s). adm_Name b = name \<longrightarrow> b = a)"
    by auto
  moreover have "NameTaken s name x \<longleftrightarrow> (\<exists>b. Lookup s (adm_Identity b) = Some b \<and> valid s (adm_Identity b) \<and>
      adm_Name b = name \<and> adm_Identity b \<noteq> x)"
    using validAdmissions_iff [OF wf] by (auto simp: NameTaken_def list_ex_iff)
  ultimately show ?thesis by blast
qed

theorem ByName_unique_witness:
  "ByName demo_set ''c'' = Some (demo_admission 2 3 ''c'' 3 200) \<and> NameTaken demo_set ''c'' 2"
proof -
  let ?b = "demo_admission 1 2 ''b'' 2 100" and ?c = "demo_admission 2 3 ''c'' 3 200"
  have members: "validAdmissions demo_set = [?b, ?c]"
    unfolding validAdmissions_def by (simp add: demo_set_eq [THEN arg_cong, of set_admissions])
  then have "Lookup demo_set 3 = Some ?c"
    using validAdmissions_iff [OF demo_set_wf, of ?c] by simp
  then show ?thesis
    using ByName_unique [OF demo_set_run, of "''c''" ?c 2] members demo_set_valid(3) demo_admission_simps(1,2)
    by (auto intro: exI [of _ ?c])
qed

end
