(* ===== verification/Trust_Cache.thy ===== *)
theory Trust_Cache
  imports Trust_Validity
begin

text \<open>
  The cache of \<^verbatim>\<open>Valid\<close> under concurrency, \<^verbatim>\<open>internal/trust/set.go\<close>: \<^verbatim>\<open>Valid\<close> reads and fills the map of
  known members without holding the lock, so calls of it and changes of the records interleave. Each
  call is split at its accesses to what is shared: taking the pointer to the map, looking the identity
  up in it, deciding under the read lock, and storing and returning the answer. A change holds the
  write lock while it stores the record and, as a step of its own, replaces the map.

  The maps ever created are numbered; the number of the current one is the generation. The history of
  the records, one entry per generation, and the log of the answers are kept for the statements only.
\<close>

section \<open>Shared state and calls\<close>

datatype write_lock = Unlocked | Stored | Forgotten

datatype valid_call = Loaded nat public_key | Missed nat public_key | Decided nat public_key bool

record shared_set =
  sh_records :: trust_set
  sh_members :: nat
  sh_maps :: "nat \<Rightarrow> public_key list"
  sh_lock :: write_lock
  sh_calls :: "valid_call list"
  sh_history :: "trust_set list"
  sh_answers :: "(public_key \<times> nat \<times> nat \<times> bool) list"

definition shared_start :: "trust_set \<Rightarrow> shared_set" where
  "shared_start s = \<lparr>sh_records = s, sh_members = 0, sh_maps = (\<lambda>_. []), sh_lock = Unlocked, sh_calls = [], sh_history = [s], sh_answers = []\<rparr>"

text \<open>An answer with the generations at which the call took the pointer and at which it returned.\<close>

definition answered :: "nat \<Rightarrow> public_key \<Rightarrow> bool \<Rightarrow> shared_set \<Rightarrow> shared_set" where
  "answered m ident b sh = sh\<lparr>sh_answers := sh_answers sh @ [(ident, m, sh_members sh, b)]\<rparr>"

definition load_members :: "public_key \<Rightarrow> shared_set \<Rightarrow> shared_set" where
  "load_members ident sh = sh\<lparr>sh_calls := Loaded (sh_members sh) ident # sh_calls sh\<rparr>"

fun call_step :: "valid_call \<Rightarrow> shared_set \<Rightarrow> shared_set \<times> valid_call option" where
  "call_step (Loaded m ident) sh =
     (if ident \<in> set (sh_maps sh m) then (answered m ident True sh, None) else (sh, Some (Missed m ident)))"
| "call_step (Missed m ident) sh = (sh, Some (Decided m ident (valid (sh_records sh) ident)))"
| "call_step (Decided m ident b) sh =
     (answered m ident b (if b then sh\<lparr>sh_maps := (sh_maps sh)(m := List.insert ident (sh_maps sh m))\<rparr> else sh), None)"

definition shared_forget :: "shared_set \<Rightarrow> shared_set" where
  "shared_forget sh =
     sh\<lparr>sh_members := Suc (sh_members sh), sh_maps := (sh_maps sh)(Suc (sh_members sh) := []), sh_history := sh_history sh @ [sh_records sh]\<rparr>"

text \<open>Deciding takes the read lock; everything else a call does needs no lock.\<close>

inductive shared_step :: "ed25519 \<Rightarrow> shared_set \<Rightarrow> shared_set \<Rightarrow> bool" for C where
  begins: "shared_step C sh (load_members ident sh)"
| continues: "sh_calls sh = cs @ c # ds \<Longrightarrow> (\<forall>m ident. c = Missed m ident \<longrightarrow> sh_lock sh = Unlocked) \<Longrightarrow>
    call_step c sh = (sh', c') \<Longrightarrow> shared_step C sh (sh'\<lparr>sh_calls := cs @ (case c' of None \<Rightarrow> [] | Some d \<Rightarrow> [d]) @ ds\<rparr>)"
| admits: "sh_lock sh = Unlocked \<Longrightarrow> AddAdmission C (sh_records sh) a = (s, Inr True) \<Longrightarrow>
    shared_step C sh (sh\<lparr>sh_records := s, sh_lock := Stored\<rparr>)"
| revokes: "sh_lock sh = Unlocked \<Longrightarrow> AddRevocation C (sh_records sh) r = (s, Inr True) \<Longrightarrow>
    shared_step C sh (sh\<lparr>sh_records := s, sh_lock := Stored\<rparr>)"
| forgets: "sh_lock sh = Stored \<Longrightarrow> shared_step C sh ((shared_forget sh)\<lparr>sh_lock := Forgotten\<rparr>)"
| releases: "sh_lock sh = Forgotten \<Longrightarrow> shared_step C sh (sh\<lparr>sh_lock := Unlocked\<rparr>)"

inductive shared_run :: "ed25519 \<Rightarrow> trust_set \<Rightarrow> shared_set \<Rightarrow> bool" for C s where
  start: "shared_run C s (shared_start s)"
| step: "shared_run C s sh \<Longrightarrow> shared_step C sh sh' \<Longrightarrow> shared_run C s sh'"

section \<open>Nothing stale\<close>

text \<open>Some records of the generations \<open>m\<close> to \<open>n\<close> give the answer \<open>b\<close>.\<close>

definition holds_between :: "trust_set list \<Rightarrow> nat \<Rightarrow> nat \<Rightarrow> public_key \<Rightarrow> bool \<Rightarrow> bool" where
  "holds_between hist m n ident b \<longleftrightarrow> (\<exists>g. m \<le> g \<and> g \<le> n \<and> n < length hist \<and> valid (hist ! g) ident = b)"

lemma holds_between_later:
  assumes "holds_between hist m n x b"
  shows "holds_between (hist @ [s]) m n x b"
proof -
  obtain g where g: "m \<le> g" "g \<le> n" "n < length hist" "valid (hist ! g) x = b" using assms by (auto simp: holds_between_def)
  then have "valid ((hist @ [s]) ! g) x = b" by (simp add: nth_append)
  with g show ?thesis unfolding holds_between_def by (intro exI [of _ g]) simp
qed

lemma holds_between_longer: "holds_between hist m n x b \<Longrightarrow> n \<le> k \<Longrightarrow> k < length hist \<Longrightarrow> holds_between hist m k x b"
  by (auto simp: holds_between_def)

fun call_ok :: "trust_set list \<Rightarrow> nat \<Rightarrow> valid_call \<Rightarrow> bool" where
  "call_ok hist n (Loaded m x) \<longleftrightarrow> m \<le> n"
| "call_ok hist n (Missed m x) \<longleftrightarrow> m \<le> n"
| "call_ok hist n (Decided m x b) \<longleftrightarrow> m \<le> n \<and> holds_between hist m n x b"

definition cache_ok :: "shared_set \<Rightarrow> bool" where
  "cache_ok sh \<longleftrightarrow> length (sh_history sh) = Suc (sh_members sh) \<and> (sh_lock sh \<noteq> Stored \<longrightarrow> last (sh_history sh) = sh_records sh) \<and>
     (\<forall>m \<le> sh_members sh. \<forall>x \<in> set (sh_maps sh m). holds_between (sh_history sh) m (sh_members sh) x True) \<and>
     (\<forall>c \<in> set (sh_calls sh). call_ok (sh_history sh) (sh_members sh) c) \<and>
     (\<forall>(x, m, n, b) \<in> set (sh_answers sh). holds_between (sh_history sh) m n x b)"

lemma cache_okD:
  assumes "cache_ok sh"
  shows "length (sh_history sh) = Suc (sh_members sh)"
    and "sh_lock sh \<noteq> Stored \<Longrightarrow> sh_history sh ! sh_members sh = sh_records sh"
    and "m \<le> sh_members sh \<Longrightarrow> x \<in> set (sh_maps sh m) \<Longrightarrow> holds_between (sh_history sh) m (sh_members sh) x True"
    and "c \<in> set (sh_calls sh) \<Longrightarrow> call_ok (sh_history sh) (sh_members sh) c"
    and "(y, i, n, b) \<in> set (sh_answers sh) \<Longrightarrow> holds_between (sh_history sh) i n y b"
proof -
  show len: "length (sh_history sh) = Suc (sh_members sh)" using assms by (simp add: cache_ok_def)
  have "sh_history sh \<noteq> []" using len by auto
  then show "sh_lock sh \<noteq> Stored \<Longrightarrow> sh_history sh ! sh_members sh = sh_records sh"
    using assms len by (simp add: cache_ok_def last_conv_nth)
qed (use assms in \<open>auto simp: cache_ok_def\<close>)

lemma cache_ok_calls:
  "cache_ok sh \<Longrightarrow> (\<And>c. c \<in> set cs \<Longrightarrow> call_ok (sh_history sh) (sh_members sh) c) \<Longrightarrow> cache_ok (sh\<lparr>sh_calls := cs\<rparr>)"
  by (simp add: cache_ok_def)

lemma cache_ok_answered:
  "cache_ok sh \<Longrightarrow> holds_between (sh_history sh) m (sh_members sh) x b \<Longrightarrow> cache_ok (answered m x b sh)"
  by (simp add: cache_ok_def answered_def)

lemma cache_ok_stored:
  "cache_ok sh \<Longrightarrow> holds_between (sh_history sh) m (sh_members sh) x True \<Longrightarrow>
   cache_ok (sh\<lparr>sh_maps := (sh_maps sh)(m := List.insert x (sh_maps sh m))\<rparr>)"
  by (simp add: cache_ok_def)

lemma call_step_frame:
  "sh_history (fst (call_step c sh)) = sh_history sh" "sh_members (fst (call_step c sh)) = sh_members sh"
  "sh_records (fst (call_step c sh)) = sh_records sh"
  by (cases "(c, sh)" rule: call_step.cases; simp add: answered_def)+

lemma call_step_ok:
  assumes "cache_ok sh" and "call_ok (sh_history sh) (sh_members sh) c"
    and "\<And>m x. c = Missed m x \<Longrightarrow> sh_lock sh = Unlocked"
  shows "cache_ok (fst (call_step c sh))"
    and "snd (call_step c sh) = Some d \<Longrightarrow> call_ok (sh_history sh) (sh_members sh) d"
proof -
  show "cache_ok (fst (call_step c sh))"
  proof (cases c)
    case (Loaded m x)
    then show ?thesis using assms(1,2) cache_ok_answered [OF assms(1)] cache_okD(3) [OF assms(1)] by simp
  next
    case (Decided m x b)
    let ?sh = "if b then sh\<lparr>sh_maps := (sh_maps sh)(m := List.insert x (sh_maps sh m))\<rparr> else sh"
    have "cache_ok ?sh" "holds_between (sh_history ?sh) m (sh_members ?sh) x b"
      using assms(1,2) cache_ok_stored [OF assms(1)] Decided by (cases b; simp)+
    then show ?thesis using Decided cache_ok_answered [of ?sh] by simp
  qed (simp add: assms(1))
  show "call_ok (sh_history sh) (sh_members sh) d" if "snd (call_step c sh) = Some d"
  proof (cases c)
    case (Missed m x)
    have "holds_between (sh_history sh) m (sh_members sh) x (valid (sh_records sh) x)"
      using assms(2) Missed cache_okD(1,2) [OF assms(1)] assms(3) unfolding holds_between_def
      by (intro exI [of _ "sh_members sh"]) simp
    then show ?thesis using that assms(2) Missed by auto
  qed (use that assms(2) in \<open>auto split: if_splits\<close>)
qed

lemma shared_forget_ok:
  assumes "cache_ok sh"
  shows "cache_ok ((shared_forget sh)\<lparr>sh_lock := Forgotten\<rparr>)"
proof -
  let ?n = "sh_members sh"
  have len: "length (sh_history sh) = Suc ?n" using assms by (simp add: cache_ok_def)
  have longer: "holds_between (sh_history sh @ [s]) m (Suc ?n) x b" if "holds_between (sh_history sh) m ?n x b" for s m x b
    using holds_between_longer [OF holds_between_later [OF that]] len by simp
  have calls: "call_ok (sh_history sh @ [s]) (Suc ?n) c" if "call_ok (sh_history sh) ?n c" for c s
    using that longer by (cases c) auto
  show ?thesis
    unfolding cache_ok_def shared_forget_def
    using len longer cache_okD(3) [OF assms] calls cache_okD(4) [OF assms] holds_between_later cache_okD(5) [OF assms]
    by (auto simp: le_Suc_eq)
qed

lemma shared_step_ok:
  assumes "shared_step C sh sh'" and "cache_ok sh"
  shows "cache_ok sh'"
  using assms
proof (induction rule: shared_step.induct)
  case (continues sh cs c ds sh' c')
  have old: "call_ok (sh_history sh) (sh_members sh) d" if "d \<in> set (cs @ c # ds)" for d
    using that cache_okD(4) [OF continues(4)] continues(1) by simp
  have ok: "cache_ok sh'" "\<And>d. c' = Some d \<Longrightarrow> call_ok (sh_history sh) (sh_members sh) d"
    using call_step_ok [OF continues(4) old [of c]] continues(2,3) by simp_all
  moreover have "sh_history sh' = sh_history sh" "sh_members sh' = sh_members sh"
    using call_step_frame [of c sh] continues(3) by simp_all
  ultimately show ?case
    using old by (intro cache_ok_calls) (auto split: option.splits)
next
  case (begins sh ident)
  then show ?case by (simp add: cache_ok_def load_members_def)
next
  case (forgets sh)
  then show ?case by (simp add: shared_forget_ok)
qed (simp_all add: cache_ok_def)

lemma shared_run_ok: "shared_run C s sh \<Longrightarrow> cache_ok sh"
proof (induction rule: shared_run.induct)
  case start
  show ?case by (simp add: cache_ok_def shared_start_def)
qed (rule shared_step_ok)

text \<open>Between its changes the concurrent set is one of the sequential model's.\<close>

lemma shared_run_set: "shared_run C s sh \<Longrightarrow> set_run C s (sh_records sh)"
proof (induction rule: shared_run.induct)
  case start
  show ?case by (simp add: shared_start_def set_run.stay)
next
  case (step sh sh')
  from step.hyps(2) step.IH show ?case
  proof (induction rule: shared_step.induct)
    case (continues sh cs c ds sh' c')
    then show ?case using call_step_frame(3) [of c sh] by simp
  next
    case (admits sh a s')
    then show ?case using set_run.more [OF _ set_step.admission [of C "sh_records sh" a]] by simp
  next
    case (revokes sh r s')
    then show ?case using set_run.more [OF _ set_step.revocation [of C "sh_records sh" r]] by simp
  qed (simp_all add: load_members_def shared_forget_def)
qed

text \<open>
  C5. The unlocked cache never serves a stale membership: under every interleaving of calls to
  \<^verbatim>\<open>Valid\<close> with the addition of records, whenever no change is in progress the current map holds only
  identities that are members by the current records, and every answer, cached or not, is right for
  records the set had at some moment between the start and the end of that very call. So a call that
  starts once a revocation has been added never answers from the time before it.
\<close>

theorem cache_never_stale:
  assumes "shared_run C s sh"
  shows "(sh_lock sh = Unlocked \<longrightarrow> (\<forall>x \<in> set (sh_maps sh (sh_members sh)). valid (sh_records sh) x)) \<and>
    (\<forall>(x, m, n, b) \<in> set (sh_answers sh). m \<le> n \<and> n < length (sh_history sh) \<and> (\<exists>g. m \<le> g \<and> g \<le> n \<and> valid (sh_history sh ! g) x = b)) \<and>
    (sh_lock sh = Unlocked \<longrightarrow> last (sh_history sh) = sh_records sh) \<and> set_run C s (sh_records sh)"
proof -
  have ok: "cache_ok sh" using assms by (rule shared_run_ok)
  have current: "valid (sh_records sh) x" if "sh_lock sh = Unlocked" and "x \<in> set (sh_maps sh (sh_members sh))" for x
  proof -
    have "holds_between (sh_history sh) (sh_members sh) (sh_members sh) x True" using cache_okD(3) [OF ok] that(2) by simp
    then show ?thesis using cache_okD(2) [OF ok] that(1) by (auto simp: holds_between_def dest!: le_antisym)
  qed
  have answers: "m \<le> n \<and> n < length (sh_history sh) \<and> (\<exists>g. m \<le> g \<and> g \<le> n \<and> valid (sh_history sh ! g) x = b)"
    if "(x, m, n, b) \<in> set (sh_answers sh)" for x m n b
    using cache_okD(5) [OF ok that] by (auto simp: holds_between_def)
  have "sh_lock sh = Unlocked \<longrightarrow> last (sh_history sh) = sh_records sh" using ok by (simp add: cache_ok_def)
  then show ?thesis using current answers shared_run_set [OF assms] by blast
qed

text \<open>A call that decided before identity 3 revoked itself stores its answer in a map nobody reads any more.\<close>

theorem cache_never_stale_witness:
  "\<exists>sh. shared_run demo_ed25519 demo_set sh \<and> sh_lock sh = Unlocked \<and> sh_answers sh = [(3, 0, 1, True)] \<and>
     3 \<notin> set (sh_maps sh (sh_members sh)) \<and> \<not> valid (sh_records sh) 3 \<and> (\<exists>g \<le> 1. valid (sh_history sh ! g) 3)"
proof -
  let ?C = demo_ed25519 and ?r = "Revoke demo_ed25519 (demo_identity 3) 3 300"
  obtain s where rev: "AddRevocation ?C demo_set ?r = (s, Inr True)" and out: "\<not> valid s 3"
    using AddRevocation_fresh [of ?C ?r demo_set] Revoke_Validate [of ?C "demo_identity 3" 3 300]
      self_revoked_not_valid [of "fst (AddRevocation ?C demo_set ?r)" 3 ?r] by (simp add: demo_set_eq)
  let ?st = "\<lambda>rs mem m lock calls hist ans. \<lparr>sh_records = rs, sh_members = mem, sh_maps = m, sh_lock = lock, sh_calls = calls,
    sh_history = hist, sh_answers = ans\<rparr>"
  let ?m = "\<lambda>_. []" and ?d = demo_set
  let ?fin = "?st s 1 (?m(1 := [], 0 := [3])) Unlocked [] [?d, s] [(3, 0, 1, True)]"
  have "shared_run ?C ?d (?st ?d 0 ?m Unlocked [Loaded 0 3] [?d] [])"
    using shared_run.step [OF shared_run.start shared_step.begins [of ?C _ 3]] by (simp add: load_members_def shared_start_def)
  then have "shared_run ?C ?d (?st ?d 0 ?m Unlocked [Missed 0 3] [?d] [])"
    using shared_step.continues [of "?st ?d 0 ?m Unlocked [Loaded 0 3] [?d] []" "[]" "Loaded 0 3" "[]" _ _ ?C] by (auto intro: shared_run.step)
  then have "shared_run ?C ?d (?st ?d 0 ?m Unlocked [Decided 0 3 True] [?d] [])"
    using shared_step.continues [of "?st ?d 0 ?m Unlocked [Missed 0 3] [?d] []" "[]" "Missed 0 3" "[]" _ _ ?C] by (auto intro: shared_run.step)
  then have "shared_run ?C ?d (?st s 0 ?m Stored [Decided 0 3 True] [?d] [])"
    using shared_step.revokes [of "?st ?d 0 ?m Unlocked [Decided 0 3 True] [?d] []" ?C ?r s] rev by (auto intro: shared_run.step)
  then have "shared_run ?C ?d (?st s 1 (?m(1 := [])) Forgotten [Decided 0 3 True] [?d, s] [])"
    using shared_step.forgets [of "?st s 0 ?m Stored [Decided 0 3 True] [?d] []" ?C] by (auto simp: shared_forget_def intro: shared_run.step)
  then have "shared_run ?C ?d (?st s 1 (?m(1 := [], 0 := [3])) Forgotten [] [?d, s] [(3, 0, 1, True)])"
    using shared_step.continues [of "?st s 1 (?m(1 := [])) Forgotten [Decided 0 3 True] [?d, s] []" "[]" "Decided 0 3 True" "[]" _ _ ?C]
    by (auto simp: answered_def intro: shared_run.step)
  then have run: "shared_run ?C ?d ?fin"
    using shared_step.releases [of "?st s 1 (?m(1 := [], 0 := [3])) Forgotten [] [?d, s] [(3, 0, 1, True)]" ?C] by (auto intro: shared_run.step)
  have "3 \<notin> set (sh_maps ?fin (sh_members ?fin))" using cache_never_stale [OF run] out by auto
  moreover have "\<exists>g \<le> 1. valid (sh_history ?fin ! g) 3" using cache_never_stale [OF run] by auto
  ultimately show ?thesis using run out by (intro exI [of _ ?fin]) simp
qed

end
