(* ===== verification/Overlay.thy ===== *)
theory Overlay
  imports Netip
begin

text \<open>
  \<^verbatim>\<open>internal/overlay\<close>: the arithmetic of overlay addresses (\<^verbatim>\<open>overlay.go\<close>) and what a node gossips
  about itself (\<^verbatim>\<open>node.go\<close>). A slot is a host number inside the overlay network; the lemmas show
  that slots and addresses correspond one to one, that every address lies in the network, and that
  the network and broadcast addresses are never handed out.
\<close>

section \<open>Metadata and nodes\<close>

record meta =
  meta_overlayAddr :: addr
  meta_pubKey :: string
  meta_allowedIPs :: "prefix list"
  meta_identity :: public_key
  meta_signature :: bytes

record node = meta +
  node_name :: string
  node_addr :: addr
  node_port :: uint16

text \<open>
  The JSON codec of \<^typ>\<open>meta\<close> values is a parameter: \<open>marshal\<close> fails or gives bytes, \<open>unmarshal\<close>
  fails or gives a value. \<open>Encode\<close> adds the size limit, \<open>DecodeMeta\<close> the error wrapping.
\<close>

datatype meta_error = EncodingNodeMeta | MetaTooLarge nat | DecodingNodeMeta

definition Encode :: "(meta \<Rightarrow> bytes option) \<Rightarrow> meta \<Rightarrow> nat \<Rightarrow> meta_error + bytes" where
  "Encode marshal m limit =
     (case marshal m of
        None \<Rightarrow> Inl EncodingNodeMeta
      | Some b \<Rightarrow> if limit < length b then Inl (MetaTooLarge limit) else Inr b)"

definition DecodeMeta :: "(bytes \<Rightarrow> meta option) \<Rightarrow> bytes \<Rightarrow> meta_error + meta" where
  "DecodeMeta unmarshal b = (case unmarshal b of None \<Rightarrow> Inl DecodingNodeMeta | Some m \<Rightarrow> Inr m)"

section \<open>Slots and addresses\<close>

definition MaxHost :: "prefix \<Rightarrow> uint64" where
  "MaxHost prefix =
     (let bits = bit_len (pfx_addr prefix) - pfx_bits prefix in
      if 64 \<le> bits then 0xFFFFFFFFFFFFFFFF - 1
      else
        let top = push_bit (nat bits) 1 - 1 in
        if is4 (pfx_addr prefix) \<and> 0 < top then top - 1 else top)"

definition overlay_Addr :: "prefix \<Rightarrow> uint64 \<Rightarrow> addr option" where
  "overlay_Addr prefix host =
     (if host = 0 \<or> MaxHost prefix < host then None
      else
        case pfx_addr (masked prefix) of
          Addr4 w \<Rightarrow> Some (Addr4 (w OR ucast host))
        | base \<Rightarrow> Some (Addr6 (as16 base OR ucast host) ''''))"

text \<open>The two addresses of a network that no slot may have: its first and, for IPv4, its last.\<close>

definition network_addr :: "prefix \<Rightarrow> addr" where
  "network_addr p = pfx_addr (masked p)"

fun broadcast_addr :: "prefix \<Rightarrow> addr" where
  "broadcast_addr p =
     (case pfx_addr (masked p) of
        Addr4 w \<Rightarrow> Addr4 (w OR mask (nat (32 - pfx_bits p)))
      | a \<Rightarrow> NoAddr)"

section \<open>Laws\<close>

lemma top_is_mask: "push_bit n (1 :: 'a::len word) - 1 = mask n"
  by (simp add: mask_eq_exp_minus_1 push_bit_of_1)

lemma MaxHost_le_mask:
  assumes "wf_prefix p" and "bit_len (pfx_addr p) - pfx_bits p < 64"
  shows "MaxHost p \<le> mask (nat (bit_len (pfx_addr p) - pfx_bits p))"
proof -
  let ?n = "nat (bit_len (pfx_addr p) - pfx_bits p)"
  have "x - 1 \<le> x" if "0 < x" for x :: uint64
    using that by (simp add: word_le_nat_alt unat_sub_if_size word_less_nat_alt)
  then show ?thesis
    using assms(2) by (simp add: MaxHost_def Let_def top_is_mask del: push_bit_of_1)
qed

lemma take_bit_le_mask: "h \<le> mask n \<Longrightarrow> take_bit n h = h" for h :: "'a::len word"
proof -
  assume "h \<le> mask n"
  then have "uint h \<le> mask (min (LENGTH('a)) n)"
    by (simp add: word_le_def uint_mask_eq)
  also have "\<dots> \<le> mask n"
    unfolding mask_eq_exp_minus_1 by (intro diff_right_mono power_increasing) simp_all
  finally have "take_bit n (uint h) = uint h"
    by (simp add: take_bit_int_eq_self mask_eq_exp_minus_1)
  then show "take_bit n h = h"
    by (simp add: word_uint_eq_iff unsigned_take_bit_eq)
qed

lemma slot_fits:
  assumes "wf_prefix p" and "h \<le> MaxHost p" and "bit_len (pfx_addr p) - pfx_bits p < 64"
  shows "take_bit (nat (bit_len (pfx_addr p) - pfx_bits p)) h = h"
proof -
  have "h \<le> mask (nat (bit_len (pfx_addr p) - pfx_bits p))"
    using assms MaxHost_le_mask by (metis order_trans)
  then show ?thesis by (rule take_bit_le_mask)
qed

lemma ucast_take_bit: "n \<le> LENGTH('b) \<Longrightarrow> take_bit n (ucast w :: 'b::len word) = ucast (take_bit n w)"
  for w :: "'a::len word"
  by (rule bit_eqI) (auto simp: bit_take_bit_iff bit_ucast_iff)

text \<open>
  The shape of an address in each of the three kinds of prefix: the network bits of the base and,
  below them, exactly the slot.
\<close>

lemma overlay_Addr_v4:
  assumes "wf_prefix p" and "pfx_addr p = Addr4 w" and "0 \<le> pfx_bits p" and "overlay_Addr p h = Some a"
  obtains v where "a = Addr4 v" and "clear_low (nat (32 - pfx_bits p)) v = clear_low (nat (32 - pfx_bits p)) w"
    and "take_bit (nat (32 - pfx_bits p)) v = ucast h" and "take_bit (nat (32 - pfx_bits p)) h = h"
proof -
  let ?n = "nat (32 - pfx_bits p)"
  have bits: "pfx_bits p \<le> 32"
    using assms(1-3) by (auto simp: wf_prefix_def)
  from assms(4) have host: "h \<le> MaxHost p" and a: "a = Addr4 (clear_low ?n w OR ucast h)"
    using assms(2,3) bits by (auto simp: overlay_Addr_def masked_addr4 not_less split: if_splits)
  have h: "take_bit ?n h = h"
    using slot_fits [OF assms(1) host] assms(2,3) by simp
  then have "take_bit ?n (ucast h :: 32 word) = ucast h"
    using assms(3) by (simp add: ucast_take_bit)
  from take_bit_or_clear_low [OF this] a h show thesis
    using that by blast
qed

lemma overlay_Addr_v6:
  assumes "wf_prefix p" and "pfx_addr p = Addr6 w z" and "0 \<le> pfx_bits p" and "overlay_Addr p h = Some a"
  obtains v where "a = Addr6 v ''''"
    and "clear_low (nat (128 - pfx_bits p)) v = clear_low (nat (128 - pfx_bits p)) w"
    and "take_bit (nat (128 - pfx_bits p)) v = ucast h"
proof -
  let ?n = "nat (128 - pfx_bits p)"
  have bits: "pfx_bits p \<le> 128"
    using assms(1-3) by (auto simp: wf_prefix_def)
  from assms(4) have host: "h \<le> MaxHost p" and a: "a = Addr6 (clear_low ?n w OR ucast h) ''''"
    using assms(2,3) bits by (auto simp: overlay_Addr_def masked_addr6 not_less split: if_splits)
  have "take_bit ?n (ucast h :: 128 word) = ucast h"
  proof (cases "128 - pfx_bits p < 64")
    case True
    then have "take_bit ?n h = h"
      using slot_fits [OF assms(1) host] assms(2) by simp
    then show ?thesis using assms(3) by (simp add: ucast_take_bit)
  next
    case False
    then show ?thesis
      by (intro bit_eqI) (auto simp: bit_take_bit_iff bit_ucast_iff dest: bit_imp_le_length)
  qed
  from take_bit_or_clear_low [OF this] a show thesis
    using that by blast
qed

lemma overlay_Addr_invalid:
  assumes "pfx_bits p < 0" and "overlay_Addr p h = Some a"
  shows "a = Addr6 (ucast h) ''''"
  using assms by (auto simp: overlay_Addr_def masked_invalid no_prefix_def split: if_splits)

lemma ucast_inject_128: "(ucast (g :: uint64) :: 128 word) = ucast h \<longleftrightarrow> g = h"
proof
  assume "(ucast g :: 128 word) = ucast h"
  then have eq: "bit (ucast g :: 128 word) i = bit (ucast h :: 128 word) i" for i by simp
  show "g = h"
  proof (rule bit_eqI)
    fix i
    assume "possible_bit TYPE(uint64) i"
    with eq [of i] show "bit g i = bit h i" by (simp add: bit_ucast_iff)
  qed
qed simp

lemma ucast_inject_32:
  fixes g h :: uint64
  assumes "(ucast g :: 32 word) = ucast h" and "take_bit n g = g" and "take_bit n h = h" and "n \<le> 32"
  shows "g = h"
proof (rule bit_eqI)
  fix i
  have small: "bit x i \<Longrightarrow> i < n" if "take_bit n x = x" for x :: uint64
    using that by (metis bit_take_bit_iff)
  have "bit (ucast g :: 32 word) i = bit (ucast h :: 32 word) i"
    using assms(1) by simp
  with assms(2-4) small show "bit g i = bit h i"
    by (auto simp: bit_ucast_iff dest!: small)
qed

text \<open>Two slots of one network never share an address.\<close>

lemma overlay_Addr_inject:
  assumes "wf_prefix p" and "overlay_Addr p g = Some a" and "overlay_Addr p h = Some a"
  shows "g = h"
  using assms(1)
proof (cases p rule: wf_prefix_cases)
  case invalid
  with assms(2,3) have "Addr6 (ucast g :: 128 word) '''' = Addr6 (ucast h) ''''"
    using overlay_Addr_invalid [of p g a] overlay_Addr_invalid [of p h a] by simp
  then show ?thesis by (simp add: ucast_inject_128)
next
  case (v4 w)
  from overlay_Addr_v4 [OF assms(1) v4(1,2) assms(2)] obtain v
    where "a = Addr4 v" "take_bit (nat (32 - pfx_bits p)) v = ucast g" "take_bit (nat (32 - pfx_bits p)) g = g" .
  moreover from overlay_Addr_v4 [OF assms(1) v4(1,2) assms(3)] obtain v'
    where "a = Addr4 v'" "take_bit (nat (32 - pfx_bits p)) v' = ucast h" "take_bit (nat (32 - pfx_bits p)) h = h" .
  ultimately show ?thesis
    using ucast_inject_32 [of g h "nat (32 - pfx_bits p)"] v4(2) by simp
next
  case (v6 w)
  from overlay_Addr_v6 [OF assms(1) v6(1,2) assms(2)] obtain v
    where "a = Addr6 v ''''" "take_bit (nat (128 - pfx_bits p)) v = ucast g" .
  moreover from overlay_Addr_v6 [OF assms(1) v6(1,2) assms(3)] obtain v'
    where "a = Addr6 v' ''''" "take_bit (nat (128 - pfx_bits p)) v' = ucast h" .
  ultimately show ?thesis
    by (simp add: ucast_inject_128)
qed

lemma word_minus_one_less: "0 < x \<Longrightarrow> x - 1 < (x :: 'a::len word)"
proof -
  assume a: "0 < x"
  then have "x \<noteq> 0" by auto
  then have "unat (x - 1) = unat x - 1" by (rule unat_minus_one)
  moreover have "0 < unat x" using a by (simp add: word_less_nat_alt)
  ultimately show ?thesis by (simp add: word_less_nat_alt)
qed

lemma slot_below_mask_v4:
  assumes "pfx_addr p = Addr4 w" and "0 \<le> pfx_bits p" and "overlay_Addr p h = Some a"
  shows "h < mask (nat (32 - pfx_bits p))"
proof -
  let ?top = "mask (nat (32 - pfx_bits p)) :: uint64"
  have max: "MaxHost p = (if 0 < ?top then ?top - 1 else ?top)"
    using assms(1,2) by (simp add: MaxHost_def Let_def top_is_mask del: push_bit_of_1)
  from assms(3) have h: "h \<noteq> 0" "h \<le> MaxHost p"
    by (auto simp: overlay_Addr_def not_less split: if_splits)
  then have pos: "0 < ?top"
    using max by (auto simp: word_gt_0 split: if_splits)
  then have "?top - 1 < ?top"
    by (rule word_minus_one_less)
  with h(2) max pos show ?thesis by simp
qed

lemma take_bit_mask_self [simp]: "take_bit n (mask n :: 'a::len word) = mask n"
  by (rule bit_eqI) (auto simp: bit_take_bit_iff bit_mask_iff)

lemma ucast_mask_32: "n \<le> 32 \<Longrightarrow> (ucast (mask n :: uint64) :: 32 word) = mask n"
  by (rule bit_eqI) (auto simp: bit_ucast_iff bit_mask_iff)

lemma overlay_Addr_in_v4:
  assumes "wf_prefix p" and "pfx_addr p = Addr4 w" and "0 \<le> pfx_bits p" and "overlay_Addr p h = Some a"
  shows "prefix_contains p a" and "a \<noteq> network_addr p" and "a \<noteq> broadcast_addr p"
proof -
  let ?n = "nat (32 - pfx_bits p)"
  obtain v where v: "a = Addr4 v" "clear_low ?n v = clear_low ?n w" "take_bit ?n v = ucast h" "take_bit ?n h = h"
    using overlay_Addr_v4 [OF assms] .
  have n: "?n \<le> 32" using assms(3) by simp
  have bits: "pfx_bits p \<le> 32" using assms(1-3) by (auto simp: wf_prefix_def)
  have h0: "h \<noteq> 0" using assms(4) by (auto simp: overlay_Addr_def)
  show "prefix_contains p a"
    using v(1,2) assms(2,3) by (simp add: prefix_is_valid_def clear_low_eq_iff)
  have "(ucast h :: 32 word) \<noteq> 0"
    using ucast_inject_32 [of h 0 ?n] v(4) n h0 by auto
  then show "a \<noteq> network_addr p"
    using v(1,3) masked_addr4 [OF assms(2,3) bits] by (auto simp: network_addr_def)
  have "h \<noteq> mask ?n"
    using slot_below_mask_v4 [OF assms(2-4)] by auto
  then have "(ucast h :: 32 word) \<noteq> mask ?n"
    using ucast_inject_32 [of h "mask ?n" ?n] v(4) n by (auto simp: ucast_mask_32)
  then show "a \<noteq> broadcast_addr p"
    using v(1,3) masked_addr4 [OF assms(2,3) bits] by (auto simp: take_bit_or)
qed

lemma overlay_Addr_in_v6:
  assumes "wf_prefix p" and "pfx_addr p = Addr6 w ''''" and "0 \<le> pfx_bits p" and "overlay_Addr p h = Some a"
  shows "prefix_contains p a" and "a \<noteq> network_addr p" and "a \<noteq> broadcast_addr p"
proof -
  let ?n = "nat (128 - pfx_bits p)"
  obtain v where v: "a = Addr6 v ''''" "clear_low ?n v = clear_low ?n w" "take_bit ?n v = ucast h"
    using overlay_Addr_v6 [OF assms] .
  have bits: "pfx_bits p \<le> 128" using assms(1-3) by (auto simp: wf_prefix_def)
  have h0: "(ucast h :: 128 word) \<noteq> 0"
    using assms(4) ucast_inject_128 [of h 0] by (auto simp: overlay_Addr_def)
  show "prefix_contains p a"
    using v(1,2) assms(2,3) by (simp add: prefix_is_valid_def clear_low_eq_iff)
  show "a \<noteq> network_addr p"
    using v(1,3) h0 masked_addr6 [OF assms(2,3) bits] by (auto simp: network_addr_def)
  show "a \<noteq> broadcast_addr p"
    using v(1) masked_addr6 [OF assms(2,3) bits] by simp
qed

lemma overlay_Addr_in_network:
  assumes "wf_prefix p" and "prefix_is_valid p" and "overlay_Addr p h = Some a"
  shows "prefix_contains p a \<and> a \<noteq> network_addr p \<and> a \<noteq> broadcast_addr p"
  using assms(1)
proof (cases p rule: wf_prefix_cases)
  case invalid
  with assms(2) show ?thesis by simp
next
  case (v4 w)
  then show ?thesis using overlay_Addr_in_v4 [OF assms(1) _ _ assms(3)] by blast
next
  case (v6 w)
  then show ?thesis using overlay_Addr_in_v6 [OF assms(1) _ _ assms(3)] by blast
qed

lemma overlay_Addr_None: "overlay_Addr p h = None \<longleftrightarrow> h = 0 \<or> MaxHost p < h"
  by (simp add: overlay_Addr_def split: addr.splits)

text \<open>
  Slots and overlay addresses correspond one to one: in a valid network, different slots in
  range have different addresses, every address lies in the network, and neither the network
  address nor, for IPv4, the broadcast address is ever handed out; a slot outside the range has
  no address.
\<close>

theorem overlay_addresses:
  assumes "wf_prefix p" and "prefix_is_valid p"
  shows "(overlay_Addr p h = Some a \<and> overlay_Addr p h' = Some a \<longrightarrow> h = h') \<and>
    (overlay_Addr p h = Some a \<longrightarrow> prefix_contains p a \<and> a \<noteq> network_addr p \<and> a \<noteq> broadcast_addr p) \<and>
    (overlay_Addr p h = None \<longleftrightarrow> h = 0 \<or> MaxHost p < h)"
  using overlay_Addr_inject [OF assms(1)] overlay_Addr_in_network [OF assms] overlay_Addr_None by metis

lemma demo_overlay_Addr:
  "overlay_Addr (prefix_from (Addr4 0x0A000000) 8) 3 = Some (Addr4 0x0A000003)"
  "overlay_Addr (prefix_from (Addr4 0x0A000000) 8) 5 = Some (Addr4 0x0A000005)"
  by code_simp+

theorem overlay_addresses_witness:
  "overlay_Addr (prefix_from (Addr4 0x0A000000) 8) 5 = Some (Addr4 0x0A000005) \<and>
   prefix_contains (prefix_from (Addr4 0x0A000000) 8) (Addr4 0x0A000005)"
proof -
  let ?p = "prefix_from (Addr4 0x0A000000) 8"
  have "prefix_is_valid ?p" by (simp add: prefix_from_def prefix_is_valid_def)
  moreover have "overlay_Addr ?p 5 = Some (Addr4 0x0A000005)"
    by (rule demo_overlay_Addr)
  ultimately show ?thesis
    using overlay_addresses [of ?p 5 "Addr4 0x0A000005" 5] by simp
qed

end
