(* ===== verification/State_File.thy ===== *)
theory State_File
  imports Trust_Slots Overlay
begin

text \<open>
  The persisted state, \<^verbatim>\<open>internal/cluster/state.go\<close>: writing the file through a temporary one,
  reading it back, and the bootstrap a node starts from. A file system is a map from paths to
  contents. Every system call of \<^verbatim>\<open>save\<close> may fail, as the fields of \<open>save_faults\<close> say; what a
  reader can see while it runs, or find after a crash, is the list of file systems it goes
  through. The JSON codec of the state is a parameter.
\<close>

section \<open>State and file system\<close>

record pstate =
  st_Seed :: bytes
  st_Root :: "public_key option"
  st_OverlayNet :: prefix
  st_Records :: records
  st_Peers :: "node list"

definition empty_state :: pstate where
  "empty_state = \<lparr>st_Seed = [], st_Root = None, st_OverlayNet = no_prefix,
     st_Records = \<lparr>rs_Admissions = [], rs_Revocations = []\<rparr>, st_Peers = []\<rparr>"

record state_codec =
  enc_state :: "pstate \<Rightarrow> bytes option"
  dec_state :: "bytes \<Rightarrow> pstate option"

type_synonym files = "string \<Rightarrow> bytes option"

datatype state_error =
    MkdirFailed | StateEncoding | CreateTempFailed | StateWrite | StateSync | StateClose | RenameFailed
  | ReadingState | DecodingState | SavingIdentity state_error | NoIdentity identity_error | NoAdmission public_key
  | RemovingState

text \<open>\<^verbatim>\<open>filepath.Join\<close> is the parameter \<open>join\<close>.\<close>

definition statePath :: "(string \<Rightarrow> string \<Rightarrow> string) \<Rightarrow> string \<Rightarrow> string \<Rightarrow> string" where
  "statePath join dir name = join dir (name @ ''.json'')"

section \<open>Saving\<close>

text \<open>
  What the operating system answers: whether each call succeeds, the name \<^verbatim>\<open>CreateTemp\<close> chooses
  and how many bytes a failing write leaves.
\<close>

record save_faults =
  mkdir_ok :: bool
  temp_name :: "string option"
  written :: nat
  write_ok :: bool
  sync_ok :: bool
  close_ok :: bool
  rename_ok :: bool
  temp_removed :: bool

text \<open>\<^verbatim>\<open>replace\<close> is \<^verbatim>\<open>os.Rename\<close>.\<close>

definition replace :: "string \<Rightarrow> string \<Rightarrow> files \<Rightarrow> files" where
  "replace tmp dst fs = fs(dst := fs tmp, tmp := None)"

text \<open>
  \<^verbatim>\<open>save\<close>: the file systems it goes through, the first one included, and the error. The deferred
  removal of the temporary file is the last step of every path on which it was created, and its own
  error is ignored; after the rename there is nothing left to remove.
\<close>

definition state_save :: "state_codec \<Rightarrow> save_faults \<Rightarrow> pstate \<Rightarrow> string \<Rightarrow> files \<Rightarrow> files list \<times> state_error option" where
  "state_save J f s path fs =
     (if \<not> mkdir_ok f then ([fs], Some MkdirFailed)
      else
        (case enc_state J s of
           None \<Rightarrow> ([fs], Some StateEncoding)
         | Some out \<Rightarrow>
             (case temp_name f of
                None \<Rightarrow> ([fs], Some CreateTempFailed)
              | Some tmp \<Rightarrow>
                  (let fs0 = fs(tmp \<mapsto> []);
                       fs1 = fs0(tmp \<mapsto> if write_ok f then out else take (written f) out);
                       gone = (\<lambda>g :: files. if temp_removed f then g(tmp := None) else g)
                   in
                     if \<not> write_ok f then ([fs, fs0, fs1, gone fs1], Some StateWrite)
                     else if \<not> sync_ok f then ([fs, fs0, fs1, gone fs1], Some StateSync)
                     else if \<not> close_ok f then ([fs, fs0, fs1, gone fs1], Some StateClose)
                     else if \<not> rename_ok f then ([fs, fs0, fs1, gone fs1], Some RenameFailed)
                     else ([fs, fs0, fs1, replace tmp path fs1, gone (replace tmp path fs1)], None)))))"

section \<open>Loading\<close>

text \<open>\<^verbatim>\<open>readFile\<close> of a file that is there may fail: \<open>read_ok\<close>.\<close>

definition loadState :: "state_codec \<Rightarrow> bool \<Rightarrow> string \<Rightarrow> files \<Rightarrow> state_error + pstate" where
  "loadState J read_ok path fs =
     (case fs path of
        None \<Rightarrow> Inr empty_state
      | Some content \<Rightarrow>
          if \<not> read_ok then Inl ReadingState
          else (case dec_state J content of None \<Rightarrow> Inl DecodingState | Some s \<Rightarrow> Inr s))"

definition KnownNodes :: "state_codec \<Rightarrow> bool \<Rightarrow> string \<Rightarrow> files \<Rightarrow> node list" where
  "KnownNodes J read_ok path fs = (case loadState J read_ok path fs of Inl _ \<Rightarrow> [] | Inr st \<Rightarrow> st_Peers st)"

definition KnownOverlayNet :: "state_codec \<Rightarrow> bool \<Rightarrow> string \<Rightarrow> files \<Rightarrow> prefix option" where
  "KnownOverlayNet J read_ok path fs =
     (case loadState J read_ok path fs of
        Inl _ \<Rightarrow> None
      | Inr st \<Rightarrow> if \<not> prefix_is_valid (st_OverlayNet st) then None else Some (st_OverlayNet st))"

definition LocalIdentity :: "ed25519 \<Rightarrow> state_codec \<Rightarrow> bool \<Rightarrow> string \<Rightarrow> files \<Rightarrow> public_key option" where
  "LocalIdentity C J read_ok path fs =
     (case loadState J read_ok path fs of
        Inl _ \<Rightarrow> None
      | Inr st \<Rightarrow>
          if st_Seed st = [] then None
          else (case IdentityFromSeed C (st_Seed st) of Inl _ \<Rightarrow> None | Inr i \<Rightarrow> Some (id_Public C i)))"

definition Forget :: "bool \<Rightarrow> string \<Rightarrow> files \<Rightarrow> files \<times> state_error option" where
  "Forget remove_ok path fs =
     (if fs path = None then (fs, None)
      else if \<not> remove_ok then (fs, Some RemovingState)
      else (fs(path := None), None))"

section \<open>Bootstrap\<close>

record bootstrap =
  boot_Identity :: identity
  boot_Root :: public_key
  boot_OverlayNet :: prefix
  boot_Records :: records
  boot_Peers :: "node list"

definition Enrolled :: "bootstrap \<Rightarrow> bool" where
  "Enrolled b \<longleftrightarrow> boot_Root b \<noteq> 0"

definition boot_state :: "bootstrap \<Rightarrow> pstate" where
  "boot_state b =
     \<lparr>st_Seed = id_Seed (boot_Identity b), st_Root = (if Enrolled b then Some (boot_Root b) else None),
      st_OverlayNet = boot_OverlayNet b, st_Records = boot_Records b, st_Peers = boot_Peers b\<rparr>"

definition boot_save :: "state_codec \<Rightarrow> save_faults \<Rightarrow> bootstrap \<Rightarrow> string \<Rightarrow> files \<Rightarrow> files list \<times> state_error option" where
  "boot_save J f b path fs = state_save J f (boot_state b) path fs"

definition boot_of :: "identity \<Rightarrow> pstate \<Rightarrow> bootstrap" where
  "boot_of i st =
     \<lparr>boot_Identity = i, boot_Root = (case st_Root st of None \<Rightarrow> 0 | Some r \<Rightarrow> r), boot_OverlayNet = st_OverlayNet st,
      boot_Records = st_Records st, boot_Peers = st_Peers st\<rparr>"

text \<open>\<^verbatim>\<open>Load\<close> generates and saves an identity if there is none; then it reads the seed in either case.\<close>

definition Load ::
  "ed25519 \<Rightarrow> state_codec \<Rightarrow> (nat \<Rightarrow> bytes option) \<Rightarrow> save_faults \<Rightarrow> bool \<Rightarrow> string \<Rightarrow> files \<Rightarrow> files \<times> (state_error + bootstrap)" where
  "Load C J rand f read_ok path fs =
     (case loadState J read_ok path fs of
        Inl err \<Rightarrow> (fs, Inl err)
      | Inr st \<Rightarrow>
          if st_Seed st = [] then
            (case NewIdentity C rand of
               Inl err \<Rightarrow> (fs, Inl (NoIdentity err))
             | Inr i \<Rightarrow>
                 (let st' = empty_state\<lparr>st_Seed := id_Seed i\<rparr> in
                  case state_save J f st' path fs of
                    (trace, Some err) \<Rightarrow> (last trace, Inl (SavingIdentity err))
                  | (trace, None) \<Rightarrow>
                      (last trace,
                       case IdentityFromSeed C (st_Seed st') of
                         Inl err \<Rightarrow> Inl (NoIdentity err)
                       | Inr i' \<Rightarrow> Inr (boot_of i' st'))))
          else
            (fs,
             case IdentityFromSeed C (st_Seed st) of
               Inl err \<Rightarrow> Inl (NoIdentity err)
             | Inr i \<Rightarrow> Inr (boot_of i st)))"

definition boot_Host :: "ed25519 \<Rightarrow> bootstrap \<Rightarrow> state_error + uint64" where
  "boot_Host C b =
     (case List.find (\<lambda>a. adm_Identity a = id_Public C (boot_Identity b)) (rs_Admissions (boot_Records b)) of
        Some a \<Rightarrow> Inr (adm_Host a)
      | None \<Rightarrow> Inl (NoAdmission (id_Public C (boot_Identity b))))"

definition InitRoot :: "ed25519 \<Rightarrow> bootstrap \<Rightarrow> string \<Rightarrow> int64 \<Rightarrow> bootstrap" where
  "InitRoot C b nodeName now =
     b\<lparr>boot_Root := id_Public C (boot_Identity b),
       boot_Records := \<lparr>rs_Admissions = [SelfAdmit C (boot_Identity b) nodeName now], rs_Revocations = []\<rparr>,
       boot_Peers := []\<rparr>"

definition boot_Enrol :: "bootstrap \<Rightarrow> public_key \<Rightarrow> records \<Rightarrow> prefix \<Rightarrow> bootstrap" where
  "boot_Enrol b root records overlayNet =
     b\<lparr>boot_Root := root, boot_Records := records, boot_OverlayNet := overlayNet, boot_Peers := []\<rparr>"

section \<open>Saving is atomic\<close>

text \<open>\<^verbatim>\<open>CreateTemp\<close> creates a file that was not there; its name extends the state file's.\<close>

definition fresh_temp :: "save_faults \<Rightarrow> string \<Rightarrow> files \<Rightarrow> bool" where
  "fresh_temp f path fs \<longleftrightarrow> (\<forall>tmp. temp_name f = Some tmp \<longrightarrow> tmp \<noteq> path \<and> fs tmp = None)"

lemma state_save_last:
  assumes "fresh_temp f path fs" and "state_save J f s path fs = (trace, err)"
  shows "err = None \<Longrightarrow> \<exists>out. enc_state J s = Some out \<and> last trace = fs(path \<mapsto> out)"
    and "err \<noteq> None \<Longrightarrow> temp_name f \<noteq> Some p \<Longrightarrow> last trace p = fs p"
    and "err \<noteq> None \<Longrightarrow> temp_removed f \<Longrightarrow> last trace = fs"
  using assms
  by (auto simp: state_save_def fresh_temp_def replace_def Let_def fun_eq_iff split: if_splits option.splits)

lemma state_save_trace:
  assumes "fresh_temp f path fs" and "state_save J f s path fs = (trace, err)" and "g \<in> set trace"
  shows "g path = fs path \<or> (\<exists>out. enc_state J s = Some out \<and> g path = Some out)"
    and "p \<noteq> path \<Longrightarrow> temp_name f \<noteq> Some p \<Longrightarrow> g p = fs p"
  using assms by (auto simp: state_save_def fresh_temp_def replace_def Let_def split: if_splits option.splits)

text \<open>
  C12. Saving the state is atomic: at every moment while it is written, and so after a crash at
  any moment, the state file holds either what it held before or the complete new state, and no file
  is touched but it and the temporary one; if saving succeeds it holds the new state and the temporary
  file is gone; if it fails, at whichever step, every file but the temporary one is as it was, and the
  temporary one is gone too unless the system refuses to remove it.
\<close>

theorem save_atomic:
  assumes "fresh_temp f path fs" and "state_save J f s path fs = (trace, err)"
  shows "(\<forall>g \<in> set trace. (g path = fs path \<or> (\<exists>out. enc_state J s = Some out \<and> g path = Some out)) \<and>
      (\<forall>p. p \<noteq> path \<longrightarrow> temp_name f \<noteq> Some p \<longrightarrow> g p = fs p)) \<and>
    (case err of
       None \<Rightarrow> \<exists>out. enc_state J s = Some out \<and> last trace = fs(path \<mapsto> out)
     | Some _ \<Rightarrow> (\<forall>p. temp_name f \<noteq> Some p \<longrightarrow> last trace p = fs p) \<and> (temp_removed f \<longrightarrow> last trace = fs))"
  using state_save_trace [OF assms] state_save_last [OF assms] by (auto split: option.splits)

section \<open>What is saved is loaded\<close>

definition state_carried :: "state_codec \<Rightarrow> pstate \<Rightarrow> bool" where
  "state_carried J s \<longleftrightarrow> (\<exists>out. enc_state J s = Some out \<and> dec_state J out = Some s)"

lemma saved_is_loaded:
  assumes "fresh_temp f path fs" and "state_carried J s" and "state_save J f s path fs = (trace, None)"
  shows "loadState J True path (last trace) = Inr s"
  using state_save_last(1) [OF assms(1,3)] assms(2) by (auto simp: loadState_def state_carried_def)

lemma IdentityFromSeed_seed: "wf_identity C i \<Longrightarrow> IdentityFromSeed C (id_Seed i) = Inr i"
  by (cases i) (simp add: IdentityFromSeed_def wf_identity_def id_Seed_def)

lemma wf_identity_seed: "wf_identity C i \<Longrightarrow> id_Seed i \<noteq> []"
  by (auto simp: wf_identity_def id_Seed_def seedLen_def)

lemma boot_of_state: "boot_of (boot_Identity b) (boot_state b) = b"
  by (cases b) (simp add: boot_of_def boot_state_def Enrolled_def)

lemma saved_boot_loaded:
  assumes "wf_identity C (boot_Identity b)" and "fresh_temp f path fs" and "state_carried J (boot_state b)"
    and "boot_save J f b path fs = (trace, None)"
  shows "Load C J rand f' True path (last trace) = (last trace, Inr b)"
proof -
  have "loadState J True path (last trace) = Inr (boot_state b)"
    using saved_is_loaded assms(2-4) by (simp add: boot_save_def)
  moreover have "st_Seed (boot_state b) = id_Seed (boot_Identity b)" by (simp add: boot_state_def)
  ultimately show ?thesis
    using wf_identity_seed [OF assms(1)] IdentityFromSeed_seed [OF assms(1)] by (simp add: Load_def boot_of_state)
qed

text \<open>
  A restart loses nothing: loading what was saved gives back the same bootstrap, its identity
  with the signing key, the pinned root or its absence, the overlay network, the records and the
  peers, and leaves the file as it is.
\<close>

theorem boot_round_trip:
  assumes "wf_identity C (boot_Identity b)" and "fresh_temp f path fs" and "state_carried J (boot_state b)"
    and "boot_save J f b path fs = (trace, None)"
  shows "Load C J rand f' True path (last trace) = (last trace, Inr b)"
  using assms by (rule saved_boot_loaded)

lemma Load_again:
  assumes "fresh_temp f path fs" and "\<forall>seed. state_carried J (empty_state\<lparr>st_Seed := seed\<rparr>)" and "Load C J rand f read_ok path fs = (fs', Inr b)"
  shows "Load C J rand' f' True path fs' = (fs', Inr b) \<and> wf_identity C (boot_Identity b)"
proof (cases "loadState J read_ok path fs")
  case (Inl e)
  with assms(3) show ?thesis by (simp add: Load_def)
next
  case (Inr st)
  show ?thesis
  proof (cases "st_Seed st = []")
    case True
    with assms(3) Inr obtain i trace where i: "NewIdentity C rand = Inr i"
      and tr: "state_save J f (empty_state\<lparr>st_Seed := id_Seed i\<rparr>) path fs = (trace, None)" "fs' = last trace"
      and b: "IdentityFromSeed C (id_Seed i) = Inr (boot_Identity b)" "b = boot_of (boot_Identity b) (empty_state\<lparr>st_Seed := id_Seed i\<rparr>)"
      by (auto simp: Load_def Let_def boot_of_def split: sum.splits prod.splits option.splits)
    have wf: "wf_identity C i" using i by (auto simp: NewIdentity_def split: option.splits intro: wf_intros)
    have "loadState J True path fs' = Inr (empty_state\<lparr>st_Seed := id_Seed i\<rparr>)"
      using saved_is_loaded [OF assms(1) _ tr(1)] assms(2) tr(2) by simp
    then show ?thesis
      using b wf_identity_seed [OF wf] IdentityFromSeed_wf [OF b(1)] by (simp add: Load_def)
  next
    case False
    with assms(3) Inr have "fs' = fs" and b: "IdentityFromSeed C (st_Seed st) = Inr (boot_Identity b)" "b = boot_of (boot_Identity b) st"
      by (auto simp: Load_def boot_of_def split: sum.splits)
    moreover have "loadState J True path fs = Inr st"
      using Inr by (auto simp: loadState_def split: option.splits if_splits)
    ultimately show ?thesis using False IdentityFromSeed_wf [OF b(1)] by (simp add: Load_def)
  qed
qed

text \<open>
  C13. A node gets one identity and keeps it: a start that succeeds, be it the first one, which
  generates an identity and saves it before anything else, or a later one, leaves a state file in which
  every next start finds the same identity and bootstrap. A state file that is there but cannot be read
  or decoded, or whose seed is not one, is an error and every file stays as it is, so damage of this
  kind is never mistaken for a first start; a file with a seed is never written. (A file that decodes
  to a state without a seed counts as a first start.)
\<close>

theorem identity_is_kept:
  assumes "fresh_temp f path fs" and "\<forall>seed. state_carried J (empty_state\<lparr>st_Seed := seed\<rparr>)"
  shows "(\<forall>fs' b rand' f'. Load C J rand f read_ok path fs = (fs', Inr b) \<longrightarrow>
      Load C J rand' f' True path fs' = (fs', Inr b) \<and> wf_identity C (boot_Identity b)) \<and>
    (\<forall>content. fs path = Some content \<and> (\<not> read_ok \<or> dec_state J content = None) \<longrightarrow>
      (\<exists>e. Load C J rand f read_ok path fs = (fs, Inl e))) \<and>
    (\<forall>content st. fs path = Some content \<and> read_ok \<and> dec_state J content = Some st \<and> st_Seed st \<noteq> [] \<longrightarrow>
      (case IdentityFromSeed C (st_Seed st) of
         Inl e \<Rightarrow> Load C J rand f read_ok path fs = (fs, Inl (NoIdentity e))
       | Inr i \<Rightarrow> \<exists>b. Load C J rand f read_ok path fs = (fs, Inr b) \<and> boot_Identity b = i))"
proof (intro conjI allI impI)
  fix content assume "fs path = Some content \<and> (\<not> read_ok \<or> dec_state J content = None)"
  then show "\<exists>e. Load C J rand f read_ok path fs = (fs, Inl e)" by (auto simp: Load_def loadState_def)
next
  fix content st assume "fs path = Some content \<and> read_ok \<and> dec_state J content = Some st \<and> st_Seed st \<noteq> []"
  then show "case IdentityFromSeed C (st_Seed st) of
      Inl e \<Rightarrow> Load C J rand f read_ok path fs = (fs, Inl (NoIdentity e))
    | Inr i \<Rightarrow> \<exists>b. Load C J rand f read_ok path fs = (fs, Inr b) \<and> boot_Identity b = i"
    by (auto simp: Load_def loadState_def boot_of_def split: sum.split)
qed (use Load_again [OF assms] in auto)

section \<open>A concrete codec\<close>

text \<open>It keeps the seed only, which is all there is in the states of the witnesses.\<close>

definition demo_codec :: state_codec where
  "demo_codec = \<lparr>enc_state = (\<lambda>s. Some (st_Seed s)), dec_state = (\<lambda>b. Some (empty_state\<lparr>st_Seed := b\<rparr>))\<rparr>"

definition demo_faults :: "bool \<Rightarrow> save_faults" where
  "demo_faults ok = \<lparr>mkdir_ok = True, temp_name = Some ''t'', written = 5, write_ok = ok, sync_ok = True, close_ok = True, rename_ok = True, temp_removed = True\<rparr>"

definition demo_boot :: bootstrap where
  "demo_boot = boot_of (demo_identity 7) (empty_state\<lparr>st_Seed := id_Seed (demo_identity 7)\<rparr>)"

lemma demo_fresh: "fs ''t'' = None \<Longrightarrow> fresh_temp (demo_faults ok) ''p'' fs"
  by (simp add: fresh_temp_def demo_faults_def)

lemma demo_carried: "state_carried demo_codec (empty_state\<lparr>st_Seed := seed\<rparr>)"
  by (simp add: state_carried_def demo_codec_def)

lemma demo_boot_state: "boot_state demo_boot = empty_state\<lparr>st_Seed := id_Seed (demo_identity 7)\<rparr>"
  by (simp add: demo_boot_def boot_state_def boot_of_def empty_state_def Enrolled_def)

theorem save_atomic_witness:
  "last (fst (state_save demo_codec (demo_faults False) (empty_state\<lparr>st_Seed := replicate 32 1\<rparr>) ''p'' [''p'' \<mapsto> [7]])) = [''p'' \<mapsto> [7]]"
  using save_atomic [OF demo_fresh surjective_pairing, of "[''p'' \<mapsto> [7]]" demo_codec False "empty_state\<lparr>st_Seed := replicate 32 1\<rparr>"]
  by (simp add: state_save_def demo_faults_def demo_codec_def Let_def)

lemma demo_save_ok: "snd (state_save demo_codec (demo_faults True) s path fs) = None"
  by (simp add: state_save_def demo_faults_def demo_codec_def Let_def)

theorem boot_round_trip_witness:
  "\<exists>fs. Load demo_ed25519 demo_codec (\<lambda>_. None) (demo_faults False) True ''p'' fs = (fs, Inr demo_boot)"
proof -
  let ?r = "boot_save demo_codec (demo_faults True) demo_boot ''p'' Map.empty"
  have "?r = (fst ?r, None)" using demo_save_ok by (simp add: boot_save_def prod_eq_iff)
  moreover have "wf_identity demo_ed25519 (boot_Identity demo_boot)" by (simp add: demo_boot_def boot_of_def)
  moreover have "fresh_temp (demo_faults True) ''p'' Map.empty" by (rule demo_fresh) simp
  moreover have "state_carried demo_codec (boot_state demo_boot)" by (simp only: demo_boot_state demo_carried)
  ultimately show ?thesis using boot_round_trip [of demo_ed25519 demo_boot "demo_faults True"] by blast
qed

theorem identity_is_kept_witness:
  "let r = Load demo_ed25519 demo_codec (\<lambda>n. Some (replicate n 9)) (demo_faults True) True ''p'' Map.empty in
   \<exists>b. snd r = Inr b \<and> Load demo_ed25519 demo_codec (\<lambda>n. None) (demo_faults False) True ''p'' (fst r) = (fst r, Inr b)"
proof -
  let ?r = "Load demo_ed25519 demo_codec (\<lambda>n. Some (replicate n 9)) (demo_faults True) True ''p'' Map.empty"
  have "\<exists>b. snd ?r = Inr b"
    by (simp add: Load_def loadState_def empty_state_def NewIdentity_def IdentityFromSeed_def seedLen_def id_Seed_def
        state_save_def demo_faults_def demo_codec_def Let_def del: replicate.simps)
  then obtain b where b: "?r = (fst ?r, Inr b)" by (metis prod.collapse)
  have "fresh_temp (demo_faults True) ''p'' Map.empty" by (rule demo_fresh) simp
  moreover have "\<forall>seed. state_carried demo_codec (empty_state\<lparr>st_Seed := seed\<rparr>)" by (simp add: demo_carried)
  ultimately have "Load demo_ed25519 demo_codec (\<lambda>n. None) (demo_faults False) True ''p'' (fst ?r) = (fst ?r, Inr b)"
    using identity_is_kept [of "demo_faults True" "''p''" Map.empty demo_codec demo_ed25519 "\<lambda>n. Some (replicate n 9)" True] b by blast
  moreover have "snd ?r = Inr b" by (subst b) simp
  ultimately show ?thesis unfolding Let_def by blast
qed

section \<open>The first node\<close>

text \<open>
  A node that makes itself the root of a new cluster is a member of it: its records give a
  set in which it is valid, its own slot is 1, and it counts as enrolled.
\<close>

theorem InitRoot_is_member:
  assumes "ed25519_correct C" and "wf_identity C (boot_Identity b)" and "nodeName \<noteq> ''''"
    and "id_Public C (boot_Identity b) \<noteq> 0" and "b' = InitRoot C b nodeName now"
  shows "snd (Valid (fst (Merge C (NewSet (boot_Root b')) (boot_Records b'))) (id_Public C (boot_Identity b'))) \<and>
    Lookup (fst (Merge C (NewSet (boot_Root b')) (boot_Records b'))) (id_Public C (boot_Identity b')) =
      Some (SelfAdmit C (boot_Identity b) nodeName now) \<and>
    boot_Host C b' = Inr rootHost \<and> Enrolled b'"
proof -
  let ?k = "id_Public C (boot_Identity b)" and ?a = "SelfAdmit C (boot_Identity b) nodeName now"
  have b': "boot_Root b' = ?k" "boot_Records b' = \<lparr>rs_Admissions = [?a], rs_Revocations = []\<rparr>" "boot_Identity b' = boot_Identity b"
    using assms(5) by (simp_all add: InitRoot_def)
  let ?s = "fst (Merge C (NewSet ?k) (boot_Records b'))"
  have acc: "accepts_admission C ?k ?a"
    using Admit_Validate [OF assms(1,2)] assms(3) by (simp add: accepts_admission_def SelfAdmit_def rootHost_def)
  have "map_of (set_revocations ?s) ?k = None" and "set_root ?s = ?k" and "map_of (set_admissions ?s) ?k = Some ?a"
    using acc by (simp_all add: Merge_absorb b' absorb_all_def absorb_def NewSet_def)
  moreover from this have "valid ?s ?k" using validAt_root [of ?s MaxInt64 "{}"] by (simp add: valid_def withdrawn_def)
  moreover have "wf_set C ?s" by (intro wf_intros)
  ultimately show ?thesis
    using b' assms(4) valid_by by (simp add: boot_Host_def Enrolled_def Lookup_def)
qed

theorem InitRoot_is_member_witness:
  "boot_Host demo_ed25519 (InitRoot demo_ed25519 demo_boot ''a'' 100) = Inr 1"
  using InitRoot_is_member [of demo_ed25519 demo_boot "''a''" _ 100, OF demo_ed25519_correct _ _ _ refl]
  by (simp add: demo_boot_def boot_of_def rootHost_def)

end
