(* ===== verification/Token.thy ===== *)
theory Token
  imports Base_Encoding
begin

text \<open>
  Enrolment tokens, \<^verbatim>\<open>internal/enrol/token.go\<close>: their printable form and the store of pending
  invitations. SHA-256 is a parameter, the random source and the clock are arguments; a time is
  a number of nanoseconds. The lemmas show that a printed token is read back whatever its case
  and the space around it, and that a token is spent exactly as often as it was minted for,
  before it expires.
\<close>

definition tokenLen :: nat where
  "tokenLen = 32"

definition tokenIDLen :: nat where
  "tokenIDLen = 8"

type_synonym tokenID = bytes

definition idOf :: "(bytes \<Rightarrow> bytes) \<Rightarrow> bytes \<Rightarrow> tokenID" where
  "idOf sha256 key = take tokenIDLen (sha256 key)"

section \<open>Printable form\<close>

text \<open>
  \<^verbatim>\<open>strings.ToLower\<close>, \<^verbatim>\<open>strings.ToUpper\<close> and \<^verbatim>\<open>strings.TrimSpace\<close> on ASCII text. A string with a
  byte above 127 is UTF-8 to them and is normalised by the Unicode tables, the parameter \<open>uni\<close>.
\<close>

definition ascii_upper :: "char \<Rightarrow> char" where
  "ascii_upper c = (if CHR ''a'' \<le> c \<and> c \<le> CHR ''z'' then char_of (of_char c - 32 :: nat) else c)"

definition ascii_lower :: "char \<Rightarrow> char" where
  "ascii_lower c = (if CHR ''A'' \<le> c \<and> c \<le> CHR ''Z'' then char_of (of_char c + 32 :: nat) else c)"

definition ascii_space :: "char \<Rightarrow> bool" where
  "ascii_space c \<longleftrightarrow> c \<in> {CHR 0x09, CHR 0x0A, CHR 0x0B, CHR 0x0C, CHR 0x0D, CHR 0x20}"

definition ascii_trim :: "string \<Rightarrow> string" where
  "ascii_trim s = rev (dropWhile ascii_space (rev (dropWhile ascii_space s)))"

definition is_ascii :: "string \<Rightarrow> bool" where
  "is_ascii s \<longleftrightarrow> list_all (\<lambda>c. of_char c < (128 :: nat)) s"

definition encodeToken :: "bytes \<Rightarrow> string" where
  "encodeToken key = map ascii_lower (b32_encode key)"

datatype token_error =
    JoinKeyEncoding
  | JoinKeyLength nat nat
  | TTLOrUses
  | TokenRandomSource

definition decodeToken :: "(string \<Rightarrow> string) \<Rightarrow> string \<Rightarrow> token_error + bytes" where
  "decodeToken uni s =
     (case b32_decode (if is_ascii s then map ascii_upper (ascii_trim s) else uni s) of
        None \<Rightarrow> Inl JoinKeyEncoding
      | Some key \<Rightarrow>
          if length key \<noteq> tokenLen then Inl (JoinKeyLength tokenLen (length key)) else Inr key)"

section \<open>The store\<close>

record token =
  tok_key :: bytes
  tok_expires :: int
  tok_uses :: int

type_synonym token_store = "(tokenID \<times> token) list"

definition NewTokenStore :: token_store where
  "NewTokenStore = []"

definition tokens_gc :: "int \<Rightarrow> token_store \<Rightarrow> token_store" where
  "tokens_gc now s = filter (\<lambda>(tid, t). now < tok_expires t) s"

definition Mint ::
  "(bytes \<Rightarrow> bytes) \<Rightarrow> (nat \<Rightarrow> bytes option) \<Rightarrow> int \<Rightarrow> token_store \<Rightarrow> int \<Rightarrow> int \<Rightarrow> token_store \<times> (token_error + string)" where
  "Mint sha256 rand now s ttl uses =
     (if ttl \<le> 0 \<or> uses \<le> 0 then (s, Inl TTLOrUses)
      else
        (case rand tokenLen of
           None \<Rightarrow> (s, Inl TokenRandomSource)
         | Some key \<Rightarrow>
             (AList.update (idOf sha256 key) \<lparr>tok_key = key, tok_expires = now + ttl, tok_uses = uses\<rparr> (tokens_gc now s),
              Inr (encodeToken key))))"

definition token_lookup :: "int \<Rightarrow> token_store \<Rightarrow> tokenID \<Rightarrow> token_store \<times> bytes option" where
  "token_lookup now s tid =
     (let s' = tokens_gc now s in
      (s', case map_of s' tid of None \<Rightarrow> None | Some t \<Rightarrow> Some (tok_key t)))"

definition token_consume :: "int \<Rightarrow> token_store \<Rightarrow> tokenID \<Rightarrow> token_store \<times> bool" where
  "token_consume now s tid =
     (case map_of s tid of
        None \<Rightarrow> (s, False)
      | Some t \<Rightarrow>
          if \<not> now < tok_expires t then (s, False)
          else
            (let t' = t\<lparr>tok_uses := tok_uses t - 1\<rparr>; s' = AList.update tid t' s in
             (if tok_uses t' \<le> 0 then AList.delete tid s' else s', True)))"

section \<open>Printing and reading\<close>

lemma b32_alphabet_case:
  "\<forall>c \<in> set b32_alphabet. ascii_upper (ascii_lower c) = c \<and> ascii_upper c = c \<and>
     of_char c < (128 :: nat) \<and> \<not> ascii_space c \<and> ascii_lower c \<noteq> CHR ''-''"
  unfolding b32_alphabet_def by code_simp

lemma b32_case_variant:
  assumes "ascii_upper c \<in> set b32_alphabet"
  shows "of_char c < (128 :: nat)" and "\<not> ascii_space c"
proof -
  have "of_char c < (128 :: nat) \<and> \<not> ascii_space c"
  proof (cases "CHR ''a'' \<le> c \<and> c \<le> CHR ''z''")
    case True
    then show ?thesis by (auto simp: ascii_space_def less_eq_char_def of_char_Char)
  next
    case False
    then have "ascii_upper c = c" by (auto simp: ascii_upper_def)
    with assms b32_alphabet_case show ?thesis by auto
  qed
  then show "of_char c < (128 :: nat)" and "\<not> ascii_space c" by blast+
qed

lemma ascii_space_ascii: "ascii_space c \<Longrightarrow> of_char c < (128 :: nat)"
  by (auto simp: ascii_space_def of_char_Char)

lemma ascii_trim_around:
  assumes "\<forall>c \<in> set pre \<union> set post. ascii_space c" and "\<forall>c \<in> set s. \<not> ascii_space c"
  shows "ascii_trim (pre @ s @ post) = s"
proof (cases s)
  case Nil
  then show ?thesis using assms(1) by (auto simp: ascii_trim_def dropWhile_append dest: set_dropWhileD)
next
  case (Cons c cs)
  have "dropWhile ascii_space (pre @ s @ post) = s @ post"
    using assms Cons by (simp add: dropWhile_append)
  moreover have "dropWhile ascii_space (rev post @ rev s) = rev s"
    using assms by (cases "rev s") (auto simp: dropWhile_append)
  ultimately show ?thesis by (simp add: ascii_trim_def)
qed

lemma upper_encodeToken: "map ascii_upper (encodeToken key) = b32_encode key"
  using b32_alphabet_case b32_encode_chars [of _ key] by (auto simp: encodeToken_def map_idI)

lemma decodeToken_variant:
  assumes "length key = tokenLen" and "map ascii_upper s = map ascii_upper (encodeToken key)"
    and "\<forall>c \<in> set pre \<union> set post. ascii_space c"
  shows "decodeToken uni (pre @ s @ post) = Inr key"
proof -
  have chars: "ascii_upper c \<in> set b32_alphabet" if "c \<in> set s" for c
    using that assms(2) b32_encode_chars by (metis image_eqI image_set upper_encodeToken)
  then have "is_ascii (pre @ s @ post)"
    using assms(3) b32_case_variant(1) ascii_space_ascii by (auto simp: is_ascii_def list_all_iff)
  moreover have "ascii_trim (pre @ s @ post) = s"
    using assms(3) chars b32_case_variant(2) by (intro ascii_trim_around) auto
  ultimately show ?thesis
    using assms(1,2) by (simp add: decodeToken_def upper_encodeToken b32_decode_encode)
qed

lemma decodeToken_encodeToken: "length key = tokenLen \<Longrightarrow> decodeToken uni (encodeToken key) = Inr key"
  using decodeToken_variant [of key "encodeToken key" "[]" "[]"] by simp

text \<open>
  A printed token is read back from every copy of it that differs only in the case of its
  letters and the space around it, and it never starts with a dash, so it is never taken for a
  flag on a command line.
\<close>

theorem token_round_trip:
  assumes "length key = tokenLen" and "map ascii_upper s = map ascii_upper (encodeToken key)"
    and "\<forall>c \<in> set pre \<union> set post. ascii_space c"
  shows "decodeToken uni (pre @ s @ post) = Inr key \<and> take 1 (encodeToken key) \<noteq> ''-''"
proof -
  have "take 1 (encodeToken key) \<noteq> ''-''"
    using b32_alphabet_case b32_encode_chars [of _ key] by (cases "b32_encode key") (auto simp: encodeToken_def)
  then show ?thesis using decodeToken_variant [OF assms] by blast
qed

theorem token_round_trip_witness:
  "decodeToken (\<lambda>s. s) (CHR 0x20 # map ascii_upper (encodeToken (replicate 32 7)) @ [CHR 0x0A]) = Inr (replicate 32 7)"
proof -
  have "map ascii_upper (map ascii_upper s) = map ascii_upper s" for s
    by (induction s) (auto simp: ascii_upper_def less_eq_char_def of_char_Char)
  then show ?thesis
    using token_round_trip [of "replicate 32 7" "map ascii_upper (encodeToken (replicate 32 7))" "[CHR 0x20]" "[CHR 0x0A]" "\<lambda>s. s"]
    by (simp add: tokenLen_def ascii_space_def)
qed

section \<open>Spending tokens\<close>

definition wf_tokens :: "token_store \<Rightarrow> bool" where
  "wf_tokens s \<longleftrightarrow> go_map s \<and> (\<forall>(tid, t) \<in> set s. 0 < tok_uses t)"

lemma go_map_filter [simp]: "go_map s \<Longrightarrow> go_map (filter P s)"
  by (simp add: go_map_def distinct_map_filter)

lemma map_of_gc:
  "go_map s \<Longrightarrow> map_of (tokens_gc now s) tid =
    (case map_of s tid of None \<Rightarrow> None | Some t \<Rightarrow> if now < tok_expires t then Some t else None)"
proof -
  assume g: "go_map s"
  have "map_of (tokens_gc now s) tid = Some t \<longleftrightarrow> map_of s tid = Some t \<and> now < tok_expires t" for t
    unfolding tokens_gc_def go_map_entry [OF go_map_filter [OF g], symmetric] go_map_entry [OF g, symmetric] by simp
  then show ?thesis
    by (intro option_eqI) (auto split: option.splits)
qed

lemma wf_gc [wf_intros]: "wf_tokens s \<Longrightarrow> wf_tokens (tokens_gc now s)"
  by (auto simp: wf_tokens_def tokens_gc_def)

lemma wf_Mint [wf_intros]: "wf_tokens s \<Longrightarrow> wf_tokens (fst (Mint sha rand now s ttl uses))"
  using wf_gc [of s now] by (auto simp: Mint_def wf_tokens_def dest!: set_AList_update split: option.splits)

lemma wf_lookup [wf_intros]: "wf_tokens s \<Longrightarrow> wf_tokens (fst (token_lookup now s tid))"
  by (simp add: token_lookup_def Let_def wf_gc)

lemma set_AList_delete: "e \<in> set (AList.delete k m) \<Longrightarrow> e \<in> set m \<and> fst e \<noteq> k"
  by (auto simp: AList.delete_eq)

lemma wf_consume [wf_intros]: "wf_tokens s \<Longrightarrow> wf_tokens (fst (token_consume now s tid))"
  by (auto simp: token_consume_def wf_tokens_def Let_def dest!: set_AList_update set_AList_delete
      dest: map_of_SomeD split: option.splits)

text \<open>
  What members do with the store, each at a time of the clock: mint, look up, consume. \<open>spent\<close>
  counts the successful consumptions of one token in a sequence of operations.
\<close>

datatype token_op = OpMint "bytes option" int int | OpLookup tokenID | OpConsume tokenID

fun token_do :: "(bytes \<Rightarrow> bytes) \<Rightarrow> token_store \<Rightarrow> int \<times> token_op \<Rightarrow> token_store \<times> bool" where
  "token_do sha s (now, OpMint key ttl uses) = (fst (Mint sha (\<lambda>_. key) now s ttl uses), False)"
| "token_do sha s (now, OpLookup tid) = (fst (token_lookup now s tid), False)"
| "token_do sha s (now, OpConsume tid) = token_consume now s tid"

fun spent :: "(bytes \<Rightarrow> bytes) \<Rightarrow> tokenID \<Rightarrow> token_store \<Rightarrow> (int \<times> token_op) list \<Rightarrow> nat" where
  "spent sha tid s [] = 0"
| "spent sha tid s (op # ops) =
     (let (s', ok) = token_do sha s op in
      (if snd op = OpConsume tid \<and> ok then 1 else 0) + spent sha tid s' ops)"

definition remints :: "(bytes \<Rightarrow> bytes) \<Rightarrow> tokenID \<Rightarrow> token_op \<Rightarrow> bool" where
  "remints sha tid op \<longleftrightarrow> (case op of OpMint (Some key) ttl uses \<Rightarrow> idOf sha key = tid | _ \<Rightarrow> False)"

definition in_time :: "int \<Rightarrow> tokenID \<Rightarrow> (int \<times> token_op) list \<Rightarrow> nat" where
  "in_time expires tid ops = length (filter (\<lambda>(now, op). op = OpConsume tid \<and> now < expires) ops)"

text \<open>How one operation changes one token: only its own consumption and the clock do.\<close>

definition token_next :: "int \<Rightarrow> tokenID \<Rightarrow> token_op \<Rightarrow> token option \<Rightarrow> token option \<Rightarrow> bool" where
  "token_next now tid op t t' \<longleftrightarrow>
     (case t of
        None \<Rightarrow> t' = None
      | Some x \<Rightarrow>
          if op = OpConsume tid then
            (if now < tok_expires x then t' = (if tok_uses x \<le> 1 then None else Some (x\<lparr>tok_uses := tok_uses x - 1\<rparr>))
             else t' = Some x)
          else t' = Some x \<or> t' = None \<and> \<not> now < tok_expires x)"

lemma token_do_next:
  assumes "wf_tokens s" and "\<not> remints sha tid op"
  shows "token_next now tid op (map_of s tid) (map_of (fst (token_do sha s (now, op))) tid)"
    and "op = OpConsume tid \<Longrightarrow> snd (token_do sha s (now, op)) \<longleftrightarrow> (\<exists>t. map_of s tid = Some t \<and> now < tok_expires t)"
proof -
  have g: "go_map s" using assms(1) by (simp add: wf_tokens_def)
  show "token_next now tid op (map_of s tid) (map_of (fst (token_do sha s (now, op))) tid)"
    using assms(2)
    by (cases op) (auto simp: token_next_def Mint_def token_lookup_def token_consume_def remints_def Let_def map_of_gc [OF g]
        split: option.splits)
  show "op = OpConsume tid \<Longrightarrow> snd (token_do sha s (now, op)) \<longleftrightarrow> (\<exists>t. map_of s tid = Some t \<and> now < tok_expires t)"
    by (auto simp: token_consume_def Let_def split: option.splits)
qed

lemma token_do_wf [wf_intros]: "wf_tokens s \<Longrightarrow> wf_tokens (fst (token_do sha s op))"
  by (cases "(sha, s, op)" rule: token_do.cases) (auto intro: wf_intros)

lemma spent_Cons:
  "spent sha tid s ((now, op) # ops) =
    (if op = OpConsume tid \<and> snd (token_do sha s (now, op)) then 1 else 0) +
    spent sha tid (fst (token_do sha s (now, op))) ops"
  by (simp add: case_prod_beta)

lemma spent_unknown:
  assumes "wf_tokens s" and "\<forall>(now, op) \<in> set ops. \<not> remints sha tid op" and "map_of s tid = None"
  shows "spent sha tid s ops = 0"
  using assms
proof (induction ops arbitrary: s)
  case (Cons x ops)
  obtain now op where x: "x = (now, op)" by fastforce
  then have "map_of (fst (token_do sha s (now, op))) tid = None"
    using Cons.prems token_do_next(1) [of s sha tid op now] by (auto simp: token_next_def)
  with Cons x show ?case
    using token_do_next(2) [of s sha tid op now] by (auto simp: spent_Cons token_do_wf simp del: spent.simps(2))
qed simp

lemma spent_pending:
  assumes "wf_tokens s" and "\<forall>(now, op) \<in> set ops. \<not> remints sha tid op" and "sorted (map fst ops)"
    and "map_of s tid = Some t"
  shows "spent sha tid s ops = min (nat (tok_uses t)) (in_time (tok_expires t) tid ops)"
  using assms
proof (induction ops arbitrary: s t)
  case (Cons x ops)
  obtain now op where x: "x = (now, op)" by fastforce
  let ?s = "fst (token_do sha s (now, op))"
  have wf: "wf_tokens ?s" using Cons.prems(1) by (rule token_do_wf)
  note nxt = token_do_next [of s sha tid op now]
  have pos: "0 < tok_uses t" using Cons.prems(1,4) by (auto simp: wf_tokens_def dest!: map_of_SomeD)
  have rest: "spent sha tid ?s ops = 0" if "map_of ?s tid = None"
    using spent_unknown [OF wf _ that] Cons.prems(2) by auto
  have IH: "spent sha tid ?s ops = min (nat (tok_uses u)) (in_time (tok_expires u) tid ops)" if "map_of ?s tid = Some u" for u
    using Cons.IH [OF wf _ _ that] Cons.prems(2,3) by auto
  have late: "in_time (tok_expires t) tid ops = 0" if "\<not> now < tok_expires t"
    using that Cons.prems(3) x by (fastforce simp: in_time_def filter_empty_conv)
  consider (used) "op = OpConsume tid" "now < tok_expires t" | (expired) "op = OpConsume tid" "\<not> now < tok_expires t"
    | (other) "op \<noteq> OpConsume tid" by blast
  then show ?case
  proof cases
    case used
    then have "map_of ?s tid = (if tok_uses t \<le> 1 then None else Some (t\<lparr>tok_uses := tok_uses t - 1\<rparr>))"
      using nxt(1) Cons.prems x by (simp add: token_next_def)
    then show ?thesis
      using used nxt(2) Cons.prems pos x rest IH by (cases "tok_uses t \<le> 1") (auto simp: spent_Cons in_time_def simp del: spent.simps(2))
  next
    case expired
    then have "map_of ?s tid = Some t" using nxt(1) Cons.prems x by (simp add: token_next_def)
    then show ?thesis
      using expired nxt(2) Cons.prems x IH by (simp add: spent_Cons in_time_def del: spent.simps(2))
  next
    case other
    then have "map_of ?s tid = Some t \<or> map_of ?s tid = None \<and> \<not> now < tok_expires t"
      using nxt(1) Cons.prems x by (simp add: token_next_def)
    then show ?thesis
      using other x rest IH late by (auto simp: spent_Cons in_time_def simp del: spent.simps(2))
  qed
qed (simp add: in_time_def)

text \<open>
  C10. An invitation admits exactly as often as it was minted for and never after it expired:
  once a token is minted, whatever other minting, lookups and consumptions happen in the course
  of time, the number of successful consumptions of it is the smaller of its uses and the number
  of consumptions attempted before it expires. (No other token has its 64-bit identifier, and
  the clock does not go back.)
\<close>

theorem token_spent_exactly:
  assumes "wf_tokens s" and "rand tokenLen = Some key" and "Mint sha rand now s ttl uses = (s', Inr printed)"
    and "\<forall>(t, op) \<in> set ops. \<not> remints sha (idOf sha key) op" and "sorted (map fst ops)"
  shows "spent sha (idOf sha key) s' ops = min (nat uses) (in_time (now + ttl) (idOf sha key) ops)
    \<and> printed = encodeToken key"
proof -
  have "map_of s' (idOf sha key) = Some \<lparr>tok_key = key, tok_expires = now + ttl, tok_uses = uses\<rparr>"
    and "printed = encodeToken key"
    using assms(2,3) by (auto simp: Mint_def split: if_splits)
  moreover have "wf_tokens s'" using assms(1,3) wf_Mint by (metis fst_conv)
  ultimately show ?thesis using spent_pending assms(4,5) by fastforce
qed

theorem token_spent_exactly_witness:
  "let sha = (\<lambda>b. b); key = replicate 32 7; tid = replicate 8 7;
       s = fst (Mint sha (\<lambda>_. Some key) 0 NewTokenStore 100 2)
   in spent sha tid s [(1, OpConsume tid), (2, OpLookup tid), (3, OpConsume tid), (4, OpConsume tid)] = 2"
proof -
  let ?sha = "\<lambda>b. b" and ?key = "replicate 32 7 :: bytes" and ?tid = "replicate 8 7 :: bytes"
  let ?ops = "[(1, OpConsume ?tid), (2, OpLookup ?tid), (3, OpConsume ?tid), (4, OpConsume ?tid)]"
  let ?m = "Mint ?sha (\<lambda>_. Some ?key) 0 NewTokenStore 100 2"
  have id: "idOf ?sha ?key = ?tid" by (simp add: idOf_def tokenIDLen_def)
  have "wf_tokens NewTokenStore" by (simp add: wf_tokens_def NewTokenStore_def)
  moreover have "?m = (fst ?m, Inr (encodeToken ?key))" by (simp add: Mint_def)
  ultimately have "spent ?sha (idOf ?sha ?key) (fst ?m) ?ops = min (nat 2) (in_time (0 + 100) (idOf ?sha ?key) ?ops)"
    using token_spent_exactly [of NewTokenStore "\<lambda>_. Some ?key" ?key ?sha 0 100 2 "fst ?m" "encodeToken ?key" ?ops]
    by (simp add: remints_def)
  then show ?thesis by (simp add: id in_time_def Let_def)
qed

end
