(* ===== verification/Enrol_Protocol.thy ===== *)
theory Enrol_Protocol
  imports Trust_Merge Token
begin

text \<open>
  The enrolment exchange, \<^verbatim>\<open>internal/enrol/protocol.go\<close> and \<^verbatim>\<open>internal/enrol/server.go\<close>: framing,
  the key schedule, the member's side (\<^verbatim>\<open>handle\<close>) and the joiner's side (\<^verbatim>\<open>Join\<close>). A connection is
  the verified identity of its peer, the bytes that will arrive, the bytes sent and the room left
  to send; a peer that stops, a deadline and a broken connection are an input that ends early or
  room that runs out. SHA-256, HKDF, HMAC, the JSON codecs and the Unicode tables are the
  parameters \<open>L\<close>. The member's callbacks \<^verbatim>\<open>Admit\<close> and \<^verbatim>\<open>Records\<close> act on a state of their own,
  threaded through; the theory of the cluster supplies them. The token store is followed through one
  exchange: between looking a token up and counting a use of it the code lets other exchanges run,
  and the use is then counted on the store as they left it. How uses are counted over every
  sequence of look-ups and uses, of whichever exchanges, is the subject of the theory of tokens.
\<close>

section \<open>Messages\<close>

definition protocolVersion :: int where "protocolVersion = 4"

definition nonceLen :: nat where "nonceLen = 32"

definition maxFrame :: nat where "maxFrame = 2 ^ 20"

definition kdfInfo :: string where "kdfInfo = ''cheesecloth/enrol/v4''"

definition transcriptDomain :: string where "transcriptDomain = ''cheesecloth/enrol/transcript/v4''"

definition labelMember :: string where "labelMember = ''member''"

definition labelJoiner :: string where "labelJoiner = ''joiner''"

record hello =
  h_Version :: int
  h_TokenID :: bytes
  h_Identity :: public_key
  h_Nonce :: bytes
  h_Name :: string

record challenge =
  c_Identity :: public_key
  c_Nonce :: bytes
  c_MAC :: bytes

record proof_msg =
  p_MAC :: bytes

datatype ack = Ack

record welcome_msg =
  w_Root :: public_key
  w_Records :: records
  w_Admission :: admission
  w_GossipAddr :: string
  w_OverlayNet :: prefix
  w_Error :: string

section \<open>What the standard library provides\<close>

record enrol_lib =
  sha256 :: "bytes \<Rightarrow> bytes"
  hkdf_Key :: "bytes \<Rightarrow> bytes \<Rightarrow> string \<Rightarrow> nat \<Rightarrow> bytes"
  hmac_sum :: "bytes \<Rightarrow> bytes \<Rightarrow> bytes"
  unicode_norm :: "string \<Rightarrow> string"
  enc_hello :: "hello \<Rightarrow> bytes option"
  dec_hello :: "bytes \<Rightarrow> hello option"
  enc_challenge :: "challenge \<Rightarrow> bytes option"
  dec_challenge :: "bytes \<Rightarrow> challenge option"
  enc_proof :: "proof_msg \<Rightarrow> bytes option"
  dec_proof :: "bytes \<Rightarrow> proof_msg option"
  enc_ack :: "ack \<Rightarrow> bytes option"
  dec_ack :: "bytes \<Rightarrow> ack option"
  enc_welcome :: "welcome_msg \<Rightarrow> bytes option"
  dec_welcome :: "bytes \<Rightarrow> welcome_msg option"

definition deriveKey :: "enrol_lib \<Rightarrow> bytes \<Rightarrow> bytes \<Rightarrow> bytes \<Rightarrow> bytes" where
  "deriveKey L token nJ nM = hkdf_Key L token (nJ @ nM) kdfInfo 32"

definition transcript :: "public_key \<Rightarrow> public_key \<Rightarrow> bytes \<Rightarrow> bytes \<Rightarrow> string \<Rightarrow> bytes" where
  "transcript j m nJ nM name =
     Canonical transcriptDomain [key_bytes j, key_bytes m, nJ, nM, string_bytes name]"

definition mac :: "enrol_lib \<Rightarrow> bytes \<Rightarrow> string \<Rightarrow> bytes \<Rightarrow> bytes" where
  "mac L key label tr = hmac_sum L key (string_bytes label @ [0] @ tr)"

section \<open>Connections and frames\<close>

record conn =
  PeerIdentity :: public_key
  conn_in :: bytes
  conn_out :: bytes
  conn_room :: nat
  conn_closed :: bool

datatype enrol_error =
    FrameEncoding | FrameTooLarge | ReadFailed | FrameDecoding | WriteFailed
  | MalformedHello | ClaimedIdentity | Silent | NonceRandomSource | NoProof | TokenSpent
  | Refused string | RefusalNotSent string enrol_error | NotAcknowledged enrol_error
  | JoinKey token_error | MemberClosed enrol_error | MalformedChallenge | MemberNoProof
  | MemberRefused string | MemberNotValid | AdmissionForOther | AdmissionRejected trust_error | NotAMember

definition conn_write :: "conn \<Rightarrow> bytes \<Rightarrow> conn \<times> bool" where
  "conn_write c bs =
     (if length bs \<le> conn_room c
      then (c\<lparr>conn_out := conn_out c @ bs, conn_room := conn_room c - length bs\<rparr>, True)
      else (c\<lparr>conn_out := conn_out c @ take (conn_room c) bs, conn_room := 0\<rparr>, False))"

definition read_full :: "conn \<Rightarrow> nat \<Rightarrow> conn \<times> bytes option" where
  "read_full c n =
     (if length (conn_in c) < n then (c\<lparr>conn_in := []\<rparr>, None)
      else (c\<lparr>conn_in := drop n (conn_in c)\<rparr>, Some (take n (conn_in c))))"

definition writeFrame :: "('m \<Rightarrow> bytes option) \<Rightarrow> conn \<Rightarrow> 'm \<Rightarrow> conn \<times> enrol_error option" where
  "writeFrame enc c v =
     (case enc v of
        None \<Rightarrow> (c, Some FrameEncoding)
      | Some body \<Rightarrow>
          if maxFrame < length body then (c, Some FrameTooLarge)
          else
            (case conn_write c (be_bytes 4 (length body)) of
               (c', ok) \<Rightarrow>
                 if \<not> ok then (c', Some WriteFailed)
                 else
                   (case conn_write c' body of
                      (c'', ok') \<Rightarrow> (c'', if ok' then None else Some WriteFailed))))"

definition readFrame :: "(bytes \<Rightarrow> 'm option) \<Rightarrow> conn \<Rightarrow> conn \<times> (enrol_error + 'm)" where
  "readFrame dec c =
     (case read_full c 4 of
        (c', None) \<Rightarrow> (c', Inl ReadFailed)
      | (c', Some hdr) \<Rightarrow>
          (let n = be_nat hdr in
           if maxFrame < n then (c', Inl FrameTooLarge)
           else
             (case read_full c' n of
                (c'', None) \<Rightarrow> (c'', Inl ReadFailed)
              | (c'', Some body) \<Rightarrow> (c'', case dec body of None \<Rightarrow> Inl FrameDecoding | Some v \<Rightarrow> Inr v))))"

definition randomNonce :: "(nat \<Rightarrow> bytes option) \<Rightarrow> enrol_error + bytes" where
  "randomNonce rand = (case rand nonceLen of None \<Rightarrow> Inl NonceRandomSource | Some n \<Rightarrow> Inr n)"

definition bound :: "conn \<Rightarrow> public_key \<Rightarrow> enrol_error option" where
  "bound c claimed = (if PeerIdentity c \<noteq> claimed then Some ClaimedIdentity else None)"

section \<open>The member's side\<close>

text \<open>The token store is passed separately: the source's server points to it.\<close>

record 'w server =
  srv_Identity :: identity
  srv_Root :: public_key
  srv_Admit :: "'w \<Rightarrow> public_key \<Rightarrow> string \<Rightarrow> 'w \<times> (string + admission \<times> records)"
  srv_GossipAddr :: string
  srv_Records :: "('w \<Rightarrow> records) option"
  srv_OverlayNet :: prefix

text \<open>The outside of one exchange: random numbers and the clock as it is read in turn.\<close>

record member_inputs =
  in_rand :: "nat \<Rightarrow> bytes option"
  in_now_lookup :: int
  in_now_consume :: int
  in_unix :: int64

definition no_admission :: admission where
  "no_admission = \<lparr>adm_Identity = 0, adm_Name = '''', adm_Host = 0, adm_Admitter = 0, adm_IssuedAt = 0, adm_Signature = []\<rparr>"

definition no_welcome :: welcome_msg where
  "no_welcome = \<lparr>w_Root = 0, w_Records = \<lparr>rs_Admissions = [], rs_Revocations = []\<rparr>, w_Admission = no_admission,
     w_GossipAddr = '''', w_OverlayNet = no_prefix, w_Error = ''''\<rparr>"

definition refuse :: "enrol_lib \<Rightarrow> conn \<Rightarrow> string \<Rightarrow> conn \<times> enrol_error option" where
  "refuse L c reason =
     (case writeFrame (enc_welcome L) c (no_welcome\<lparr>w_Error := reason\<rparr>) of
        (c', Some err) \<Rightarrow> (c', Some (RefusalNotSent reason err))
      | (c', None) \<Rightarrow> (c', Some (Refused reason)))"

definition welcomeFits :: "enrol_lib \<Rightarrow> 'w server \<Rightarrow> 'w \<Rightarrow> int64 \<Rightarrow> string \<Rightarrow> nat \<times> bool" where
  "welcomeFits L s w now name =
     (case srv_Records s of
        None \<Rightarrow> (0, True)
      | Some get \<Rightarrow>
          (let records = get w;
               probe = no_admission\<lparr>adm_Name := name, adm_Host := 0xFFFFFFFFFFFFFFFF, adm_IssuedAt := now,
                 adm_Signature := replicate 64 0\<rparr>
           in
             case enc_welcome L
                 \<lparr>w_Root = srv_Root s,
                  w_Records = \<lparr>rs_Admissions = rs_Admissions records @ [probe], rs_Revocations = rs_Revocations records\<rparr>,
                  w_Admission = probe, w_GossipAddr = srv_GossipAddr s, w_OverlayNet = srv_OverlayNet s, w_Error = ''''\<rparr> of
               None \<Rightarrow> (0, True)
             | Some body \<Rightarrow> (length body, length body \<le> maxFrame)))"

definition outgrown_reason :: "nat \<Rightarrow> string" where
  "outgrown_reason n =
     ''this cluster's membership records no longer fit in an enrolment message ('' @ decimal n @ '' bytes of ''
     @ decimal maxFrame @ ''); no node can enrol until they are pruned''"

text \<open>
  \<^verbatim>\<open>handle\<close> in the order of the source, cut where it waits for the joiner: the hello and the
  challenge; the proof and the token; the admission and the welcome. The result is the
  connection, the token store, the callbacks' state and the error, if any.
\<close>

definition handle_admit ::
  "enrol_lib \<Rightarrow> 'w server \<Rightarrow> member_inputs \<Rightarrow> conn \<Rightarrow> token_store \<Rightarrow> 'w \<Rightarrow> hello
   \<Rightarrow> conn \<times> token_store \<times> 'w \<times> enrol_error option" where
  "handle_admit L s inp c tokens w h =
     (case welcomeFits L s w (in_unix inp) (h_Name h) of
        (n, ok) \<Rightarrow>
          if \<not> ok then (case refuse L c (outgrown_reason n) of (c', e) \<Rightarrow> (c', tokens, w, e))
          else
            (case srv_Admit s w (h_Identity h) (h_Name h) of
               (w', Inl reason) \<Rightarrow> (case refuse L c reason of (c', e) \<Rightarrow> (c', tokens, w', e))
             | (w', Inr (adm, records)) \<Rightarrow>
                 (case writeFrame (enc_welcome L) c
                     \<lparr>w_Root = srv_Root s, w_Records = records, w_Admission = adm, w_GossipAddr = srv_GossipAddr s,
                      w_OverlayNet = srv_OverlayNet s, w_Error = ''''\<rparr> of
                    (c', Some err) \<Rightarrow> (c', tokens, w', Some err)
                  | (c', None) \<Rightarrow>
                      (case readFrame (dec_ack L) c' of
                         (c'', Inl err) \<Rightarrow> (c'', tokens, w', Some (NotAcknowledged err))
                       | (c'', Inr a) \<Rightarrow> (c'', tokens, w', None)))))"

definition handle_proof ::
  "enrol_lib \<Rightarrow> 'w server \<Rightarrow> member_inputs \<Rightarrow> conn \<Rightarrow> token_store \<Rightarrow> 'w \<Rightarrow> hello \<Rightarrow> bytes \<Rightarrow> bytes
   \<Rightarrow> conn \<times> token_store \<times> 'w \<times> enrol_error option" where
  "handle_proof L s inp c tokens w h k tr =
     (case readFrame (dec_proof L) c of
        (c', Inl err) \<Rightarrow> (c', tokens, w, Some err)
      | (c', Inr p) \<Rightarrow>
          if p_MAC p \<noteq> mac L k labelJoiner tr then (c', tokens, w, Some NoProof)
          else
            (case token_consume (in_now_consume inp) tokens (h_TokenID h) of
               (tokens', ok) \<Rightarrow>
                 if \<not> ok then (c', tokens', w, Some TokenSpent)
                 else handle_admit L s inp c' tokens' w h))"

definition handle ::
  "ed25519 \<Rightarrow> enrol_lib \<Rightarrow> 'w server \<Rightarrow> member_inputs \<Rightarrow> conn \<Rightarrow> token_store \<Rightarrow> 'w
   \<Rightarrow> conn \<times> token_store \<times> 'w \<times> enrol_error option" where
  "handle C L s inp c tokens w =
     (case readFrame (dec_hello L) c of
        (c', Inl err) \<Rightarrow> (c', tokens, w, Some err)
      | (c', Inr h) \<Rightarrow>
          if h_Version h \<noteq> protocolVersion \<or> length (h_TokenID h) \<noteq> tokenIDLen \<or> length (h_Nonce h) \<noteq> nonceLen \<or> h_Name h = ''''
          then (c', tokens, w, Some MalformedHello)
          else
            (case bound c' (h_Identity h) of
               Some err \<Rightarrow> (c', tokens, w, Some err)
             | None \<Rightarrow>
                 (case token_lookup (in_now_lookup inp) tokens (h_TokenID h) of
                    (tokens', None) \<Rightarrow> (c', tokens', w, Some Silent)
                  | (tokens', Some key) \<Rightarrow>
                      (case randomNonce (in_rand inp) of
                         Inl err \<Rightarrow> (c', tokens', w, Some err)
                       | Inr nM \<Rightarrow>
                           (let self = id_Public C (srv_Identity s);
                                k = deriveKey L key (h_Nonce h) nM;
                                tr = transcript (h_Identity h) self (h_Nonce h) nM (h_Name h)
                            in
                              case writeFrame (enc_challenge L) c'
                                  \<lparr>c_Identity = self, c_Nonce = nM, c_MAC = mac L k labelMember tr\<rparr> of
                                (c'', Some err) \<Rightarrow> (c'', tokens', w, Some err)
                              | (c'', None) \<Rightarrow> handle_proof L s inp c'' tokens' w h k tr)))))"

definition Handle ::
  "ed25519 \<Rightarrow> enrol_lib \<Rightarrow> 'w server \<Rightarrow> member_inputs \<Rightarrow> conn \<Rightarrow> token_store \<Rightarrow> 'w \<Rightarrow> conn \<times> token_store \<times> 'w" where
  "Handle C L s inp c tokens w =
     (case handle C L s inp c tokens w of (c', tokens', w', err) \<Rightarrow> (c'\<lparr>conn_closed := True\<rparr>, tokens', w'))"

section \<open>The joiner's side\<close>

text \<open>What the joiner checks of a welcome, against the member that ran the exchange.\<close>

definition check_welcome :: "ed25519 \<Rightarrow> welcome_msg \<Rightarrow> public_key \<Rightarrow> public_key \<Rightarrow> enrol_error option" where
  "check_welcome C w self member =
     (if w_Error w \<noteq> '''' then Some (MemberRefused (w_Error w))
      else
        (let set0 = fst (Merge C (NewSet (w_Root w)) (w_Records w)) in
         case Valid set0 member of
           (set1, ok) \<Rightarrow>
             if \<not> ok then Some MemberNotValid
             else if adm_Identity (w_Admission w) \<noteq> self \<or> adm_Admitter (w_Admission w) \<noteq> member then Some AdmissionForOther
             else
               (case AddAdmission C set1 (w_Admission w) of
                  (set2, Inl err) \<Rightarrow> Some (AdmissionRejected err)
                | (set2, Inr _) \<Rightarrow> if \<not> snd (Valid set2 self) then Some NotAMember else None)))"

definition join_welcome ::
  "ed25519 \<Rightarrow> enrol_lib \<Rightarrow> conn \<Rightarrow> public_key \<Rightarrow> public_key \<Rightarrow> conn \<times> (enrol_error + welcome_msg \<times> public_key)" where
  "join_welcome C L c self member =
     (case readFrame (dec_welcome L) c of
        (c', Inl err) \<Rightarrow> (c', Inl err)
      | (c', Inr w) \<Rightarrow>
          (case check_welcome C w self member of
             Some err \<Rightarrow> (c', Inl err)
           | None \<Rightarrow>
               (case writeFrame (enc_ack L) c' Ack of
                  (c'', Some err) \<Rightarrow> (c'', Inl err)
                | (c'', None) \<Rightarrow> (c'', Inr (w, member)))))"

definition Join ::
  "ed25519 \<Rightarrow> enrol_lib \<Rightarrow> (nat \<Rightarrow> bytes option) \<Rightarrow> conn \<Rightarrow> string \<Rightarrow> identity \<Rightarrow> string
   \<Rightarrow> conn \<times> (enrol_error + welcome_msg \<times> public_key)" where
  "Join C L rand c token i name =
     (case decodeToken (unicode_norm L) token of
        Inl err \<Rightarrow> (c, Inl (JoinKey err))
      | Inr key \<Rightarrow>
          (case randomNonce rand of
             Inl err \<Rightarrow> (c, Inl err)
           | Inr nJ \<Rightarrow>
               (case writeFrame (enc_hello L) c
                   \<lparr>h_Version = protocolVersion, h_TokenID = idOf (sha256 L) key, h_Identity = id_Public C i,
                    h_Nonce = nJ, h_Name = name\<rparr> of
                  (c1, Some err) \<Rightarrow> (c1, Inl err)
                | (c1, None) \<Rightarrow>
                    (case readFrame (dec_challenge L) c1 of
                       (c2, Inl err) \<Rightarrow> (c2, Inl (MemberClosed err))
                     | (c2, Inr ch) \<Rightarrow>
                         if length (c_Nonce ch) \<noteq> nonceLen then (c2, Inl MalformedChallenge)
                         else
                           (case bound c2 (c_Identity ch) of
                              Some err \<Rightarrow> (c2, Inl err)
                            | None \<Rightarrow>
                                (let k = deriveKey L key nJ (c_Nonce ch);
                                     tr = transcript (id_Public C i) (c_Identity ch) nJ (c_Nonce ch) name
                                 in
                                   if c_MAC ch \<noteq> mac L k labelMember tr then (c2, Inl MemberNoProof)
                                   else
                                     (case writeFrame (enc_proof L) c2 \<lparr>p_MAC = mac L k labelJoiner tr\<rparr> of
                                        (c3, Some err) \<Rightarrow> (c3, Inl err)
                                      | (c3, None) \<Rightarrow> join_welcome C L c3 (id_Public C i) (c_Identity ch))))))))"

section \<open>Frames\<close>

definition frame :: "bytes \<Rightarrow> bytes" where
  "frame body = be_bytes 4 (length body) @ body"

text \<open>The bytes of a message on the wire, and the condition for it to arrive as it was sent.\<close>

definition sent :: "('m \<Rightarrow> bytes option) \<Rightarrow> 'm \<Rightarrow> bytes" where
  "sent enc v = (case enc v of None \<Rightarrow> [] | Some body \<Rightarrow> frame body)"

definition carried :: "('m \<Rightarrow> bytes option) \<Rightarrow> (bytes \<Rightarrow> 'm option) \<Rightarrow> 'm \<Rightarrow> bool" where
  "carried enc dec v \<longleftrightarrow> (\<exists>body. enc v = Some body \<and> length body \<le> maxFrame \<and> dec body = Some v)"

lemma length_frame: "length (frame body) = 4 + length body"
  by (simp add: frame_def del: be_bytes_numeral)

lemma be_nat_frame_length: "n \<le> maxFrame \<Longrightarrow> be_nat (be_bytes 4 n) = n"
  by (subst be_nat_be_bytes) (simp add: maxFrame_def)

lemma writeFrame_carried:
  assumes "carried enc dec v" and "length (sent enc v) \<le> conn_room c"
  shows "writeFrame enc c v = (c\<lparr>conn_out := conn_out c @ sent enc v, conn_room := conn_room c - length (sent enc v)\<rparr>, None)"
proof -
  obtain body where body: "enc v = Some body" "length body \<le> maxFrame" using assms(1) by (auto simp: carried_def)
  then have "sent enc v = frame body" and "4 + length body \<le> conn_room c"
    using assms(2) by (simp_all add: sent_def length_frame)
  with body show ?thesis
    by (simp add: writeFrame_def conn_write_def frame_def not_less del: be_bytes_numeral)
qed

lemma readFrame_carried:
  assumes "carried enc dec v" and "conn_in c = sent enc v @ rest"
  shows "readFrame dec c = (c\<lparr>conn_in := rest\<rparr>, Inr v)"
proof -
  obtain body where body: "enc v = Some body" "length body \<le> maxFrame" "dec body = Some v"
    using assms(1) by (auto simp: carried_def)
  then have c: "conn_in c = be_bytes 4 (length body) @ body @ rest"
    using assms(2) by (simp add: sent_def frame_def del: be_bytes_numeral)
  have "read_full c 4 = (c\<lparr>conn_in := body @ rest\<rparr>, Some (be_bytes 4 (length body)))"
    by (simp add: read_full_def c del: be_bytes_numeral)
  moreover have "read_full (c\<lparr>conn_in := body @ rest\<rparr>) (length body) = (c\<lparr>conn_in := rest\<rparr>, Some body)"
    by (simp add: read_full_def)
  ultimately show ?thesis
    using body be_nat_frame_length [OF body(2)] by (simp add: readFrame_def Let_def del: be_bytes_numeral)
qed

lemma writeFrame_frame [frame_simps]:
  "conn_in (fst (writeFrame enc c v)) = conn_in c" "PeerIdentity (fst (writeFrame enc c v)) = PeerIdentity c"
  by (auto simp: writeFrame_def conn_write_def split: option.splits prod.splits if_splits)

lemma readFrame_frame [frame_simps]:
  "conn_out (fst (readFrame dec c)) = conn_out c" "PeerIdentity (fst (readFrame dec c)) = PeerIdentity c"
  by (auto simp: readFrame_def read_full_def Let_def split: option.splits prod.splits if_splits)

lemma readFrame_input: "conn_in c = conn_in d \<Longrightarrow> snd (readFrame dec c) = snd (readFrame dec d)"
  by (auto simp: readFrame_def read_full_def Let_def split: option.splits prod.splits if_splits)

section \<open>No admission without the token\<close>

lemma handle_admit_world: "fst (snd (snd (handle_admit L s inp c tokens w h))) = w \<or>
    fst (snd (snd (handle_admit L s inp c tokens w h))) = fst (srv_Admit s w (h_Identity h) (h_Name h))"
  by (auto simp: handle_admit_def split: prod.splits sum.splits option.splits)

lemma handle_admit_tokens: "fst (snd (handle_admit L s inp c tokens w h)) = tokens"
  by (auto simp: handle_admit_def split: prod.splits sum.splits option.splits)

lemma handle_proof_world:
  assumes "handle_proof L s inp c tokens w h k tr = (c', tokens', w', err)" and "w' \<noteq> w"
  shows "\<exists>p. snd (readFrame (dec_proof L) c) = Inr p \<and> p_MAC p = mac L k labelJoiner tr \<and>
    token_consume (in_now_consume inp) tokens (h_TokenID h) = (tokens', True) \<and>
    w' = fst (srv_Admit s w (h_Identity h) (h_Name h))"
proof -
  from assms obtain c1 p tokens1 where p: "readFrame (dec_proof L) c = (c1, Inr p)" "p_MAC p = mac L k labelJoiner tr"
    and tok: "token_consume (in_now_consume inp) tokens (h_TokenID h) = (tokens1, True)"
    and adm: "handle_admit L s inp c1 tokens1 w h = (c', tokens', w', err)"
    by (auto simp: handle_proof_def split: prod.splits sum.splits if_splits)
  then show ?thesis
    using assms(2) handle_admit_world [of L s inp c1 tokens1 w h] handle_admit_tokens [of L s inp c1 tokens1 w h] by simp
qed

lemma handle_proof_unproved:
  assumes "handle_proof L s inp c tokens w h k tr = (c', tokens', w', err)"
    and "\<And>p. snd (readFrame (dec_proof L) c) = Inr p \<Longrightarrow> p_MAC p \<noteq> mac L k labelJoiner tr"
  shows "conn_out c' = conn_out c \<and> w' = w \<and> tokens' = tokens \<and> err \<noteq> None"
  using assms readFrame_frame(1) [of "dec_proof L" c] by (auto simp: handle_proof_def split: prod.splits sum.splits)

text \<open>
  C7. A member admits a joiner only if the joiner's hello carries the identity the connection
  verified, names a token that is pending, and is followed by a proof computed from that token's
  key over both identities, both nonces and the name; and every admission spends one use of it.
  In every other case the member's state is untouched.
\<close>

theorem admits_only_with_proof:
  assumes "handle C L s inp c tokens w = (c', tokens', w', err)" and "w' \<noteq> w"
  shows "\<exists>h key nM p. snd (readFrame (dec_hello L) c) = Inr h \<and> h_Identity h = PeerIdentity c \<and>
    snd (token_lookup (in_now_lookup inp) tokens (h_TokenID h)) = Some key \<and> in_rand inp nonceLen = Some nM \<and>
    snd (readFrame (dec_proof L) (fst (readFrame (dec_hello L) c))) = Inr p \<and>
    p_MAC p = mac L (deriveKey L key (h_Nonce h) nM) labelJoiner
      (transcript (PeerIdentity c) (id_Public C (srv_Identity s)) (h_Nonce h) nM (h_Name h)) \<and>
    token_consume (in_now_consume inp) (fst (token_lookup (in_now_lookup inp) tokens (h_TokenID h))) (h_TokenID h) = (tokens', True) \<and>
    w' = fst (srv_Admit s w (PeerIdentity c) (h_Name h))"
proof -
  let ?self = "id_Public C (srv_Identity s)"
  from assms obtain c1 h tokens1 key nM c2 where h: "readFrame (dec_hello L) c = (c1, Inr h)" "bound c1 (h_Identity h) = None"
    and tok: "token_lookup (in_now_lookup inp) tokens (h_TokenID h) = (tokens1, Some key)" "randomNonce (in_rand inp) = Inr nM"
    and wr: "c2 = fst (writeFrame (enc_challenge L) c1 \<lparr>c_Identity = ?self, c_Nonce = nM,
      c_MAC = mac L (deriveKey L key (h_Nonce h) nM) labelMember (transcript (h_Identity h) ?self (h_Nonce h) nM (h_Name h))\<rparr>)"
    and pr: "handle_proof L s inp c2 tokens1 w h (deriveKey L key (h_Nonce h) nM)
      (transcript (h_Identity h) ?self (h_Nonce h) nM (h_Name h)) = (c', tokens', w', err)"
    by (auto simp: handle_def Let_def split: prod.splits sum.splits option.splits if_splits)
  have "conn_in c2 = conn_in c1" using wr by (simp add: frame_simps)
  moreover have "h_Identity h = PeerIdentity c"
    using h readFrame_frame(2) [of "dec_hello L" c] by (simp add: bound_def split: if_splits)
  moreover have "in_rand inp nonceLen = Some nM" using tok(2) by (simp add: randomNonce_def split: option.splits)
  ultimately show ?thesis
    using handle_proof_world [OF pr assms(2)] h(1) tok(1) readFrame_input [of c2 c1 "dec_proof L"] by auto
qed

text \<open>
  C9. A member is no oracle for guessing tokens: to a hello that names no pending token it sends
  nothing at all, and if the joiner does not follow its hello with a proof computed from the pending
  token's key over both identities, both nonces and the name, the member sends nothing beyond its
  challenge, whatever came instead. In neither case is anyone admitted or a use of the token spent, and
  the exchange fails.
\<close>

theorem silent_without_token:
  assumes "handle C L s inp c tokens w = (c', tokens', w', err)" and "readFrame (dec_hello L) c = (c1, Inr h)"
    and "token_lookup (in_now_lookup inp) tokens (h_TokenID h) = (tokens1, found)"
  shows "(found = None \<longrightarrow> conn_out c' = conn_out c \<and> w' = w \<and> tokens' \<in> {tokens, tokens1} \<and> err \<noteq> None) \<and>
    (\<forall>key nM self ch. found = Some key \<and> in_rand inp nonceLen = Some nM \<and> self = id_Public C (srv_Identity s) \<and>
      (\<forall>p. snd (readFrame (dec_proof L) c1) = Inr p \<longrightarrow>
        p_MAC p \<noteq> mac L (deriveKey L key (h_Nonce h) nM) labelJoiner (transcript (h_Identity h) self (h_Nonce h) nM (h_Name h))) \<and>
      ch = \<lparr>c_Identity = self, c_Nonce = nM,
        c_MAC = mac L (deriveKey L key (h_Nonce h) nM) labelMember (transcript (h_Identity h) self (h_Nonce h) nM (h_Name h))\<rparr> \<longrightarrow>
      conn_out c' \<in> {conn_out c, conn_out (fst (writeFrame (enc_challenge L) c1 ch))} \<and> w' = w \<and> tokens' \<in> {tokens, tokens1} \<and> err \<noteq> None)"
proof (intro conjI allI impI; (elim conjE)?)
  have out: "conn_out c1 = conn_out c" using assms(2) readFrame_frame(1) [of "dec_hello L" c] by simp
  then show "found = None \<Longrightarrow> conn_out c' = conn_out c" "found = None \<Longrightarrow> w' = w" "found = None \<Longrightarrow> tokens' \<in> {tokens, tokens1}" "found = None \<Longrightarrow> err \<noteq> None"
    using assms by (auto simp: handle_def bound_def split: if_splits option.splits)
  fix key nM self ch
  assume found: "found = Some key" and nM: "in_rand inp nonceLen = Some nM" and self: "self = id_Public C (srv_Identity s)"
    and bad: "\<forall>p. snd (readFrame (dec_proof L) c1) = Inr p \<longrightarrow>
        p_MAC p \<noteq> mac L (deriveKey L key (h_Nonce h) nM) labelJoiner (transcript (h_Identity h) self (h_Nonce h) nM (h_Name h))"
    and ch: "ch = \<lparr>c_Identity = self, c_Nonce = nM,
        c_MAC = mac L (deriveKey L key (h_Nonce h) nM) labelMember (transcript (h_Identity h) self (h_Nonce h) nM (h_Name h))\<rparr>"
  let ?k = "deriveKey L key (h_Nonce h) nM" and ?tr = "transcript (h_Identity h) self (h_Nonce h) nM (h_Name h)"
  have rand: "randomNonce (in_rand inp) = Inr nM" using nM by (simp add: randomNonce_def)
  have "conn_out c' \<in> {conn_out c, conn_out (fst (writeFrame (enc_challenge L) c1 ch))} \<and> w' = w \<and> tokens' \<in> {tokens, tokens1} \<and> err \<noteq> None"
  proof (cases "writeFrame (enc_challenge L) c1 ch")
    case (Pair c2 e)
    have same: "snd (readFrame (dec_proof L) c2) = snd (readFrame (dec_proof L) c1)"
      using readFrame_input [of c2 c1 "dec_proof L"] Pair writeFrame_frame(1) [of "enc_challenge L" c1 ch] by simp
    have "handle_proof L s inp c2 tokens1 w h ?k ?tr = (c', tokens', w', err) \<Longrightarrow>
        conn_out c' = conn_out c2 \<and> w' = w \<and> tokens' = tokens1 \<and> err \<noteq> None"
      using handle_proof_unproved [of L s inp c2 tokens1 w h ?k ?tr] bad same by auto
    then show ?thesis
      using assms found rand out Pair by (auto simp: handle_def Let_def self ch bound_def split: if_splits option.splits)
  qed
  then show "conn_out c' \<in> {conn_out c, conn_out (fst (writeFrame (enc_challenge L) c1 ch))}" "w' = w" "tokens' \<in> {tokens, tokens1}" "err \<noteq> None"
    by simp_all
qed

section \<open>The joiner's guarantee\<close>

text \<open>
  C8. A joiner that \<^verbatim>\<open>Join\<close> reports as enrolled talked to the identity the connection verified,
  which proved knowledge of the joiner's token over this very exchange; the records it was given
  make that member a member of the cluster they describe, and its own admission, signed by that
  member, makes it one too.
\<close>

theorem join_sound:
  assumes "Join C L rand c token i name = (c', Inr (w, member))"
  shows "\<exists>key nJ ch. decodeToken (unicode_norm L) token = Inr key \<and> rand nonceLen = Some nJ \<and>
    snd (readFrame (dec_challenge L) c) = Inr ch \<and> c_Identity ch = member \<and> member = PeerIdentity c \<and>
    c_MAC ch = mac L (deriveKey L key nJ (c_Nonce ch)) labelMember (transcript (id_Public C i) member nJ (c_Nonce ch) name) \<and>
    w_Error w = '''' \<and> adm_Identity (w_Admission w) = id_Public C i \<and> adm_Admitter (w_Admission w) = member \<and>
    valid (fst (Merge C (NewSet (w_Root w)) (w_Records w))) member \<and>
    valid (fst (AddAdmission C (fst (Merge C (NewSet (w_Root w)) (w_Records w))) (w_Admission w))) (id_Public C i)"
proof -
  let ?self = "id_Public C i"
  from assms obtain key nJ c1 ch c2 c3 where key: "decodeToken (unicode_norm L) token = Inr key" "randomNonce rand = Inr nJ"
    and c1: "c1 = fst (writeFrame (enc_hello L) c \<lparr>h_Version = protocolVersion, h_TokenID = idOf (sha256 L) key,
      h_Identity = ?self, h_Nonce = nJ, h_Name = name\<rparr>)"
    and ch: "readFrame (dec_challenge L) c1 = (c2, Inr ch)" "bound c2 (c_Identity ch) = None"
      "c_MAC ch = mac L (deriveKey L key nJ (c_Nonce ch)) labelMember (transcript ?self (c_Identity ch) nJ (c_Nonce ch) name)"
    and jw: "join_welcome C L c3 ?self (c_Identity ch) = (c', Inr (w, member))"
    by (auto simp: Join_def Let_def split: prod.splits sum.splits option.splits if_splits)
  have input: "conn_in c1 = conn_in c" "PeerIdentity c1 = PeerIdentity c" using c1 by (simp_all add: frame_simps)
  have peer: "PeerIdentity c2 = PeerIdentity c"
    using ch(1) input(2) readFrame_frame(2) [of "dec_challenge L" c1] by simp
  from jw have ok: "check_welcome C w ?self member = None" and member: "member = c_Identity ch"
    by (auto simp: join_welcome_def split: prod.splits sum.splits option.splits if_splits)
  let ?m = "fst (Merge C (NewSet (w_Root w)) (w_Records w))"
  have wf: "wf_set C ?m" by (intro wf_intros)
  have wf1: "wf_set C (fst (Valid ?m member))" using wf by (rule Valid_wf)
  have same: "same_records (fst (AddAdmission C (fst (Valid ?m member)) (w_Admission w))) (fst (AddAdmission C ?m (w_Admission w)))"
    by (auto simp: same_records_def AddAdmission_absorb frame_simps)
  have "w_Error w = '''' \<and> adm_Identity (w_Admission w) = ?self \<and> adm_Admitter (w_Admission w) = member \<and>
      snd (Valid ?m member) \<and> snd (Valid (fst (AddAdmission C (fst (Valid ?m member)) (w_Admission w))) ?self)"
    using ok by (auto simp: check_welcome_def Let_def split: prod.splits sum.splits if_splits)
  moreover have "snd (Valid (fst (AddAdmission C (fst (Valid ?m member)) (w_Admission w))) ?self) =
      valid (fst (AddAdmission C ?m (w_Admission w))) ?self"
    using valid_by [OF AddAdmission_wf [OF wf1]] valid_same_records [OF same] by simp
  moreover have "rand nonceLen = Some nJ" using key(2) by (simp add: randomNonce_def split: option.splits)
  moreover have "snd (readFrame (dec_challenge L) c) = Inr ch"
    using ch(1) input(1) readFrame_input [of c c1 "dec_challenge L"] by simp
  ultimately show ?thesis
    using key(1) ch(2,3) peer member valid_by [OF wf] by (auto simp: bound_def split: if_splits)
qed

section \<open>An honest run\<close>

text \<open>The five messages of one exchange between an honest joiner and an honest member.\<close>

record run =
  run_hello :: hello
  run_challenge :: challenge
  run_proof :: proof_msg
  run_welcome :: welcome_msg

definition honest_run ::
  "ed25519 \<Rightarrow> enrol_lib \<Rightarrow> 'w server \<Rightarrow> identity \<Rightarrow> bytes \<Rightarrow> string \<Rightarrow> bytes \<Rightarrow> bytes \<Rightarrow> admission \<Rightarrow> records \<Rightarrow> run" where
  "honest_run C L s i key name nJ nM adm recs =
     (let j = id_Public C i; m = id_Public C (srv_Identity s);
          k = deriveKey L key nJ nM; tr = transcript j m nJ nM name in
      \<lparr>run_hello = \<lparr>h_Version = protocolVersion, h_TokenID = idOf (sha256 L) key, h_Identity = j, h_Nonce = nJ, h_Name = name\<rparr>,
       run_challenge = \<lparr>c_Identity = m, c_Nonce = nM, c_MAC = mac L k labelMember tr\<rparr>,
       run_proof = \<lparr>p_MAC = mac L k labelJoiner tr\<rparr>,
       run_welcome = \<lparr>w_Root = srv_Root s, w_Records = recs, w_Admission = adm, w_GossipAddr = srv_GossipAddr s,
         w_OverlayNet = srv_OverlayNet s, w_Error = ''''\<rparr>\<rparr>)"

definition run_carried :: "enrol_lib \<Rightarrow> run \<Rightarrow> bool" where
  "run_carried L r \<longleftrightarrow>
     carried (enc_hello L) (dec_hello L) (run_hello r) \<and> carried (enc_challenge L) (dec_challenge L) (run_challenge r) \<and>
     carried (enc_proof L) (dec_proof L) (run_proof r) \<and> carried (enc_welcome L) (dec_welcome L) (run_welcome r) \<and>
     carried (enc_ack L) (dec_ack L) Ack"

definition joiner_sends :: "enrol_lib \<Rightarrow> run \<Rightarrow> bytes" where
  "joiner_sends L r = sent (enc_hello L) (run_hello r) @ sent (enc_proof L) (run_proof r) @ sent (enc_ack L) Ack"

definition member_sends :: "enrol_lib \<Rightarrow> run \<Rightarrow> bytes" where
  "member_sends L r = sent (enc_challenge L) (run_challenge r) @ sent (enc_welcome L) (run_welcome r)"

lemma honest_member:
  assumes "r = honest_run C L s i key name nJ nM adm recs" and "run_carried L r"
    and "length (sha256 L key) = 32" and "length nJ = nonceLen" and "in_rand inp nonceLen = Some nM" and "name \<noteq> ''''"
    and "token_lookup (in_now_lookup inp) tokens (idOf (sha256 L) key) = (tokens1, Some key)"
    and "token_consume (in_now_consume inp) tokens1 (idOf (sha256 L) key) = (tokens2, True)"
    and "snd (welcomeFits L s w (in_unix inp) name)" and "srv_Admit s w (id_Public C i) name = (w', Inr (adm, recs))"
    and "PeerIdentity c = id_Public C i" and "conn_in c = joiner_sends L r" and "length (member_sends L r) \<le> conn_room c"
  shows "handle C L s inp c tokens w =
    (c\<lparr>conn_in := [], conn_out := conn_out c @ member_sends L r, conn_room := conn_room c - length (member_sends L r)\<rparr>,
     tokens2, w', None)"
proof -
  note carry = assms(2) [unfolded run_carried_def]
  let ?c1 = "c\<lparr>conn_in := sent (enc_proof L) (run_proof r) @ sent (enc_ack L) Ack\<rparr>"
  let ?c2 = "?c1\<lparr>conn_out := conn_out c @ sent (enc_challenge L) (run_challenge r),
    conn_room := conn_room c - length (sent (enc_challenge L) (run_challenge r))\<rparr>"
  let ?c3 = "?c2\<lparr>conn_in := sent (enc_ack L) Ack\<rparr>"
  let ?c4 = "?c3\<lparr>conn_out := conn_out c @ member_sends L r, conn_room := conn_room c - length (member_sends L r)\<rparr>"
  have r1: "readFrame (dec_hello L) c = (?c1, Inr (run_hello r))"
    by (rule readFrame_carried [of "enc_hello L"]) (use carry assms(12) in \<open>simp_all add: joiner_sends_def\<close>)
  have w1: "writeFrame (enc_challenge L) ?c1 (run_challenge r) = (?c2, None)"
    using writeFrame_carried [of "enc_challenge L" "dec_challenge L" "run_challenge r" ?c1] carry assms(13)
    by (simp add: member_sends_def)
  have r2: "readFrame (dec_proof L) ?c2 = (?c3, Inr (run_proof r))"
    using readFrame_carried [of "enc_proof L" "dec_proof L" "run_proof r" ?c2] carry by simp
  have w2: "writeFrame (enc_welcome L) ?c3 (run_welcome r) = (?c4, None)"
    using writeFrame_carried [of "enc_welcome L" "dec_welcome L" "run_welcome r" ?c3] carry assms(13)
    by (simp add: member_sends_def)
  have r3: "readFrame (dec_ack L) ?c4 = (?c4\<lparr>conn_in := []\<rparr>, Inr Ack)"
    using readFrame_carried [of "enc_ack L" "dec_ack L" Ack ?c4 "[]"] carry by simp
  obtain n where fits: "welcomeFits L s w (in_unix inp) name = (n, True)"
    using assms(9) by (metis prod.collapse)
  have adm: "handle_admit L s inp ?c3 tokens2 w (run_hello r) = (?c4\<lparr>conn_in := []\<rparr>, tokens2, w', None)"
    using fits assms(10) w2 r3 by (simp add: handle_admit_def assms(1) honest_run_def Let_def)
  show ?thesis
    using r1 w1 r2 adm assms(3-8,11)
    by (simp add: handle_def handle_proof_def assms(1) honest_run_def Let_def bound_def randomNonce_def idOf_def tokenIDLen_def)
qed

lemma honest_joiner:
  assumes "r = honest_run C L s i key name nJ nM adm recs" and "run_carried L r"
    and "decodeToken (unicode_norm L) token = Inr key" and "rand nonceLen = Some nJ" and "length nM = nonceLen"
    and "check_welcome C (run_welcome r) (id_Public C i) (id_Public C (srv_Identity s)) = None"
    and "PeerIdentity c = id_Public C (srv_Identity s)" and "conn_in c = member_sends L r" and "length (joiner_sends L r) \<le> conn_room c"
  shows "Join C L rand c token i name =
    (c\<lparr>conn_in := [], conn_out := conn_out c @ joiner_sends L r, conn_room := conn_room c - length (joiner_sends L r)\<rparr>,
     Inr (run_welcome r, id_Public C (srv_Identity s)))"
proof -
  note carry = assms(2) [unfolded run_carried_def]
  let ?h = "sent (enc_hello L) (run_hello r)" and ?p = "sent (enc_proof L) (run_proof r)"
  let ?c1 = "c\<lparr>conn_out := conn_out c @ ?h, conn_room := conn_room c - length ?h\<rparr>"
  let ?c2 = "?c1\<lparr>conn_in := sent (enc_welcome L) (run_welcome r)\<rparr>"
  let ?c3 = "?c2\<lparr>conn_out := conn_out c @ ?h @ ?p, conn_room := conn_room c - (length ?h + length ?p)\<rparr>"
  let ?c4 = "?c3\<lparr>conn_in := []\<rparr>"
  have w1: "writeFrame (enc_hello L) c (run_hello r) = (?c1, None)"
    using writeFrame_carried [of "enc_hello L" "dec_hello L" "run_hello r" c] carry assms(9) by (simp add: joiner_sends_def)
  have r1: "readFrame (dec_challenge L) ?c1 = (?c2, Inr (run_challenge r))"
    using readFrame_carried [of "enc_challenge L" "dec_challenge L" "run_challenge r" ?c1] carry assms(8)
    by (simp add: member_sends_def)
  have w2: "writeFrame (enc_proof L) ?c2 (run_proof r) = (?c3, None)"
    using writeFrame_carried [of "enc_proof L" "dec_proof L" "run_proof r" ?c2] carry assms(9) by (simp add: joiner_sends_def)
  have r2: "readFrame (dec_welcome L) ?c3 = (?c4, Inr (run_welcome r))"
    using readFrame_carried [of "enc_welcome L" "dec_welcome L" "run_welcome r" ?c3 "[]"] carry by simp
  have w3: "writeFrame (enc_ack L) ?c4 Ack =
      (?c4\<lparr>conn_out := conn_out c @ joiner_sends L r, conn_room := conn_room c - length (joiner_sends L r)\<rparr>, None)"
    using writeFrame_carried [of "enc_ack L" "dec_ack L" Ack ?c4] carry assms(9) by (simp add: joiner_sends_def)
  have jw: "join_welcome C L ?c3 (id_Public C i) (id_Public C (srv_Identity s)) =
      (?c4\<lparr>conn_out := conn_out c @ joiner_sends L r, conn_room := conn_room c - length (joiner_sends L r)\<rparr>,
       Inr (run_welcome r, id_Public C (srv_Identity s)))"
    using r2 w3 assms(6) by (simp add: join_welcome_def)
  show ?thesis
    using w1 r1 w2 jw assms(3-5,7) by (simp add: Join_def assms(1) honest_run_def Let_def bound_def randomNonce_def)
qed

text \<open>
  An honest exchange completes: if the member holds the joiner's token with a use left, its
  callback admits the joiner with records that pass the joiner's checks, and the messages fit and
  survive their encoding, then each side, given exactly what the other sends, runs to the end
  without an error; the token has lost one use, the joiner is admitted and holds the welcome.
\<close>

theorem honest_exchange_completes:
  assumes "r = honest_run C L s i key name nJ nM adm recs" and "run_carried L r"
    and "length (sha256 L key) = 32" and "length key = tokenLen" and "name \<noteq> ''''"
    and "rand nonceLen = Some nJ" and "length nJ = nonceLen" and "in_rand inp nonceLen = Some nM" and "length nM = nonceLen"
    and "token_lookup (in_now_lookup inp) tokens (idOf (sha256 L) key) = (seen, Some key)"
    and "token_consume (in_now_consume inp) seen (idOf (sha256 L) key) = (left, True)"
    and "snd (welcomeFits L s w (in_unix inp) name)" and "srv_Admit s w (id_Public C i) name = (w', Inr (adm, recs))"
    and "check_welcome C (run_welcome r) (id_Public C i) (id_Public C (srv_Identity s)) = None"
    and "PeerIdentity cm = id_Public C i" and "PeerIdentity cj = id_Public C (srv_Identity s)"
    and "conn_in cm = joiner_sends L r" and "conn_in cj = member_sends L r"
    and "conn_out cm = []" and "conn_out cj = []"
    and "length (member_sends L r) \<le> conn_room cm" and "length (joiner_sends L r) \<le> conn_room cj"
    and "handle C L s inp cm tokens w = (cm', tokens', w'', err)"
    and "Join C L rand cj (encodeToken key) i name = (cj', res)"
  shows "err = None \<and> tokens' = left \<and> w'' = w' \<and> conn_out cm' = conn_in cj \<and>
    res = Inr (run_welcome r, id_Public C (srv_Identity s)) \<and> conn_out cj' = conn_in cm"
proof -
  have "decodeToken (unicode_norm L) (encodeToken key) = Inr key"
    using decodeToken_encodeToken assms(4) by simp
  from honest_joiner [where rand = rand, OF assms(1,2) this assms(6,9,14,16,18,22)] honest_member [OF assms(1-3,7,8,5,10-13,15,17,21)]
  show ?thesis using assms(17-20,23,24) by auto
qed

section \<open>A concrete exchange\<close>

text \<open>A library in which every message is an empty body that decodes to the one message expected.\<close>

definition demo_key :: bytes where "demo_key = replicate 32 7"

definition demo_lib0 :: enrol_lib where
  "demo_lib0 = \<lparr>sha256 = (\<lambda>b. replicate 32 1), hkdf_Key = (\<lambda>a b c n. a @ b), hmac_sum = (\<lambda>k b. k @ b), unicode_norm = (\<lambda>s. s),
     enc_hello = (\<lambda>_. Some []), dec_hello = (\<lambda>_. None), enc_challenge = (\<lambda>_. Some []), dec_challenge = (\<lambda>_. None),
     enc_proof = (\<lambda>_. Some []), dec_proof = (\<lambda>_. None), enc_ack = (\<lambda>_. Some []), dec_ack = (\<lambda>_. Some Ack),
     enc_welcome = (\<lambda>_. Some []), dec_welcome = (\<lambda>_. None)\<rparr>"

definition demo_server :: "nat server" where
  "demo_server = \<lparr>srv_Identity = demo_identity 1, srv_Root = 1,
     srv_Admit = (\<lambda>w j name. (w + 1, Inr (demo_admission 1 j name 2 100, \<lparr>rs_Admissions = [], rs_Revocations = []\<rparr>))),
     srv_GossipAddr = '''', srv_Records = None, srv_OverlayNet = no_prefix\<rparr>"

definition demo_run :: run where
  "demo_run = honest_run demo_ed25519 demo_lib0 demo_server (demo_identity 5) demo_key ''e'' (replicate 32 2) (replicate 32 3)
     (demo_admission 1 5 ''e'' 2 100) \<lparr>rs_Admissions = [], rs_Revocations = []\<rparr>"

definition demo_lib :: enrol_lib where
  "demo_lib = demo_lib0\<lparr>dec_hello := (\<lambda>_. Some (run_hello demo_run)), dec_challenge := (\<lambda>_. Some (run_challenge demo_run)),
     dec_proof := (\<lambda>_. Some (run_proof demo_run)), dec_welcome := (\<lambda>_. Some (run_welcome demo_run))\<rparr>"

definition demo_tokens :: token_store where
  "demo_tokens = [(replicate 8 1, \<lparr>tok_key = demo_key, tok_expires = 100, tok_uses = 1\<rparr>)]"

definition demo_inputs :: member_inputs where
  "demo_inputs = \<lparr>in_rand = (\<lambda>n. Some (replicate n 3)), in_now_lookup = 1, in_now_consume = 2, in_unix = 100\<rparr>"

definition demo_conn :: "public_key \<Rightarrow> bytes \<Rightarrow> conn" where
  "demo_conn peer input = \<lparr>PeerIdentity = peer, conn_in = input, conn_out = [], conn_room = 100, conn_closed = False\<rparr>"

lemma demo_run_lib: "honest_run demo_ed25519 demo_lib demo_server (demo_identity 5) demo_key ''e'' (replicate 32 2) (replicate 32 3)
     (demo_admission 1 5 ''e'' 2 100) \<lparr>rs_Admissions = [], rs_Revocations = []\<rparr> = demo_run"
  by (simp add: demo_run_def honest_run_def demo_lib_def deriveKey_def mac_def idOf_def)

lemma demo_run_carried: "run_carried demo_lib demo_run"
  by (simp add: run_carried_def carried_def demo_lib_def demo_lib0_def)

lemma demo_sends: "length (joiner_sends demo_lib demo_run) = 12" "length (member_sends demo_lib demo_run) = 8"
  by (simp_all add: joiner_sends_def member_sends_def sent_def demo_lib_def demo_lib0_def length_frame)

lemma demo_id: "idOf (sha256 demo_lib) demo_key = replicate 8 1"
  by (simp add: idOf_def demo_lib_def demo_lib0_def tokenIDLen_def)

lemma demo_lookup: "token_lookup 1 demo_tokens (replicate 8 1) = (demo_tokens, Some demo_key)"
  "token_consume 2 demo_tokens (replicate 8 1) = ([], True)"
  by (simp_all add: token_lookup_def token_consume_def demo_tokens_def tokens_gc_def Let_def del: replicate.simps)

lemma demo_welcome:
  "check_welcome demo_ed25519 (run_welcome demo_run) (id_Public demo_ed25519 (demo_identity 5))
     (id_Public demo_ed25519 (srv_Identity demo_server)) = None"
  by (simp add: check_welcome_def demo_run_def honest_run_def demo_server_def Let_def Merge_def NewSet_def Valid_def valid_def
      validAt.simps AddAdmission_def set_forget_def MaxInt64_def)

theorem honest_exchange_completes_witness:
  "let cm = demo_conn 5 (joiner_sends demo_lib demo_run); cj = demo_conn 1 (member_sends demo_lib demo_run);
       (cm', tokens', w', err) = handle demo_ed25519 demo_lib demo_server demo_inputs cm demo_tokens 0;
       (cj', res) = Join demo_ed25519 demo_lib (\<lambda>n. Some (replicate n 2)) cj (encodeToken demo_key) (demo_identity 5) ''e''
   in err = None \<and> tokens' = [] \<and> w' = 1 \<and> conn_out cm' = conn_in cj \<and> res = Inr (run_welcome demo_run, 1) \<and> conn_out cj' = conn_in cm"
proof -
  let ?cm = "demo_conn 5 (joiner_sends demo_lib demo_run)" and ?cj = "demo_conn 1 (member_sends demo_lib demo_run)"
  obtain cm' tokens' w' err where h: "handle demo_ed25519 demo_lib demo_server demo_inputs ?cm demo_tokens 0 = (cm', tokens', w', err)"
    using prod_cases4 by blast
  obtain cj' res where j: "Join demo_ed25519 demo_lib (\<lambda>n. Some (replicate n 2)) ?cj (encodeToken demo_key) (demo_identity 5) ''e'' = (cj', res)"
    by fastforce
  have self: "id_Public demo_ed25519 (srv_Identity demo_server) = 1" by (simp add: demo_server_def)
  have "err = None \<and> tokens' = [] \<and> w' = 1 \<and> conn_out cm' = conn_in ?cj \<and>
      res = Inr (run_welcome demo_run, id_Public demo_ed25519 (srv_Identity demo_server)) \<and> conn_out cj' = conn_in ?cm"
    by (rule honest_exchange_completes [where inp = demo_inputs and cm = ?cm and cj = ?cj and tokens = demo_tokens
            and seen = demo_tokens and w = 0 and rand = "\<lambda>n. Some (replicate n 2)",
          OF demo_run_lib [symmetric] demo_run_carried _ _ _ _ _ _ _ _ _ _ _ demo_welcome _ _ _ _ _ _ _ _ h j])
      (simp_all add: demo_id demo_lookup demo_sends self, simp_all add: demo_lib_def demo_lib0_def demo_key_def tokenLen_def
        nonceLen_def demo_inputs_def demo_conn_def demo_server_def welcomeFits_def demo_lookup)
  then show ?thesis using h j self by simp
qed

lemma demo_handle:
  "\<exists>c'. handle demo_ed25519 demo_lib demo_server demo_inputs (demo_conn 5 (joiner_sends demo_lib demo_run)) demo_tokens 0
     = (c', [], 1, None)"
  by (subst honest_member [where ?tokens1.0 = demo_tokens, OF demo_run_lib [symmetric] demo_run_carried])
    (simp_all add: demo_id demo_lookup demo_sends, simp_all add: demo_lib_def demo_lib0_def demo_key_def tokenLen_def
        nonceLen_def demo_inputs_def demo_conn_def demo_server_def welcomeFits_def demo_lookup)

lemma demo_join:
  "\<exists>c'. Join demo_ed25519 demo_lib (\<lambda>n. Some (replicate n 2)) (demo_conn 1 (member_sends demo_lib demo_run))
     (encodeToken demo_key) (demo_identity 5) ''e'' = (c', Inr (run_welcome demo_run, 1))"
  by (subst honest_joiner [OF demo_run_lib [symmetric] demo_run_carried _ _ _ demo_welcome])
    (simp_all add: decodeToken_encodeToken demo_sends demo_key_def tokenLen_def nonceLen_def demo_conn_def demo_server_def)

theorem admits_only_with_proof_witness:
  "\<exists>h key nM. snd (readFrame (dec_hello demo_lib) (demo_conn 5 (joiner_sends demo_lib demo_run))) = Inr h \<and>
    h_Identity h = 5 \<and> snd (token_lookup 1 demo_tokens (h_TokenID h)) = Some key \<and> in_rand demo_inputs nonceLen = Some nM"
proof -
  obtain c' where "handle demo_ed25519 demo_lib demo_server demo_inputs (demo_conn 5 (joiner_sends demo_lib demo_run)) demo_tokens 0
     = (c', [], 1, None)"
    using demo_handle by blast
  from admits_only_with_proof [OF this] show ?thesis
    by (auto simp: demo_inputs_def demo_conn_def)
qed

theorem join_sound_witness:
  "valid (fst (AddAdmission demo_ed25519 (fst (Merge demo_ed25519 (NewSet (w_Root (run_welcome demo_run))) (w_Records (run_welcome demo_run))))
     (w_Admission (run_welcome demo_run)))) 5"
proof -
  obtain c' where "Join demo_ed25519 demo_lib (\<lambda>n. Some (replicate n 2)) (demo_conn 1 (member_sends demo_lib demo_run))
     (encodeToken demo_key) (demo_identity 5) ''e'' = (c', Inr (run_welcome demo_run, 1))"
    using demo_join by blast
  from join_sound [OF this] show ?thesis by auto
qed

theorem silent_without_token_witness:
  "let c = demo_conn 5 (joiner_sends demo_lib demo_run);
       (c', tokens', w', err) = handle demo_ed25519 demo_lib demo_server demo_inputs c [] 0;
       (d', tokens2, v', err2) = handle demo_ed25519 (demo_lib\<lparr>dec_proof := \<lambda>_. Some \<lparr>p_MAC = []\<rparr>\<rparr>) demo_server demo_inputs c demo_tokens 0
   in conn_out c' = [] \<and> w' = 0 \<and> v' = 0 \<and> tokens2 = demo_tokens \<and> err2 \<noteq> None"
proof -
  let ?c = "demo_conn 5 (joiner_sends demo_lib demo_run)" and ?L = "demo_lib\<lparr>dec_proof := \<lambda>_. Some \<lparr>p_MAC = []\<rparr>\<rparr>"
  obtain c1 where r: "readFrame (dec_hello demo_lib) ?c = (c1, Inr (run_hello demo_run))"
    using readFrame_carried [of "enc_hello demo_lib" "dec_hello demo_lib" "run_hello demo_run" ?c] demo_run_carried
    by (simp add: run_carried_def demo_conn_def joiner_sends_def)
  obtain c' tokens' w' err where h: "handle demo_ed25519 demo_lib demo_server demo_inputs ?c [] 0 = (c', tokens', w', err)"
    using prod_cases4 by blast
  obtain d' tokens2 v' err2 where g: "handle demo_ed25519 ?L demo_server demo_inputs ?c demo_tokens 0 = (d', tokens2, v', err2)"
    using prod_cases4 by blast
  have tid: "h_TokenID (run_hello demo_run) = replicate 8 1"
    using demo_id by (simp add: demo_run_def honest_run_def demo_lib_def Let_def)
  have "conn_out c' = [] \<and> w' = 0"
    using silent_without_token [OF h r surjective_pairing] by (simp add: token_lookup_def tokens_gc_def demo_conn_def)
  moreover have "readFrame (dec_hello ?L) ?c = (c1, Inr (run_hello demo_run))" using r by simp
  note silent = silent_without_token [OF g this, of demo_tokens "Some demo_key"]
  have wrong: "p_MAC p \<noteq> mac ?L k label tr" if "snd (readFrame (dec_proof ?L) c1) = Inr p" for p k label tr
  proof -
    have "p = \<lparr>p_MAC = []\<rparr>" using that by (auto simp: readFrame_def Let_def split: prod.splits option.splits if_splits)
    then show ?thesis by (simp add: mac_def demo_lib_def demo_lib0_def)
  qed
  have "v' = 0 \<and> tokens2 = demo_tokens \<and> err2 \<noteq> None"
    using silent wrong tid demo_lookup(1) by (auto simp: demo_inputs_def)
  ultimately show ?thesis by (simp add: h g)
qed

end
