(* ===== verification/Cluster.thy ===== *)
theory Cluster
  imports State_File Enrol_Protocol
begin

text \<open>
  A running cluster member, \<^verbatim>\<open>internal/cluster/cluster.go\<close>: admission of joiners, revocation, the
  distribution of records through memberlist's delegate, verification of the other nodes'
  metadata and the snapshots handed to subscribers. The state is what the \<^verbatim>\<open>Cluster\<close> struct keeps:
  the trusted set, the token store, the bootstrap and its file, the broadcasts handed to the queue, the
  pending change signal and the subscribers' one-slot channels. memberlist (its member list, its
  reliable send, its join) is outside: what it returns is an argument. So are the JSON codecs,
  the wireguard key parser, the clock and the answers of the file system.
\<close>

section \<open>State\<close>

record record_msg =
  msg_Admission :: "admission option"
  msg_Revocation :: "revocation option"

text \<open>A member as memberlist reports it: name, address bytes, port and raw metadata.\<close>

record ml_node =
  mln_Name :: string
  mln_Addr :: bytes
  mln_Port :: uint16
  mln_Meta :: bytes

record cluster_lib =
  ed :: ed25519
  state_json :: state_codec
  enc_msg :: "record_msg \<Rightarrow> bytes option"
  dec_msg :: "bytes \<Rightarrow> record_msg option"
  enc_records :: "records \<Rightarrow> bytes option"
  dec_records :: "bytes \<Rightarrow> records option"
  enc_meta :: "meta \<Rightarrow> bytes option"
  dec_meta :: "bytes \<Rightarrow> meta option"
  ParseKey :: "string \<Rightarrow> bool"

record cluster =
  cl_path :: string
  cl_local :: node
  cl_id :: identity
  cl_set :: trust_set
  cl_overlay :: prefix
  cl_port :: nat
  cl_tokens :: token_store
  cl_queue :: "(string \<times> bytes) list"
  cl_boot :: bootstrap
  cl_files :: files
  cl_changed :: bool
  cl_subs :: "node list option list"
  cl_left :: bool

datatype cluster_error =
    BootRequired | NotAClusterMember public_key public_key | NotMember public_key | SlotDoesNotFit uint64 string
  | AddressCollides addr string string | LocalAddress addr addr | ClaimsAddress string addr addr | MetaSignature string
  | WireguardKey string | NameExists string | NoFreeSlot trust_error | RecordRejected trust_error | MessageEncoding
  | TransportFailed | MemberlistFailed | JoinFailed

section \<open>Assigned addresses and metadata\<close>

definition assignedAddr :: "trust_set \<Rightarrow> prefix \<Rightarrow> public_key \<Rightarrow> trust_set \<times> (cluster_error + addr)" where
  "assignedAddr set0 prefix ident =
     (case Valid set0 ident of
        (set1, ok) \<Rightarrow>
          (set1,
           if \<not> ok then Inl (NotMember ident)
           else
             (let adm = (case Lookup set1 ident of None \<Rightarrow> no_admission | Some a \<Rightarrow> a) in
              case overlay_Addr prefix (adm_Host adm) of
                None \<Rightarrow> Inl (SlotDoesNotFit (adm_Host adm) (adm_Name adm))
              | Some a \<Rightarrow>
                  (case HostConflict set1 ident of
                     Some other \<Rightarrow> Inl (AddressCollides a (adm_Name adm) (adm_Name other))
                   | None \<Rightarrow> Inr a))))"

definition verifyMeta :: "cluster_lib \<Rightarrow> trust_set \<Rightarrow> prefix \<Rightarrow> node \<Rightarrow> trust_set \<times> cluster_error option" where
  "verifyMeta E set0 prefix n =
     (case assignedAddr set0 prefix (meta_identity n) of
        (set1, Inl err) \<Rightarrow> (set1, Some err)
      | (set1, Inr want) \<Rightarrow>
          (set1,
           if meta_overlayAddr n \<noteq> want then Some (ClaimsAddress (node_name n) (meta_overlayAddr n) want)
           else if \<not> Verify (ed E) (meta_identity n)
               (MetaDigest (node_name n) (meta_overlayAddr n) (meta_pubKey n) (meta_allowedIPs n)) (meta_signature n)
             then Some (MetaSignature (node_name n))
           else if \<not> ParseKey E (meta_pubKey n) then Some (WireguardKey (node_name n))
           else None))"

section \<open>Saving, signalling, broadcasting\<close>

definition saveState :: "cluster_lib \<Rightarrow> save_faults \<Rightarrow> cluster \<Rightarrow> cluster" where
  "saveState E f c =
     (let b = (cl_boot c)\<lparr>boot_Records := Records (cl_set c)\<rparr> in
      c\<lparr>cl_boot := b, cl_files := last (fst (boot_save (state_json E) f b (cl_path c) (cl_files c)))\<rparr>)"

definition persist :: "cluster_lib \<Rightarrow> save_faults \<Rightarrow> cluster \<Rightarrow> cluster" where
  "persist E f c = saveState E f c"

definition signalChanged :: "cluster \<Rightarrow> cluster" where
  "signalChanged c = c\<lparr>cl_changed := True\<rparr>"

definition broadcast_name :: "record_msg \<Rightarrow> string" where
  "broadcast_name m =
     (case msg_Admission m of
        Some a \<Rightarrow> ''adm:'' @ key_String (adm_Identity a)
      | None \<Rightarrow> (case msg_Revocation m of Some r \<Rightarrow> ''rev:'' @ key_String (rev_Identity r) | None \<Rightarrow> ''''))"

definition broadcast :: "cluster_lib \<Rightarrow> cluster \<Rightarrow> record_msg \<Rightarrow> cluster" where
  "broadcast E c m =
     (case enc_msg E m of
        None \<Rightarrow> c
      | Some msg \<Rightarrow> c\<lparr>cl_queue := cl_queue c @ [(broadcast_name m, msg)]\<rparr>)"

definition admission_msg :: "admission \<Rightarrow> record_msg" where
  "admission_msg a = \<lparr>msg_Admission = Some a, msg_Revocation = None\<rparr>"

definition revocation_msg :: "revocation \<Rightarrow> record_msg" where
  "revocation_msg r = \<lparr>msg_Admission = None, msg_Revocation = Some r\<rparr>"

section \<open>Admission, invitation and revocation\<close>

definition cluster_Identity :: "cluster_lib \<Rightarrow> cluster \<Rightarrow> public_key" where
  "cluster_Identity E c = id_Public (ed E) (cl_id c)"

definition Invite :: "(bytes \<Rightarrow> bytes) \<Rightarrow> (nat \<Rightarrow> bytes option) \<Rightarrow> int \<Rightarrow> cluster \<Rightarrow> int \<Rightarrow> int \<Rightarrow> cluster \<times> (token_error + string)" where
  "Invite sha rand now c ttl uses =
     (case Mint sha rand now (cl_tokens c) ttl uses of (tokens, r) \<Rightarrow> (c\<lparr>cl_tokens := tokens\<rparr>, r))"

definition cluster_Revoke :: "cluster_lib \<Rightarrow> save_faults \<Rightarrow> int64 \<Rightarrow> cluster \<Rightarrow> public_key \<Rightarrow> cluster \<times> cluster_error option" where
  "cluster_Revoke E f now c ident =
     (let rv = Revoke (ed E) (cl_id c) ident now in
      case AddRevocation (ed E) (cl_set c) rv of
        (s, Inl err) \<Rightarrow> (c\<lparr>cl_set := s\<rparr>, Some (RecordRejected err))
      | (s, Inr _) \<Rightarrow> (signalChanged (persist E f (broadcast E (c\<lparr>cl_set := s\<rparr>) (revocation_msg rv))), None))"

text \<open>
  \<^verbatim>\<open>RevokeSelf\<close>: memberlist's members and the outcome of sending to each are arguments; the
  messages handed over are returned with the number of members told.
\<close>

fun tell_members :: "string \<Rightarrow> (string \<Rightarrow> bool) \<Rightarrow> string list \<Rightarrow> nat \<Rightarrow> nat" where
  "tell_members local send_ok [] told = told"
| "tell_members local send_ok (m # ms) told =
     (if m = local then tell_members local send_ok ms told
      else if \<not> send_ok m then tell_members local send_ok ms told
      else tell_members local send_ok ms (told + 1))"

definition RevokeSelf ::
  "cluster_lib \<Rightarrow> save_faults \<Rightarrow> int64 \<Rightarrow> string list \<Rightarrow> (string \<Rightarrow> bool) \<Rightarrow> cluster \<Rightarrow> cluster \<times> (cluster_error + nat)" where
  "RevokeSelf E f now members send_ok c =
     (let rv = Revoke (ed E) (cl_id c) (cluster_Identity E c) now in
      case AddRevocation (ed E) (cl_set c) rv of
        (s, Inl err) \<Rightarrow> (c\<lparr>cl_set := s\<rparr>, Inl (RecordRejected err))
      | (s, Inr _) \<Rightarrow>
          (case enc_msg E (revocation_msg rv) of
             None \<Rightarrow> (c\<lparr>cl_set := s\<rparr>, Inl MessageEncoding)
           | Some msg \<Rightarrow>
               (persist E f (broadcast E (c\<lparr>cl_set := s\<rparr>) (revocation_msg rv)),
                Inr (tell_members (node_name (cl_local c)) send_ok members 0))))"

definition cluster_admit ::
  "cluster_lib \<Rightarrow> save_faults \<Rightarrow> int64 \<Rightarrow> cluster \<Rightarrow> public_key \<Rightarrow> string \<Rightarrow> cluster \<times> (cluster_error + admission \<times> records)" where
  "cluster_admit E f now c joiner name =
     (if NameTaken (cl_set c) name joiner then (c, Inl (NameExists name))
      else
        (let (s1, slot) =
           (case Lookup (cl_set c) joiner of
              Some cur \<Rightarrow>
                (case Valid (cl_set c) joiner of
                   (s, ok) \<Rightarrow> (s, if ok then Inr (adm_Host cur) else FreeHost s (MaxHost (cl_overlay c))))
            | None \<Rightarrow> (cl_set c, FreeHost (cl_set c) (MaxHost (cl_overlay c))))
         in
           case slot of
             Inl err \<Rightarrow> (c\<lparr>cl_set := s1\<rparr>, Inl (NoFreeSlot err))
           | Inr host \<Rightarrow>
               (let a = Admit (ed E) (cl_id c) joiner name host now in
                case AddAdmission (ed E) s1 a of
                  (s2, Inl err) \<Rightarrow> (c\<lparr>cl_set := s2\<rparr>, Inl (RecordRejected err))
                | (s2, Inr _) \<Rightarrow>
                    (let c' = saveState E f (broadcast E (c\<lparr>cl_set := s2\<rparr>) (admission_msg a)) in
                     (c', Inr (a, Records (cl_set c')))))))"

section \<open>memberlist's delegate\<close>

definition NodeMeta :: "cluster_lib \<Rightarrow> cluster \<Rightarrow> nat \<Rightarrow> bytes" where
  "NodeMeta E c limit = (case Encode (enc_meta E) (meta.truncate (cl_local c)) limit of Inl _ \<Rightarrow> [] | Inr b \<Rightarrow> b)"

definition NotifyMsg :: "cluster_lib \<Rightarrow> save_faults \<Rightarrow> cluster \<Rightarrow> bytes \<Rightarrow> cluster" where
  "NotifyMsg E f c b =
     (case dec_msg E b of
        None \<Rightarrow> c
      | Some m \<Rightarrow>
          (case (case msg_Admission m of
                   Some a \<Rightarrow> Some (AddAdmission (ed E) (cl_set c) a)
                 | None \<Rightarrow>
                     (case msg_Revocation m of
                        Some r \<Rightarrow> Some (AddRevocation (ed E) (cl_set c) r)
                      | None \<Rightarrow> None)) of
             None \<Rightarrow> c
           | Some (s, Inl _) \<Rightarrow> c\<lparr>cl_set := s\<rparr>
           | Some (s, Inr changed) \<Rightarrow>
               if changed then signalChanged (persist E f (broadcast E (c\<lparr>cl_set := s\<rparr>) m)) else c\<lparr>cl_set := s\<rparr>))"

definition LocalState :: "cluster_lib \<Rightarrow> cluster \<Rightarrow> bytes" where
  "LocalState E c = (case enc_records E (Records (cl_set c)) of None \<Rightarrow> [] | Some b \<Rightarrow> b)"

definition MergeRemoteState :: "cluster_lib \<Rightarrow> save_faults \<Rightarrow> cluster \<Rightarrow> bytes \<Rightarrow> cluster" where
  "MergeRemoteState E f c buf =
     (case dec_records E buf of
        None \<Rightarrow> c
      | Some rs \<Rightarrow>
          (case Merge (ed E) (cl_set c) rs of
             (s, n) \<Rightarrow> if 0 < n then signalChanged (persist E f (c\<lparr>cl_set := s\<rparr>)) else c\<lparr>cl_set := s\<rparr>))"

section \<open>Snapshots and subscribers\<close>

fun verified_nodes :: "cluster_lib \<Rightarrow> string \<Rightarrow> prefix \<Rightarrow> trust_set \<Rightarrow> ml_node list \<Rightarrow> trust_set \<times> node list" where
  "verified_nodes E local prefix s [] = (s, [])"
| "verified_nodes E local prefix s (n # ns) =
     (if mln_Name n = local then verified_nodes E local prefix s ns
      else
        (case DecodeMeta (dec_meta E) (mln_Meta n) of
           Inl _ \<Rightarrow> verified_nodes E local prefix s ns
         | Inr m \<Rightarrow>
             (let node = meta.extend m \<lparr>node_name = mln_Name n, node_addr = unmap (fst (addr_from_slice (mln_Addr n))),
                 node_port = mln_Port n\<rparr> in
              case verifyMeta E s prefix node of
                (s', Some _) \<Rightarrow> verified_nodes E local prefix s' ns
              | (s', None) \<Rightarrow> (case verified_nodes E local prefix s' ns of (s'', nodes) \<Rightarrow> (s'', node # nodes)))))"

definition snapshot :: "cluster_lib \<Rightarrow> ml_node list \<Rightarrow> cluster \<Rightarrow> cluster \<times> node list" where
  "snapshot E members c =
     (let s = fst (assignedAddr (cl_set c) (cl_overlay c) (cluster_Identity E c)) in
      case verified_nodes E (node_name (cl_local c)) (cl_overlay c) s members of
        (s', nodes) \<Rightarrow> (c\<lparr>cl_set := s'\<rparr>, nodes))"

text \<open>One turn of \<^verbatim>\<open>watch\<close>, once it has taken the signal: a snapshot, persisted and delivered.\<close>

definition watch_step :: "cluster_lib \<Rightarrow> save_faults \<Rightarrow> ml_node list \<Rightarrow> cluster \<Rightarrow> cluster" where
  "watch_step E f members c =
     (if \<not> cl_changed c \<or> cl_left c then c
      else
        (case snapshot E members (c\<lparr>cl_changed := False\<rparr>) of
           (c1, peers) \<Rightarrow>
             (let c2 = saveState E f (c1\<lparr>cl_boot := (cl_boot c1)\<lparr>boot_Peers := peers\<rparr>\<rparr>) in
              c2\<lparr>cl_subs := map (\<lambda>_. Some peers) (cl_subs c2)\<rparr>)))"

text \<open>
  \<^verbatim>\<open>Members\<close> adds a subscriber with an empty slot, unless the node has left: then the channel is
  closed at once, and nothing is added.
\<close>

definition Members :: "cluster \<Rightarrow> cluster \<times> bool" where
  "Members c =
     (if cl_left c then (c, False)
      else (signalChanged (c\<lparr>cl_subs := cl_subs c @ [None]\<rparr>), True))"

text \<open>A subscriber reading its slot empties it.\<close>

definition receive :: "cluster \<Rightarrow> nat \<Rightarrow> cluster \<times> node list option" where
  "receive c i =
     (if i < length (cl_subs c) then (c\<lparr>cl_subs := (cl_subs c)[i := None]\<rparr>, cl_subs c ! i) else (c, None))"

definition forward_event :: "cluster \<Rightarrow> string \<Rightarrow> cluster" where
  "forward_event c name = (if name = node_name (cl_local c) then c else signalChanged c)"

definition Leave :: "cluster_lib \<Rightarrow> save_faults \<Rightarrow> cluster \<Rightarrow> cluster" where
  "Leave E f c = (if cl_left c then c else (persist E f c)\<lparr>cl_subs := [], cl_left := True\<rparr>)"

section \<open>Starting a member\<close>

text \<open>
  \<^verbatim>\<open>New\<close>: the checks, the signed metadata and the initial state, persisted at the end. Whether the
  transport binds, and to which port, and whether memberlist starts are arguments.
\<close>

record config =
  cfg_path :: string
  cfg_OverlayNet :: prefix
  cfg_LocalNode :: "node option"
  cfg_Boot :: "bootstrap option"

definition sign_node :: "cluster_lib \<Rightarrow> identity \<Rightarrow> node \<Rightarrow> node" where
  "sign_node E i n =
     n\<lparr>meta_identity := id_Public (ed E) i,
       meta_signature := id_Sign (ed E) i (MetaDigest (node_name n) (meta_overlayAddr n) (meta_pubKey n) (meta_allowedIPs n))\<rparr>"

definition New ::
  "cluster_lib \<Rightarrow> save_faults \<Rightarrow> nat option \<Rightarrow> bool \<Rightarrow> files \<Rightarrow> config \<Rightarrow> cluster_error + cluster" where
  "New E f transport memberlist_ok fs cfg =
     (case (cfg_Boot cfg, cfg_LocalNode cfg) of
        (Some boot, Some local) \<Rightarrow>
          (let ident = boot_Identity boot; self = id_Public (ed E) ident;
               s0 = fst (Merge (ed E) (NewSet (boot_Root boot)) (boot_Records boot))
           in
             case Valid s0 self of
               (s1, False) \<Rightarrow> Inl (NotAClusterMember self (boot_Root boot))
             | (s1, True) \<Rightarrow>
                 (case assignedAddr s1 (cfg_OverlayNet cfg) self of
                    (s2, Inl err) \<Rightarrow> Inl err
                  | (s2, Inr want) \<Rightarrow>
                      if want \<noteq> meta_overlayAddr local then Inl (LocalAddress (meta_overlayAddr local) want)
                      else
                        (case transport of
                           None \<Rightarrow> Inl TransportFailed
                         | Some port \<Rightarrow>
                             if \<not> memberlist_ok then Inl MemberlistFailed
                             else Inr (persist E f
                               \<lparr>cl_path = cfg_path cfg, cl_local = sign_node E ident local, cl_id = ident, cl_set = s2,
                                cl_overlay = cfg_OverlayNet cfg, cl_port = port, cl_tokens = NewTokenStore, cl_queue = [],
                                cl_boot = boot\<lparr>boot_OverlayNet := cfg_OverlayNet cfg\<rparr>, cl_files = fs, cl_changed = False,
                                cl_subs = [], cl_left = False\<rparr>))))
      | _ \<Rightarrow> Inl BootRequired)"

text \<open>The enrolment server of a member, with its callbacks; \<open>render\<close> is the text of an error.\<close>

definition cluster_server ::
  "cluster_lib \<Rightarrow> save_faults \<Rightarrow> int64 \<Rightarrow> (cluster_error \<Rightarrow> string) \<Rightarrow> string \<Rightarrow> cluster \<Rightarrow> cluster server" where
  "cluster_server E f now render gossip c =
     \<lparr>srv_Identity = cl_id c, srv_Root = boot_Root (cl_boot c),
      srv_Admit = (\<lambda>c j name. case cluster_admit E f now c j name of (c', Inl e) \<Rightarrow> (c', Inl (render e)) | (c', Inr r) \<Rightarrow> (c', Inr r)),
      srv_GossipAddr = gossip, srv_Records = Some (\<lambda>c. Records (cl_set c)), srv_OverlayNet = cl_overlay c\<rparr>"

section \<open>The invariant\<close>

text \<open>
  The set is well-formed and rooted where the bootstrap says, and the bootstrap has this node's
  identity.
\<close>

definition wf_cluster :: "cluster_lib \<Rightarrow> cluster \<Rightarrow> bool" where
  "wf_cluster E c \<longleftrightarrow> wf_set (ed E) (cl_set c) \<and> set_root (cl_set c) = boot_Root (cl_boot c) \<and>
     boot_Identity (cl_boot c) = cl_id c"

lemma extend_node [simp]:
  "node_name (meta.extend m \<lparr>node_name = n, node_addr = a, node_port = p\<rparr>) = n"
  "node_addr (meta.extend m \<lparr>node_name = n, node_addr = a, node_port = p\<rparr>) = a"
  "node_port (meta.extend m \<lparr>node_name = n, node_addr = a, node_port = p\<rparr>) = p"
  "meta_identity (meta.extend m \<lparr>node_name = n, node_addr = a, node_port = p\<rparr>) = meta_identity m"
  "meta_pubKey (meta.extend m \<lparr>node_name = n, node_addr = a, node_port = p\<rparr>) = meta_pubKey m"
  "meta_overlayAddr (meta.extend m \<lparr>node_name = n, node_addr = a, node_port = p\<rparr>) = meta_overlayAddr m"
  by (simp_all add: meta.defs)

lemma assignedAddr_set: "fst (assignedAddr s p x) = fst (Valid s x)"
  by (simp add: assignedAddr_def case_prod_beta)

lemma verifyMeta_set: "fst (verifyMeta E s p n) = fst (Valid s (meta_identity n))"
  by (auto simp: verifyMeta_def assignedAddr_def case_prod_beta split: sum.splits)

lemma verified_nodes_Cons:
  "verified_nodes E l p s (n # ns) =
    (if mln_Name n = l then verified_nodes E l p s ns
     else
       (case DecodeMeta (dec_meta E) (mln_Meta n) of
          Inl _ \<Rightarrow> verified_nodes E l p s ns
        | Inr m \<Rightarrow>
            (let node = meta.extend m \<lparr>node_name = mln_Name n, node_addr = unmap (fst (addr_from_slice (mln_Addr n))),
                node_port = mln_Port n\<rparr>;
                 v = verifyMeta E s p node; r = verified_nodes E l p (fst v) ns
             in (fst r, if snd v = None then node # snd r else snd r))))"
  by (auto simp: Let_def split: sum.splits prod.splits option.splits)

text \<open>Verification queries validity and changes the set in no other way.\<close>

lemma verified_nodes_inv:
  assumes "P s" and "\<And>s x. P s \<Longrightarrow> P (fst (Valid s x))"
  shows "P (fst (verified_nodes E l p s ns))"
  using assms(1)
proof (induction ns arbitrary: s)
  case (Cons n ns)
  then show ?case
    using assms(2) by (auto simp: verified_nodes_Cons Let_def verifyMeta_set simp del: verified_nodes.simps split: sum.splits)
qed simp

lemma verified_nodes_wf [wf_intros]: "wf_set C s \<Longrightarrow> wf_set C (fst (verified_nodes E l p s ns))"
  by (rule verified_nodes_inv) (auto intro: wf_intros)

lemma same_records_trans: "same_records a b \<Longrightarrow> same_records b c \<Longrightarrow> same_records a c"
  by (simp add: same_records_def)

lemma verified_nodes_same: "same_records s (fst (verified_nodes E l p s ns))"
  by (rule verified_nodes_inv [where P = "\<lambda>t. same_records s t"]) (auto intro: same_records_trans)

section \<open>Who has which address\<close>

lemma HostConflict_members [simp]: "HostConflict (s\<lparr>set_members := ms\<rparr>) x = HostConflict s x"
proof -
  have "validAdmissions (s\<lparr>set_members := ms\<rparr>) = validAdmissions s" by (simp add: validAdmissions_def)
  then show ?thesis by (simp add: HostConflict_def split: option.split)
qed

lemma Valid_query: "fst (Valid s x) = s \<or> (\<exists>ms. fst (Valid s x) = s\<lparr>set_members := ms\<rparr>)"
  by (auto simp: Valid_def)

lemma HostConflict_Valid [simp]: "HostConflict (fst (Valid s x)) y = HostConflict s y"
  using Valid_query [of s x] by auto

lemma Lookup_Valid [simp]: "Lookup (fst (Valid s x)) y = Lookup s y"
  by (simp add: Lookup_def frame_simps)

lemma assignedAddr_Inr:
  assumes "wf_set C s"
  shows "snd (assignedAddr s p x) = Inr a \<longleftrightarrow>
    valid s x \<and> (\<exists>adm. Lookup s x = Some adm \<and> overlay_Addr p (adm_Host adm) = Some a) \<and> HostConflict s x = None"
proof -
  have "overlay_Addr p 0 = None" by (simp add: overlay_Addr_None)
  then show ?thesis
    using Valid_answer [OF assms, of x]
    by (auto simp: assignedAddr_def case_prod_beta Let_def no_admission_def split: option.splits)
qed

lemma assigned_distinct:
  assumes "wf_set C s" and "wf_prefix p" and "snd (assignedAddr s p x) = Inr a" and "snd (assignedAddr s p y) = Inr a"
  shows "x = y"
proof -
  obtain adm adm' where l: "Lookup s x = Some adm" "Lookup s y = Some adm'" and v: "valid s x" "valid s y"
    and addr: "overlay_Addr p (adm_Host adm) = Some a" "overlay_Addr p (adm_Host adm') = Some a"
    and free: "HostConflict s x = None" "HostConflict s y = None"
    using assms(3,4) assignedAddr_Inr [OF assms(1)] by blast
  have "adm_Host adm = adm_Host adm'" using overlay_Addr_inject [OF assms(2) addr] .
  then have "holds_slot s (adm_Host adm) x" "holds_slot s (adm_Host adm) y" using l v by (auto simp: holds_slot_def)
  then show ?thesis using one_holder [OF assms(1)] free by blast
qed

text \<open>
  C11. Overlay addresses are unique and inside the overlay network: in every reachable set, two
  identities are never assigned the same address, and an assigned address lies in the network and
  is neither its network nor its broadcast address.
\<close>

theorem assigned_addresses_unique:
  assumes "set_run C (NewSet root) s" and "wf_prefix p" and "prefix_is_valid p" and "snd (assignedAddr s p x) = Inr a"
  shows "(snd (assignedAddr s p y) = Inr a \<longrightarrow> y = x) \<and> prefix_contains p a \<and> a \<noteq> network_addr p \<and> a \<noteq> broadcast_addr p"
proof -
  have wf: "wf_set C s" using assms(1) wf_NewSet by (rule set_run_wf)
  then show ?thesis
    using assigned_distinct [OF wf assms(2)] assms(4) overlay_Addr_in_network [OF assms(2,3)] assignedAddr_Inr [OF wf] by blast
qed

theorem assigned_addresses_unique_witness:
  "let p = prefix_from (Addr4 0x0A000000) 8 in
   snd (assignedAddr demo_set p 3) = Inr (Addr4 0x0A000003) \<and> prefix_contains p (Addr4 0x0A000003)"
proof -
  let ?p = "prefix_from (Addr4 0x0A000000) 8"
  have p: "prefix_is_valid ?p" by (simp add: prefix_from_def prefix_is_valid_def)
  have lookup: "Lookup demo_set 3 = Some (demo_admission 2 3 ''c'' 3 200)" 
    using demo_set_eq [THEN arg_cong, of set_admissions] by (simp add: Lookup_def)
  have "List.find (stronger_claim 3 (demo_admission 2 3 ''c'' 3 200)) (validAdmissions demo_set) = None"
    by (simp add: validAdmissions_def demo_set_eq [THEN arg_cong, of set_admissions] stronger_claim_def)
  then have "HostConflict demo_set 3 = None" using lookup by (simp only: HostConflict_def Lookup_def option.case)
  then have a: "snd (assignedAddr demo_set ?p 3) = Inr (Addr4 0x0A000003)"
    unfolding assignedAddr_Inr [OF demo_set_wf] using lookup demo_overlay_Addr(1) demo_set_valid(3) demo_admission_simps(3)
    by metis
  then show ?thesis
    unfolding Let_def using assigned_addresses_unique [OF demo_set_run wf_prefix_from p a] by blast
qed

section \<open>Only verified nodes are handed out\<close>

text \<open>What a node that may be installed as a peer satisfies.\<close>

definition verified_node :: "cluster_lib \<Rightarrow> trust_set \<Rightarrow> prefix \<Rightarrow> node \<Rightarrow> bool" where
  "verified_node E s p n \<longleftrightarrow>
     valid s (meta_identity n) \<and> snd (assignedAddr s p (meta_identity n)) = Inr (meta_overlayAddr n) \<and>
     Verify (ed E) (meta_identity n) (MetaDigest (node_name n) (meta_overlayAddr n) (meta_pubKey n) (meta_allowedIPs n)) (meta_signature n) \<and>
     ParseKey E (meta_pubKey n)"

lemma assignedAddr_same:
  assumes "wf_set C s" and "wf_set C t" and "same_records s t"
  shows "snd (assignedAddr s p x) = Inr a \<longleftrightarrow> snd (assignedAddr t p x) = Inr a"
proof -
  have lookup: "Lookup t = Lookup s" and valid: "valid t = valid s"
    using assms(3) valid_same_records [OF assms(3)] by (auto simp: same_records_def Lookup_def fun_eq_iff)
  then have "holds_slot t = holds_slot s" and "claim t = claim s"
    by (simp_all add: holds_slot_def claim_def fun_eq_iff)
  then have "Lookup s x = Some adm \<Longrightarrow> HostConflict t x = None \<longleftrightarrow> HostConflict s x = None" for adm
    using HostConflict_None_iff [OF assms(1)] HostConflict_None_iff [OF assms(2)] lookup by simp
  then show ?thesis
    using assignedAddr_Inr [OF assms(1)] assignedAddr_Inr [OF assms(2)] lookup valid by auto
qed

lemma verifyMeta_None:
  assumes "wf_set (ed E) s"
  shows "snd (verifyMeta E s p n) = None \<longleftrightarrow> verified_node E s p n"
proof (cases "assignedAddr s p (meta_identity n)")
  case (Pair t r)
  show ?thesis
  proof (cases r)
    case (Inl e)
    with Pair show ?thesis by (simp add: verifyMeta_def verified_node_def)
  next
    case (Inr a)
    then have "valid s (meta_identity n)" using assignedAddr_Inr [OF assms, of p "meta_identity n" a] Pair by simp
    with Pair Inr show ?thesis by (auto simp: verifyMeta_def verified_node_def)
  qed
qed

lemma verified_node_same:
  "wf_set (ed E) s \<Longrightarrow> wf_set (ed E) t \<Longrightarrow> same_records s t \<Longrightarrow> verified_node E s p n = verified_node E t p n"
  using assignedAddr_same [of "ed E" s t] valid_same_records [of s t] by (simp add: verified_node_def)

lemma verified_nodes_sound:
  assumes "wf_set (ed E) s" and "n \<in> set (snd (verified_nodes E l p s ns))"
  shows "verified_node E s p n \<and> node_name n \<noteq> l \<and> node_name n \<in> mln_Name ` set ns"
  using assms
proof (induction ns arbitrary: s)
  case (Cons m ns)
  show ?case
  proof (cases "mln_Name m = l \<or> (\<exists>e. DecodeMeta (dec_meta E) (mln_Meta m) = Inl e)")
    case True
    then have "n \<in> set (snd (verified_nodes E l p s ns))"
      using Cons.prems(2) by (auto simp: verified_nodes_Cons simp del: verified_nodes.simps split: if_splits)
    then show ?thesis using Cons.IH [OF Cons.prems(1)] by auto
  next
    case False
    then obtain d where d: "mln_Name m \<noteq> l" "DecodeMeta (dec_meta E) (mln_Meta m) = Inr d"
      by (cases "DecodeMeta (dec_meta E) (mln_Meta m)") auto
    let ?n = "meta.extend d \<lparr>node_name = mln_Name m, node_addr = unmap (fst (addr_from_slice (mln_Addr m))), node_port = mln_Port m\<rparr>"
    let ?t = "fst (verifyMeta E s p ?n)"
    have t: "wf_set (ed E) ?t" "same_records s ?t"
      using Cons.prems(1) by (simp_all add: verifyMeta_set Valid_wf)
    have "n = ?n \<and> snd (verifyMeta E s p ?n) = None \<or> n \<in> set (snd (verified_nodes E l p ?t ns))"
      using Cons.prems(2) d by (auto simp: verified_nodes_Cons Let_def simp del: verified_nodes.simps split: if_splits)
    then show ?thesis
      using Cons.IH [OF t(1)] verifyMeta_None [OF Cons.prems(1)] verified_node_same [OF Cons.prems(1) t] d(1) by auto
  qed
qed simp

section \<open>Running members\<close>

lemma snapshot_sound:
  assumes "wf_set (ed E) (cl_set c)" and "n \<in> set (snd (snapshot E members c))"
  shows "verified_node E (cl_set c) (cl_overlay c) n \<and> node_name n \<noteq> node_name (cl_local c)"
proof -
  let ?s = "fst (assignedAddr (cl_set c) (cl_overlay c) (cluster_Identity E c))"
  have s: "wf_set (ed E) ?s" "same_records (cl_set c) ?s"
    using assms(1) by (simp_all add: assignedAddr_set Valid_wf)
  have "n \<in> set (snd (verified_nodes E (node_name (cl_local c)) (cl_overlay c) ?s members))"
    using assms(2) by (simp add: snapshot_def case_prod_beta Let_def)
  from verified_nodes_sound [OF s(1) this] show ?thesis
    using verified_node_same [OF assms(1) s] by blast
qed

text \<open>Every way a member's state changes while it runs.\<close>

inductive cluster_step :: "cluster_lib \<Rightarrow> cluster \<Rightarrow> cluster \<Rightarrow> bool" for E where
  invite: "cluster_step E c (fst (Invite sha rand now c ttl uses))"
| revoke: "cluster_step E c (fst (cluster_Revoke E f unix c x))"
| revoke_self: "cluster_step E c (fst (RevokeSelf E f unix names send_ok c))"
| admit: "cluster_step E c (fst (cluster_admit E f unix c x name))"
| notify: "cluster_step E c (NotifyMsg E f c b)"
| push_pull: "cluster_step E c (MergeRemoteState E f c b)"
| watch: "cluster_step E c (watch_step E f members c)"
| subscribe: "cluster_step E c (fst (Members c))"
| read: "cluster_step E c (fst (receive c i))"
| event: "cluster_step E c (forward_event c name)"
| leave: "cluster_step E c (Leave E f c)"

inductive cluster_run :: "cluster_lib \<Rightarrow> cluster \<Rightarrow> cluster \<Rightarrow> bool" for E where
  here: "cluster_run E c c"
| further: "cluster_run E c c' \<Longrightarrow> cluster_step E c' c'' \<Longrightarrow> cluster_run E c c''"

inductive_cases cluster_stepE: "cluster_step E c c'"

lemma cluster_frame [frame_simps]:
  "cl_set (saveState E f c) = cl_set c" "cl_set (persist E f c) = cl_set c" "cl_set (signalChanged c) = cl_set c"
  "cl_set (broadcast E c m) = cl_set c" "cl_id (saveState E f c) = cl_id c" "cl_id (persist E f c) = cl_id c"
  "cl_id (signalChanged c) = cl_id c" "cl_id (broadcast E c m) = cl_id c"
  "cl_overlay (saveState E f c) = cl_overlay c" "cl_overlay (persist E f c) = cl_overlay c"
  "cl_overlay (signalChanged c) = cl_overlay c" "cl_overlay (broadcast E c m) = cl_overlay c"
  "boot_Root (cl_boot (saveState E f c)) = boot_Root (cl_boot c)" "boot_Root (cl_boot (persist E f c)) = boot_Root (cl_boot c)"
  "cl_boot (signalChanged c) = cl_boot c" "cl_boot (broadcast E c m) = cl_boot c"
  "boot_Identity (cl_boot (saveState E f c)) = boot_Identity (cl_boot c)" "boot_Identity (cl_boot (persist E f c)) = boot_Identity (cl_boot c)"
  by (auto simp: saveState_def persist_def signalChanged_def broadcast_def Let_def split: option.splits)

lemma verified_nodes_run: "set_run C s (fst (verified_nodes E l p s ns))"
  by (rule verified_nodes_inv [where P = "\<lambda>t. set_run C s t"]) (auto intro: set_run.intros set_step.query)

lemma set_run_trans: "set_run C a b \<Longrightarrow> set_run C b c \<Longrightarrow> set_run C a c"
  by (rotate_tac, induction rule: set_run.induct) (auto intro: set_run.more)

lemma one_step: "set_step C s t \<Longrightarrow> set_run C s t"
  by (rule set_run.more [OF set_run.stay])

text \<open>The part of the state a step never touches.\<close>

definition pinned :: "cluster \<Rightarrow> public_key \<times> identity \<times> identity \<times> prefix" where
  "pinned c = (boot_Root (cl_boot c), boot_Identity (cl_boot c), cl_id c, cl_overlay c)"

lemma snapshot_run: "set_run (ed E) (cl_set c) (cl_set (fst (snapshot E members c))) \<and> pinned (fst (snapshot E members c)) = pinned c"
proof -
  let ?s = "fst (assignedAddr (cl_set c) (cl_overlay c) (cluster_Identity E c))"
  have "set_run (ed E) (cl_set c) ?s"
    unfolding assignedAddr_set by (rule one_step) (rule set_step.query)
  then have "set_run (ed E) (cl_set c) (fst (verified_nodes E (node_name (cl_local c)) (cl_overlay c) ?s members))"
    by (rule set_run_trans) (rule verified_nodes_run)
  then show ?thesis by (simp add: snapshot_def case_prod_beta Let_def pinned_def)
qed

lemma pinned_simps [simp]:
  "pinned (c\<lparr>cl_set := s\<rparr>) = pinned c" "pinned (saveState E f c) = pinned c" "pinned (persist E f c) = pinned c"
  "pinned (signalChanged c) = pinned c" "pinned (broadcast E c m) = pinned c" "pinned (c\<lparr>cl_tokens := t\<rparr>) = pinned c"
  "pinned (c\<lparr>cl_changed := b\<rparr>) = pinned c" "pinned (c\<lparr>cl_subs := x\<rparr>) = pinned c" "pinned (c\<lparr>cl_left := b\<rparr>) = pinned c"
  by (simp_all add: pinned_def frame_simps)

lemma admission_run: "set_run C s (fst (AddAdmission C s a))" and revocation_run: "set_run C s (fst (AddRevocation C s r))"
  and merge_run: "set_run C s (fst (Merge C s rs))" and query_run: "set_run C s (fst (Valid s x))"
  by (rule one_step, rule set_step.intros)+

definition refines_set :: "cluster_lib \<Rightarrow> cluster \<Rightarrow> cluster \<Rightarrow> bool" where
  "refines_set E c c' \<longleftrightarrow> set_run (ed E) (cl_set c) (cl_set c') \<and> pinned c' = pinned c"

lemma refines_revoke: "refines_set E c (fst (cluster_Revoke E f now c x))"
  using revocation_run [of "ed E" "cl_set c" "Revoke (ed E) (cl_id c) x now"]
  by (auto simp: refines_set_def cluster_Revoke_def Let_def frame_simps split: prod.splits sum.splits)

lemma refines_revoke_self: "refines_set E c (fst (RevokeSelf E f now ms ok c))"
  using revocation_run [of "ed E" "cl_set c" "Revoke (ed E) (cl_id c) (cluster_Identity E c) now"]
  by (auto simp: refines_set_def RevokeSelf_def Let_def frame_simps split: prod.splits sum.splits option.splits)

lemma refines_push_pull: "refines_set E c (MergeRemoteState E f c b)"
  using merge_run [of "ed E" "cl_set c"] 
  by (auto simp: refines_set_def MergeRemoteState_def frame_simps set_run.stay split: prod.splits option.splits) (metis fst_conv)+

lemma refines_notify: "refines_set E c (NotifyMsg E f c b)"
proof (cases "dec_msg E b")
  case None
  then show ?thesis by (simp add: refines_set_def NotifyMsg_def set_run.stay)
next
  case (Some m)
  then show ?thesis
    using admission_run [of "ed E" "cl_set c" "the (msg_Admission m)"] revocation_run [of "ed E" "cl_set c" "the (msg_Revocation m)"]
    by (auto simp: refines_set_def NotifyMsg_def frame_simps set_run.stay split: prod.splits option.splits sum.splits)
qed

text \<open>The slot a joiner gets, with the set after the query it takes.\<close>

definition joiner_slot :: "cluster \<Rightarrow> public_key \<Rightarrow> trust_set \<times> (trust_error + uint64)" where
  "joiner_slot c joiner =
     (case Lookup (cl_set c) joiner of
        Some cur \<Rightarrow>
          (case Valid (cl_set c) joiner of
             (s, ok) \<Rightarrow> (s, if ok then Inr (adm_Host cur) else FreeHost s (MaxHost (cl_overlay c))))
      | None \<Rightarrow> (cl_set c, FreeHost (cl_set c) (MaxHost (cl_overlay c))))"

lemma joiner_slot_run: "set_run C (cl_set c) (fst (joiner_slot c x))"
  using query_run [of C "cl_set c" x]
  by (auto simp: joiner_slot_def set_run.stay split: option.splits prod.splits)

lemma cluster_admit_slot:
  "cluster_admit E f now c joiner name =
    (if NameTaken (cl_set c) name joiner then (c, Inl (NameExists name))
     else
       (case joiner_slot c joiner of
          (s1, Inl err) \<Rightarrow> (c\<lparr>cl_set := s1\<rparr>, Inl (NoFreeSlot err))
        | (s1, Inr host) \<Rightarrow>
            (let a = Admit (ed E) (cl_id c) joiner name host now in
             case AddAdmission (ed E) s1 a of
               (s2, Inl err) \<Rightarrow> (c\<lparr>cl_set := s2\<rparr>, Inl (RecordRejected err))
             | (s2, Inr _) \<Rightarrow>
                 (let c' = saveState E f (broadcast E (c\<lparr>cl_set := s2\<rparr>) (admission_msg a)) in
                  (c', Inr (a, Records (cl_set c')))))))"
  unfolding cluster_admit_def joiner_slot_def Let_def case_prod_beta
  by (simp split: option.split sum.split)

lemma refines_admit: "refines_set E c (fst (cluster_admit E f now c x name))"
proof (cases "NameTaken (cl_set c) name x")
  case True
  then show ?thesis by (simp add: cluster_admit_slot refines_set_def set_run.stay)
next
  case False
  obtain s1 slot where slot: "joiner_slot c x = (s1, slot)" by fastforce
  have run: "set_run (ed E) (cl_set c) s1" using joiner_slot_run [of "ed E" c x] slot by simp
  show ?thesis
  proof (cases slot)
    case (Inl e)
    with False slot run show ?thesis by (simp add: cluster_admit_slot refines_set_def)
  next
    case (Inr host)
    have "set_run (ed E) (cl_set c) (fst (AddAdmission (ed E) s1 (Admit (ed E) (cl_id c) x name host now)))"
      using run by (rule set_run_trans) (rule admission_run)
    with False slot Inr show ?thesis
      by (auto simp: cluster_admit_slot refines_set_def Let_def frame_simps split: prod.splits sum.splits)
  qed
qed

lemma refines_watch: "refines_set E c (watch_step E f members c)"
proof -
  let ?c = "c\<lparr>cl_changed := False\<rparr>"
  have "pinned (c1\<lparr>cl_boot := (cl_boot c1)\<lparr>boot_Peers := ps\<rparr>\<rparr>) = pinned c1" for c1 ps
    by (simp add: pinned_def)
  then show ?thesis
    using snapshot_run [of E ?c members]
    by (auto simp: watch_step_def refines_set_def Let_def frame_simps set_run.stay split: prod.splits)
qed

lemma cluster_step_refines: "cluster_step E c c' \<Longrightarrow> refines_set E c c'"
proof (erule cluster_stepE)
qed (use refines_revoke refines_revoke_self refines_push_pull refines_notify refines_admit refines_watch
    in \<open>auto simp: refines_set_def Invite_def Members_def receive_def forward_event_def Leave_def frame_simps
      set_run.stay split: prod.splits\<close>)

lemma cluster_run_refines: "cluster_run E c c' \<Longrightarrow> refines_set E c c'"
proof (induction rule: cluster_run.induct)
  case (here c)
  then show ?case by (simp add: refines_set_def set_run.stay)
next
  case (further c c' c'')
  then show ?case
    using cluster_step_refines [of E c' c''] set_run_trans by (auto simp: refines_set_def)
qed

text \<open>What a new member starts with: the set its bootstrap's records give, and itself in it.\<close>

lemma New_member:
  assumes "New E f t ok fs cfg = Inr c"
  obtains boot local where "cfg_Boot cfg = Some boot" "cfg_LocalNode cfg = Some local"
    "set_run (ed E) (NewSet (boot_Root boot)) (cl_set c)"
    "same_records (fst (Merge (ed E) (NewSet (boot_Root boot)) (boot_Records boot))) (cl_set c)"
    "pinned c = (boot_Root boot, boot_Identity boot, boot_Identity boot, cfg_OverlayNet cfg)"
    "cl_local c = sign_node E (boot_Identity boot) local"
    "snd (assignedAddr (cl_set c) (cfg_OverlayNet cfg) (id_Public (ed E) (boot_Identity boot))) = Inr (meta_overlayAddr local)"
proof -
  obtain boot local where cfg: "cfg_Boot cfg = Some boot" "cfg_LocalNode cfg = Some local"
    using assms by (auto simp: New_def split: option.splits)
  let ?self = "id_Public (ed E) (boot_Identity boot)"
  let ?s0 = "fst (Merge (ed E) (NewSet (boot_Root boot)) (boot_Records boot))"
  let ?s1 = "fst (Valid ?s0 ?self)" and ?p = "cfg_OverlayNet cfg"
  let ?s2 = "fst (assignedAddr ?s1 ?p ?self)"
  have c: "cl_set c = ?s2" "cl_local c = sign_node E (boot_Identity boot) local"
    "pinned c = (boot_Root boot, boot_Identity boot, boot_Identity boot, ?p)"
    and want: "snd (assignedAddr ?s1 ?p ?self) = Inr (meta_overlayAddr local)"
    using assms cfg
    by (auto simp: New_def Let_def pinned_def persist_def saveState_def split: prod.splits bool.splits sum.splits option.splits if_splits)
  have run: "set_run (ed E) (NewSet (boot_Root boot)) ?s2"
    unfolding assignedAddr_set using merge_run query_run set_run_trans by metis
  have same: "same_records ?s0 ?s2" "same_records ?s1 ?s2"
    unfolding assignedAddr_set using Valid_same_records(2) same_records_trans by metis+
  have wf: "wf_set (ed E) ?s1" by (intro wf_intros)
  then have "snd (assignedAddr ?s2 ?p ?self) = Inr (meta_overlayAddr local)"
    using assignedAddr_same [OF wf _ same(2)] want Valid_wf unfolding assignedAddr_set by metis
  with that cfg c run same(1) show ?thesis by metis
qed

lemma New_starts:
  assumes "cfg_Boot cfg = Some boot" and "cfg_LocalNode cfg = Some local"
    and "s = fst (Merge (ed E) (NewSet (boot_Root boot)) (boot_Records boot))" and "x = id_Public (ed E) (boot_Identity boot)"
    and "snd (Valid s x)" and "snd (assignedAddr (fst (Valid s x)) (cfg_OverlayNet cfg) x) = Inr (meta_overlayAddr local)"
  shows "\<exists>c. New E f (Some port) True fs cfg = Inr c"
proof -
  obtain t u where "Valid s x = (t, True)" "assignedAddr t (cfg_OverlayNet cfg) x = (u, Inr (meta_overlayAddr local))"
    using assms(5,6) by (cases "Valid s x"; cases "assignedAddr (fst (Valid s x)) (cfg_OverlayNet cfg) x") auto
  with assms(1-4) show ?thesis by (simp add: New_def Let_def)
qed

end
