(* ===== verification/Cluster_Example.thy ===== *)
theory Cluster_Example
  imports Cluster Trust_Merge
begin

text \<open>
  A concrete member for the witnesses of the cluster's properties: the set of \<open>Trust_Validity\<close>'s
  example (root 1 admitted 2, which admitted 3) held by node 1 and node 2, in the overlay network
  10.0.0.0/8, with codecs that carry what the examples send.
\<close>

definition demo_msg :: record_msg where
  "demo_msg = admission_msg (demo_admission 1 4 ''d'' 4 250)"

definition demo_meta :: meta where
  "demo_meta = \<lparr>meta_overlayAddr = Addr4 0x0A000002, meta_pubKey = ''k'', meta_allowedIPs = [], meta_identity = 2,
     meta_signature = id_Sign demo_ed25519 (demo_identity 2) (MetaDigest ''b'' (Addr4 0x0A000002) ''k'' [])\<rparr>"

definition demo_cluster_lib :: cluster_lib where
  "demo_cluster_lib = \<lparr>ed = demo_ed25519, state_json = demo_codec, enc_msg = (\<lambda>_. Some [2]), dec_msg = (\<lambda>_. Some demo_msg),
     enc_records = (\<lambda>rs. Some (if rs = Records demo_set then [1] else [])),
     dec_records = (\<lambda>b. Some (if b = [1] then Records demo_set else Records (NewSet 1))),
     enc_meta = (\<lambda>_. Some [3]), dec_meta = (\<lambda>_. Some demo_meta), ParseKey = (\<lambda>_. True)\<rparr>"

definition demo_net :: prefix where
  "demo_net = prefix_from (Addr4 0x0A000000) 8"

definition demo_node :: node where
  "demo_node = \<lparr>meta_overlayAddr = Addr4 0x0A000001, meta_pubKey = ''k'', meta_allowedIPs = [], meta_identity = 1, meta_signature = [],
     node_name = ''a'', node_addr = NoAddr, node_port = 0\<rparr>"

definition demo_cluster :: cluster where
  "demo_cluster = \<lparr>cl_path = ''p'', cl_local = demo_node, cl_id = demo_identity 1, cl_set = demo_set,
     cl_overlay = demo_net, cl_port = 7946, cl_tokens = demo_tokens, cl_queue = [],
     cl_boot = boot_of (demo_identity 1) (empty_state\<lparr>st_Root := Some 1\<rparr>), cl_files = Map.empty, cl_changed = False, cl_subs = [],
     cl_left = False\<rparr>"

lemma demo_wf_cluster: "wf_cluster demo_cluster_lib demo_cluster"
  using demo_set_wf by (simp add: wf_cluster_def demo_cluster_lib_def demo_cluster_def boot_of_def demo_set_eq [THEN arg_cong, of set_root])

text \<open>Node 2, as its bootstrap has it, and its start.\<close>

definition demo_config :: config where
  "demo_config = \<lparr>cfg_path = ''p'', cfg_OverlayNet = demo_net,
     cfg_LocalNode = Some (demo_node\<lparr>meta_overlayAddr := Addr4 0x0A000002, node_name := ''b''\<rparr>),
     cfg_Boot = Some (boot_of (demo_identity 2) (empty_state\<lparr>st_Root := Some 1, st_Records := Records demo_set\<rparr>))\<rparr>"

lemma demo_assigned: "snd (assignedAddr demo_set demo_net 2) = Inr (Addr4 0x0A000002)"
proof -
  let ?a = "demo_admission 1 2 ''b'' 2 100"
  have lookup: "Lookup demo_set 2 = Some ?a"
    using demo_set_eq [THEN arg_cong, of set_admissions] by (simp add: Lookup_def)
  have "List.find (stronger_claim 2 ?a) (validAdmissions demo_set) = None"
    by (simp add: validAdmissions_def demo_set_eq [THEN arg_cong, of set_admissions] stronger_claim_def)
  then have "HostConflict demo_set 2 = None" using lookup by (simp only: HostConflict_def Lookup_def option.case)
  moreover have "overlay_Addr demo_net 2 = Some (Addr4 0x0A000002)" by code_simp
  ultimately show ?thesis
    unfolding assignedAddr_Inr [OF demo_set_wf] using lookup demo_set_valid(2) demo_admission_simps(3) by metis
qed

lemma demo_New: "\<exists>c. New demo_cluster_lib (demo_faults True) (Some 7946) True Map.empty demo_config = Inr c"
proof -
  let ?s0 = "fst (Merge demo_ed25519 (NewSet 1) (Records demo_set))"
  let ?s1 = "fst (Valid ?s0 2)"
  have root: "set_root demo_set = 1" by (simp add: demo_set_eq)
  have same: "same_records ?s0 demo_set" using merge_records_same [OF demo_set_wf] by (simp only: root)
  have wf: "wf_set demo_ed25519 ?s0" "wf_set demo_ed25519 ?s1" by (intro wf_intros)+
  have v: "snd (Valid ?s0 2)" using valid_by [OF wf(1)] valid_same_records [OF same] by simp
  have "snd (assignedAddr ?s1 demo_net 2) = Inr (Addr4 0x0A000002)"
    using assignedAddr_same [OF wf(2) demo_set_wf same_records_trans [OF Valid_same_records(1) same]] demo_assigned(1) by blast
  moreover let ?b = "boot_of (demo_identity 2) (empty_state\<lparr>st_Root := Some 1, st_Records := Records demo_set\<rparr>)"
  have "boot_Root ?b = 1" "boot_Records ?b = Records demo_set" "id_Public demo_ed25519 (boot_Identity ?b) = 2" "ed demo_cluster_lib = demo_ed25519"
    by (simp_all add: boot_of_def demo_cluster_lib_def)
  moreover have "cfg_Boot demo_config = Some ?b" "cfg_OverlayNet demo_config = demo_net"
    "cfg_LocalNode demo_config = Some (demo_node\<lparr>meta_overlayAddr := Addr4 0x0A000002, node_name := ''b''\<rparr>)"
    by (simp_all add: demo_config_def)
  ultimately show ?thesis using v New_starts [of demo_config ?b, OF _ _ refl refl] by simp
qed

end
