(* ===== verification/Cluster_Enrolment.thy ===== *)
theory Cluster_Enrolment
  imports Cluster_Example
begin

text \<open>
  Enrolment into a running cluster: the enrolment server of \<open>Enrol_Protocol\<close> composed with the
  cluster's \<^verbatim>\<open>admit\<close> (\<^verbatim>\<open>internal/cluster/cluster.go\<close>). The locale \<open>admission_service\<close> states what
  the exchange relies on: a callback that, when the member is ready for a joiner, admits it with
  records that prove both of them members. The exchange completes for every such service; the
  cluster's \<^verbatim>\<open>admit\<close> is shown to be one.
\<close>

section \<open>The interface\<close>

definition proves_members :: "ed25519 \<Rightarrow> public_key \<Rightarrow> public_key \<Rightarrow> public_key \<Rightarrow> admission \<Rightarrow> records \<Rightarrow> bool" where
  "proves_members C root self j adm recs \<longleftrightarrow>
     (let s = fst (Merge C (NewSet root) recs) in
      adm_Identity adm = j \<and> adm_Admitter adm = self \<and> valid s self \<and> accepts_admission C root adm \<and>
      valid (fst (AddAdmission C s adm)) j)"

locale admission_service =
  fixes C :: ed25519 and root self :: public_key
    and admit :: "'w \<Rightarrow> public_key \<Rightarrow> string \<Rightarrow> 'w \<times> (string + admission \<times> records)"
    and ready :: "'w \<Rightarrow> public_key \<Rightarrow> string \<Rightarrow> bool"
  assumes admits: "ready w j name \<Longrightarrow>
    \<exists>w' adm recs. admit w j name = (w', Inr (adm, recs)) \<and> proves_members C root self j adm recs"
begin

lemma welcome_accepted:
  assumes "proves_members C root self j adm recs" and "w_Error wm = ''''" and "w_Root wm = root"
    and "w_Records wm = recs" and "w_Admission wm = adm"
  shows "check_welcome C wm j self = None"
proof -
  let ?s = "fst (Merge C (NewSet root) recs)"
  have wf: "wf_set C ?s" by (intro wf_intros)
  have wf1: "wf_set C (fst (Valid ?s self))" using wf by (rule Valid_wf)
  have root1: "set_root (fst (Valid ?s self)) = root" by (simp add: frame_simps Merge_absorb NewSet_def)
  have same: "same_records (fst (AddAdmission C (fst (Valid ?s self)) adm)) (fst (AddAdmission C ?s adm))"
    by (auto simp: same_records_def AddAdmission_absorb frame_simps)
  have ok: "snd (Valid ?s self)" "snd (Valid (fst (AddAdmission C (fst (Valid ?s self)) adm)) j)"
    using assms(1) valid_by [OF wf] valid_by [OF AddAdmission_wf [OF wf1]] valid_same_records [OF same]
    by (simp_all add: proves_members_def Let_def)
  have "\<exists>b. snd (AddAdmission C (fst (Valid ?s self)) adm) = Inr b"
    using assms(1) root1 by (cases rule: AddAdmission_cases [of C "fst (Valid ?s self)" adm]) (auto simp: proves_members_def Let_def)
  with ok assms show ?thesis
    by (auto simp: check_welcome_def proves_members_def Let_def case_prod_beta split: sum.splits)
qed

lemma exchange_completes:
  assumes "ready w (id_Public C i) name" and "srv_Admit s = admit" and "srv_Root s = root" and "id_Public C (srv_Identity s) = self"
    and "length (sha256 L key) = 32" and "length key = tokenLen" and "name \<noteq> ''''"
    and "rand nonceLen = Some nJ" and "length nJ = nonceLen" and "in_rand inp nonceLen = Some nM" and "length nM = nonceLen"
    and "token_lookup (in_now_lookup inp) tokens (idOf (sha256 L) key) = (seen, Some key)"
    and "token_consume (in_now_consume inp) seen (idOf (sha256 L) key) = (left, True)"
    and "snd (welcomeFits L s w (in_unix inp) name)"
  shows "\<exists>w' adm recs r. admit w (id_Public C i) name = (w', Inr (adm, recs)) \<and> r = honest_run C L s i key name nJ nM adm recs \<and>
    proves_members C root self (id_Public C i) adm recs \<and>
    (\<forall>cm cj. run_carried L r \<longrightarrow> PeerIdentity cm = id_Public C i \<longrightarrow> conn_in cm = joiner_sends L r \<longrightarrow> length (member_sends L r) \<le> conn_room cm \<longrightarrow>
       PeerIdentity cj = self \<longrightarrow> conn_in cj = member_sends L r \<longrightarrow> length (joiner_sends L r) \<le> conn_room cj \<longrightarrow>
       (\<exists>cm' cj'. handle C L s inp cm tokens w = (cm', left, w', None) \<and> conn_out cm' = conn_out cm @ conn_in cj \<and>
          Join C L rand cj (encodeToken key) i name = (cj', Inr (run_welcome r, self)) \<and> conn_out cj' = conn_out cj @ conn_in cm))"
proof -
  obtain w' adm recs where adm: "admit w (id_Public C i) name = (w', Inr (adm, recs))"
    and pm: "proves_members C root self (id_Public C i) adm recs"
    using admits [OF assms(1)] by blast
  let ?r = "honest_run C L s i key name nJ nM adm recs"
  have ok: "check_welcome C (run_welcome ?r) (id_Public C i) (id_Public C (srv_Identity s)) = None"
    unfolding assms(4) by (rule welcome_accepted [OF pm]) (simp_all add: honest_run_def Let_def assms(3))
  have dec: "decodeToken (unicode_norm L) (encodeToken key) = Inr key"
    using assms(6) by (rule decodeToken_encodeToken)
  have srv: "srv_Admit s w (id_Public C i) name = (w', Inr (adm, recs))" using adm assms(2) by simp
  have "\<exists>cm' cj'. handle C L s inp cm tokens w = (cm', left, w', None) \<and> conn_out cm' = conn_out cm @ conn_in cj \<and>
      Join C L rand cj (encodeToken key) i name = (cj', Inr (run_welcome ?r, self)) \<and> conn_out cj' = conn_out cj @ conn_in cm"
    if carry: "run_carried L ?r" and "PeerIdentity cm = id_Public C i" "conn_in cm = joiner_sends L ?r" "length (member_sends L ?r) \<le> conn_room cm"
      "PeerIdentity cj = self" "conn_in cj = member_sends L ?r" "length (joiner_sends L ?r) \<le> conn_room cj" for cm cj
    using honest_member [OF refl carry assms(5,9,10,7,12-14) srv that(2-4)]
      honest_joiner [where rand = rand, OF refl carry dec assms(8,11) ok _ that(6,7)] that assms(4) by auto
  with adm pm show ?thesis by blast
qed

end

section \<open>The cluster provides it\<close>

text \<open>A member that is ready for a joiner: in good standing, its clock past every record, a slot free.\<close>

definition joinable :: "cluster_lib \<Rightarrow> int64 \<Rightarrow> cluster \<Rightarrow> public_key \<Rightarrow> string \<Rightarrow> bool" where
  "joinable E now c j name \<longleftrightarrow>
     ed25519_correct (ed E) \<and> wf_cluster E c \<and> wf_identity (ed E) (cl_id c) \<and> valid (cl_set c) (id_Public (ed E) (cl_id c)) \<and>
     unknown (cl_set c) j \<and> j \<noteq> id_Public (ed E) (cl_id c) \<and> name \<noteq> '''' \<and> \<not> NameTaken (cl_set c) name j \<and>
     (\<forall>u \<in> record_times (cl_set c). sint u < sint now) \<and> (\<exists>h. slot_in_range (MaxHost (cl_overlay c)) h \<and> \<not> slot_used (cl_set c) h)"

lemma FreeHost_unused:
  assumes "slot_in_range limit h" and "\<not> slot_used s h"
  shows "\<exists>k. FreeHost s limit = Inr k \<and> k \<noteq> 0 \<and> \<not> slot_used s k"
proof -
  let ?taken = "map (\<lambda>(ident, a). adm_Host a) (set_admissions s)"
  have used: "h \<in> set ?taken \<longleftrightarrow> slot_used s h" for h by (force simp: slot_used_def)
  then obtain k where k: "free_slot ?taken limit 1 = Some k"
    using free_slot_lowest(2) [OF used, of limit h] assms by (cases "free_slot ?taken limit 1") auto
  then have "FreeHost s limit = Inr k" by (simp add: FreeHost_def Let_def)
  moreover have "lowest_slot (slot_used s) limit k" using free_slot_lowest(1) [OF used k] .
  ultimately show ?thesis by (auto simp: lowest_slot_def slot_in_range_def slot_nonzero)
qed

text \<open>
  What admitting a joiner does, when the member is ready for it: the admission is stored, the
  joiner is a member under its name at an unused slot, and nobody else is affected.
\<close>

lemma cluster_admit_ready:
  assumes "joinable E now c j name"
  obtains host c' s2 where "cluster_admit E f now c j name = (c', Inr (Admit (ed E) (cl_id c) j name host now, Records s2))"
    "cl_set c' = s2" "wf_set (ed E) s2" "set_root s2 = set_root (cl_set c)" "valid s2 j" "valid s2 (id_Public (ed E) (cl_id c))"
    "Lookup s2 j = Some (Admit (ed E) (cl_id c) j name host now)" "\<not> slot_used (cl_set c) host"
    "accepts_admission (ed E) (set_root s2) (Admit (ed E) (cl_id c) j name host now)"
    "\<And>z. z \<noteq> j \<Longrightarrow> valid s2 z = valid (cl_set c) z"
proof -
  let ?C = "ed E" and ?s = "cl_set c"
  note J = assms [unfolded joinable_def]
  obtain host where host: "FreeHost ?s (MaxHost (cl_overlay c)) = Inr host" "host \<noteq> 0" "\<not> slot_used ?s host"
    using J FreeHost_unused by blast
  let ?a = "Admit ?C (cl_id c) j name host now"
  have "Lookup ?s j = None" using J by (simp add: unknown_def Lookup_def)
  then have slot: "joiner_slot c j = (?s, Inr host)" using host(1) by (simp add: joiner_slot_def)
  have acc: "accepts_admission ?C (set_root ?s) ?a" and new: "newer_admission ?s ?a"
    using J host(2) Admit_Validate [of ?C "cl_id c"] by (auto simp: accepts_admission_def newer_admission_def unknown_def)
  let ?s2 = "?s\<lparr>set_admissions := AList.update j ?a (set_admissions ?s), set_members := []\<rparr>"
  have add: "AddAdmission ?C ?s ?a = (?s2, Inr True)" using AddAdmission_newer [OF acc new] by simp
  let ?c' = "saveState E f (broadcast E (c\<lparr>cl_set := ?s2\<rparr>) (admission_msg ?a))"
  have "cluster_admit E f now c j name = (?c', Inr (?a, Records ?s2))"
    using J slot add by (simp add: cluster_admit_slot Let_def frame_simps)
  moreover have "cl_set ?c' = ?s2" by (simp add: frame_simps)
  moreover have "wf_set ?C ?s2"
    using J AddAdmission_wf [of ?C ?s ?a] add by (simp add: wf_cluster_def)
  moreover have v: "valid ?s2 j" "z \<noteq> j \<Longrightarrow> valid ?s2 z = valid ?s z" for z
    using admission_exact [of ?s j ?a ?s2] J by auto
  moreover have "valid ?s2 (id_Public ?C (cl_id c))" using v(2) J by auto
  ultimately show ?thesis using that acc host(3) by (simp add: Lookup_def)
qed

lemma joinable_proves_members:
  assumes "joinable E now c j name"
  shows "\<exists>c' adm recs. cluster_admit E f now c j name = (c', Inr (adm, recs)) \<and>
    proves_members (ed E) (boot_Root (cl_boot c)) (id_Public (ed E) (cl_id c)) j adm recs"
proof -
  obtain host c' s2 where c': "cluster_admit E f now c j name = (c', Inr (Admit (ed E) (cl_id c) j name host now, Records s2))"
    and s2: "wf_set (ed E) s2" "set_root s2 = set_root (cl_set c)" "valid s2 j" "valid s2 (id_Public (ed E) (cl_id c))"
      "Lookup s2 j = Some (Admit (ed E) (cl_id c) j name host now)"
      "accepts_admission (ed E) (set_root s2) (Admit (ed E) (cl_id c) j name host now)"
    using cluster_admit_ready [OF assms, of f] by metis
  let ?a = "Admit (ed E) (cl_id c) j name host now" and ?m = "fst (Merge (ed E) (NewSet (set_root s2)) (Records s2))"
  have root: "set_root s2 = boot_Root (cl_boot c)" using assms s2(2) by (simp add: joinable_def wf_cluster_def)
  have same: "same_records ?m s2" using merge_records_same [OF s2(1)] .
  have "map_of (set_admissions ?m) j = Some ?a" using same s2(5) by (simp add: same_records_def Lookup_def)
  then have "fst (AddAdmission (ed E) ?m ?a) = ?m"
    by (cases rule: AddAdmission_cases [of "ed E" ?m ?a]) (auto simp: newer_admission_def)
  then show ?thesis
    using c' s2(3,4,6) valid_same_records [OF same] by (auto simp: proves_members_def Let_def root [symmetric])
qed

interpretation cluster_service: admission_service "ed E" "boot_Root (cl_boot c0)" "id_Public (ed E) (cl_id c0)"
  "srv_Admit (cluster_server E f now render gossip c0)" "\<lambda>c j name. pinned c = pinned c0 \<and> joinable E now c j name"
proof unfold_locales
  fix c j name
  assume ready: "pinned c = pinned c0 \<and> joinable E now c j name"
  then obtain c' adm recs where "cluster_admit E f now c j name = (c', Inr (adm, recs))"
    "proves_members (ed E) (boot_Root (cl_boot c)) (id_Public (ed E) (cl_id c)) j adm recs"
    using joinable_proves_members [of E now c j name f] by blast
  with ready show "\<exists>w' adm recs. srv_Admit (cluster_server E f now render gossip c0) c j name = (w', Inr (adm, recs)) \<and>
      proves_members (ed E) (boot_Root (cl_boot c0)) (id_Public (ed E) (cl_id c0)) j adm recs"
    by (auto simp: cluster_server_def pinned_def)
qed

text \<open>
  C6. A joiner with a valid invitation is enrolled: on a running member in good standing whose
  clock is past every record and whose overlay network has an unused slot, an honest exchange
  with a joiner nobody knows, under a name nobody has, admits it. The exchange completes on both
  sides once the messages survive their encoding, the token loses one use, and the member's set
  has the joiner as a member and everybody else as before.
\<close>

theorem enrolment_completes:
  assumes "joinable E now c (id_Public (ed E) i) name" and "s = cluster_server E f now render gossip c"
    and "length (sha256 L key) = 32" and "length key = tokenLen"
    and "rand nonceLen = Some nJ" and "length nJ = nonceLen" and "in_rand inp nonceLen = Some nM" and "length nM = nonceLen"
    and "token_lookup (in_now_lookup inp) tokens (idOf (sha256 L) key) = (seen, Some key)"
    and "token_consume (in_now_consume inp) seen (idOf (sha256 L) key) = (left, True)"
    and "snd (welcomeFits L s c (in_unix inp) name)"
  shows "\<exists>c' adm r. fst (cluster_admit E f now c (id_Public (ed E) i) name) = c' \<and>
    r = honest_run (ed E) L s i key name nJ nM adm (Records (cl_set c')) \<and>
    snd (Valid (cl_set c') (id_Public (ed E) i)) \<and> Lookup (cl_set c') (id_Public (ed E) i) = Some adm \<and>
    (\<forall>z. z \<noteq> id_Public (ed E) i \<longrightarrow> valid (cl_set c') z = valid (cl_set c) z) \<and>
    (\<forall>cm cj. run_carried L r \<longrightarrow> PeerIdentity cm = id_Public (ed E) i \<longrightarrow> conn_in cm = joiner_sends L r \<longrightarrow>
       length (member_sends L r) \<le> conn_room cm \<longrightarrow> PeerIdentity cj = cluster_Identity E c \<longrightarrow> conn_in cj = member_sends L r \<longrightarrow>
       length (joiner_sends L r) \<le> conn_room cj \<longrightarrow>
       (\<exists>cm' cj'. handle (ed E) L s inp cm tokens c = (cm', left, c', None) \<and> conn_out cm' = conn_out cm @ conn_in cj \<and>
          Join (ed E) L rand cj (encodeToken key) i name = (cj', Inr (run_welcome r, cluster_Identity E c)) \<and>
          conn_out cj' = conn_out cj @ conn_in cm))"
proof -
  let ?j = "id_Public (ed E) i"
  have name: "name \<noteq> ''''" using assms(1) by (simp add: joinable_def)
  have srv: "srv_Admit s = srv_Admit (cluster_server E f now render gossip c)" "srv_Root s = boot_Root (cl_boot c)"
    "id_Public (ed E) (srv_Identity s) = id_Public (ed E) (cl_id c)"
    using assms(2) by (simp_all add: cluster_server_def)
  obtain host c' s2 where c': "cluster_admit E f now c ?j name = (c', Inr (Admit (ed E) (cl_id c) ?j name host now, Records s2))"
    and s2: "cl_set c' = s2" "wf_set (ed E) s2" "valid s2 ?j" "Lookup s2 ?j = Some (Admit (ed E) (cl_id c) ?j name host now)"
      "\<And>z. z \<noteq> ?j \<Longrightarrow> valid s2 z = valid (cl_set c) z"
    using cluster_admit_ready [OF assms(1), of f] by metis
  have srv_admit: "srv_Admit (cluster_server E f now render gossip c) c ?j name = (c', Inr (Admit (ed E) (cl_id c) ?j name host now, Records s2))"
    using c' by (simp add: cluster_server_def)
  note complete = cluster_service.exchange_completes [where rand = rand and inp = inp and E = E and now = now and w = c and ?c0.0 = c and L = L,
    OF conjI [OF refl assms(1)] srv assms(3,4) name assms(5-11)]
  show ?thesis
    using complete [unfolded srv_admit] s2 valid_by [OF s2(2)] c' by (auto simp: cluster_Identity_def)
qed

section \<open>A concrete member\<close>

lemma demo_joinable: "joinable demo_cluster_lib 300 demo_cluster 5 ''e''"
proof -
  let ?b = "demo_admission 1 2 ''b'' 2 100" and ?c = "demo_admission 2 3 ''c'' 3 200"
  have adms: "set_admissions demo_set = [(2, ?b), (3, ?c)]" and revs: "set_revocations demo_set = []" "set_root demo_set = 1"
    by (simp_all add: demo_set_eq)
  have "validAdmissions demo_set = [?b, ?c]" unfolding validAdmissions_def by (simp add: adms)
  then have "\<not> NameTaken demo_set ''e'' 5" by (simp add: NameTaken_def)
  moreover have "unknown demo_set 5" by (simp add: unknown_def adms revs)
  moreover have "slot_in_range (MaxHost (prefix_from (Addr4 0x0A000000) 8)) 1 \<and> \<not> slot_used demo_set 1"
    by (simp add: slot_in_range_def slot_used_def adms MaxHost_def prefix_from_def Let_def)
  ultimately show ?thesis
    using demo_set_wf demo_set_late revs
    by (auto simp: joinable_def wf_cluster_def demo_cluster_lib_def demo_cluster_def demo_net_def boot_of_def)
qed

theorem enrolment_completes_witness:
  "\<exists>c' adm. fst (cluster_admit demo_cluster_lib (demo_faults True) 300 demo_cluster 5 ''e'') = c' \<and>
    snd (Valid (cl_set c') 5) \<and> Lookup (cl_set c') 5 = Some adm \<and> (\<forall>z. z \<noteq> 5 \<longrightarrow> valid (cl_set c') z = valid demo_set z)"
proof -
  have pub: "id_Public (ed demo_cluster_lib) (demo_identity 5) = 5" by (simp add: demo_cluster_lib_def)
  have ready: "joinable demo_cluster_lib 300 demo_cluster (id_Public (ed demo_cluster_lib) (demo_identity 5)) ''e''"
    using demo_joinable pub by simp
  have lens: "length (sha256 demo_lib demo_key) = 32" "length demo_key = tokenLen"
    "length (replicate nonceLen (2::8 word)) = nonceLen" "length (replicate nonceLen (3::8 word)) = nonceLen"
    by (simp_all add: demo_lib_def demo_lib0_def demo_key_def tokenLen_def)
  have fits: "snd (welcomeFits demo_lib (cluster_server demo_cluster_lib (demo_faults True) 300 (\<lambda>_. '''') '''' demo_cluster) demo_cluster (in_unix demo_inputs) ''e'')"
    by (simp add: welcomeFits_def cluster_server_def demo_lib_def demo_lib0_def Let_def)
  have nonce: "in_rand demo_inputs nonceLen = Some (replicate nonceLen 3)" by (simp add: demo_inputs_def)
  have look: "token_lookup (in_now_lookup demo_inputs) demo_tokens (idOf (sha256 demo_lib) demo_key) = (demo_tokens, Some demo_key)"
    "token_consume (in_now_consume demo_inputs) demo_tokens (idOf (sha256 demo_lib) demo_key) = ([], True)"
    using demo_lookup unfolding demo_id by (simp_all add: demo_inputs_def)
  note r = enrolment_completes [where rand = "\<lambda>n. Some (replicate n 2)" and inp = demo_inputs and L = demo_lib and key = demo_key
      and tokens = demo_tokens, OF ready refl lens(1,2) refl lens(3) nonce lens(4) look fits]
  have "cl_set demo_cluster = demo_set" by (simp add: demo_cluster_def)
  then show ?thesis using r unfolding pub by metis
qed

end
