(* ===== verification/Cluster_Gossip.thy ===== *)
theory Cluster_Gossip
  imports Cluster_Example
begin

text \<open>
  What a member does with the records it is told, \<^verbatim>\<open>NotifyMsg\<close>, \<^verbatim>\<open>LocalState\<close> and
  \<^verbatim>\<open>MergeRemoteState\<close> of \<^verbatim>\<open>internal/cluster/cluster.go\<close>: a running member refines the trusted set,
  relays every record it is told at most once, and agrees with its peer after a push/pull exchange.
\<close>

section \<open>A running member refines the trusted set\<close>

text \<open>
  C17. Whatever a member does from its start on, its membership is the one a trusted set reaches
  from the pinned root by adding records: the state keeps to the set's interface, and the root,
  the identity and the overlay network never change.
\<close>

theorem cluster_refines_set:
  assumes "New E f t ok fs cfg = Inr c0" and "cluster_run E c0 c"
  shows "set_run (ed E) (NewSet (boot_Root (cl_boot c0))) (cl_set c) \<and> wf_cluster E c \<and> pinned c = pinned c0"
proof -
  obtain boot :: bootstrap where start: "set_run (ed E) (NewSet (boot_Root boot)) (cl_set c0)"
    "pinned c0 = (boot_Root boot, boot_Identity boot, boot_Identity boot, cfg_OverlayNet cfg)"
    by (rule New_member [OF assms(1)]) blast
  have "set_run (ed E) (cl_set c0) (cl_set c)" and pinned: "pinned c = pinned c0"
    using cluster_run_refines [OF assms(2)] by (simp_all add: refines_set_def)
  then have run: "set_run (ed E) (NewSet (boot_Root boot)) (cl_set c)" using start(1) set_run_trans by blast
  then show ?thesis
    using start(2) pinned set_run_wf [OF run wf_NewSet] set_run_root [OF run] by (simp add: wf_cluster_def pinned_def)
qed

section \<open>Every record is relayed once\<close>

text \<open>A record that is no news to a set: it is rejected, or one as new is stored already.\<close>

definition no_news :: "ed25519 \<Rightarrow> record_msg \<Rightarrow> trust_set \<Rightarrow> bool" where
  "no_news C m s \<longleftrightarrow>
     (case msg_Admission m of
        Some a \<Rightarrow> \<not> accepts_admission C (set_root s) a \<or> \<not> newer_admission s a
      | None \<Rightarrow>
          (case msg_Revocation m of
             Some r \<Rightarrow> revocation_Validate C r \<noteq> None \<or> map_of (set_revocations s) (rev_Identity r) \<noteq> None
           | None \<Rightarrow> True))"

lemma AddAdmission_news: "snd (AddAdmission C s a) = Inr True \<longleftrightarrow> accepts_admission C (set_root s) a \<and> newer_admission s a"
  by (cases rule: AddAdmission_cases [of C s a]) auto

lemma AddRevocation_news:
  "snd (AddRevocation C s r) = Inr True \<longleftrightarrow> revocation_Validate C r = None \<and> map_of (set_revocations s) (rev_Identity r) = None"
  by (cases rule: AddRevocation_cases [of C r s]) auto

text \<open>What a message does to the set, and whether the set changes.\<close>

definition told :: "ed25519 \<Rightarrow> trust_set \<Rightarrow> record_msg \<Rightarrow> trust_set" where
  "told C s m =
     (case msg_Admission m of
        Some a \<Rightarrow> fst (AddAdmission C s a)
      | None \<Rightarrow> (case msg_Revocation m of Some r \<Rightarrow> fst (AddRevocation C s r) | None \<Rightarrow> s))"

lemma told_no_news: "no_news C m s \<Longrightarrow> told C s m = s"
  by (cases rule: AddAdmission_cases [of C s "the (msg_Admission m)"]; cases rule: AddRevocation_cases [of C "the (msg_Revocation m)" s])
    (auto simp: told_def no_news_def split: option.splits)

lemma NotifyMsg_told:
  assumes "dec_msg E b = Some m"
  shows "NotifyMsg E f c b =
    (let c' = c\<lparr>cl_set := told (ed E) (cl_set c) m\<rparr> in
     if no_news (ed E) m (cl_set c) then c' else signalChanged (persist E f (broadcast E c' m)))"
proof (cases "msg_Admission m")
  case (Some a)
  then show ?thesis
    using assms AddAdmission_news [of "ed E" "cl_set c" a]
    by (auto simp: NotifyMsg_def told_def no_news_def Let_def split: prod.splits sum.splits)
next
  case None
  then show ?thesis
    using assms AddRevocation_news [of "ed E" "cl_set c" "the (msg_Revocation m)"]
    by (cases "msg_Revocation m") (auto simp: NotifyMsg_def told_def no_news_def Let_def split: prod.splits sum.splits)
qed

lemma told_is_no_news: "no_news C m (told C s m)"
proof (cases "msg_Admission m")
  case (Some a)
  then show ?thesis
    by (cases rule: AddAdmission_cases [of C s a]) (auto simp: no_news_def told_def newer_admission_def)
next
  case None
  then show ?thesis
    by (cases "msg_Revocation m"; cases rule: AddRevocation_cases [of C "the (msg_Revocation m)" s])
      (auto simp: no_news_def told_def)
qed

lemma not_newer_kept:
  assumes "set_run C s s'" and "\<not> newer_admission s a"
  shows "\<not> newer_admission s' a"
proof (rule set_run_inv [where P = "\<lambda>s. \<not> newer_admission s a", OF assms])
  fix s :: trust_set and q
  assume "\<not> newer_admission s a"
  then show "\<not> newer_admission (fst (AddAdmission C s q)) a"
    by (cases rule: AddAdmission_cases [of C s q]) (auto simp: newer_admission_def)
qed (simp_all add: frame_simps newer_admission_def)

lemma set_run_same_root: "set_run C s s' \<Longrightarrow> set_root s' = set_root s"
  using set_run_inv [of C s s' "\<lambda>t. set_root t = set_root s"] by (simp add: frame_simps)

lemma no_news_kept:
  assumes "set_run C s s'" and "no_news C m s"
  shows "no_news C m s'"
  using assms(2) not_newer_kept [OF assms(1)] set_run_same_root [OF assms(1)] revocation_kept [OF assms(1)]
  by (auto simp: no_news_def split: option.splits)

lemma NotifyMsg_set: "dec_msg E b = Some m \<Longrightarrow> cl_set (NotifyMsg E f c b) = told (ed E) (cl_set c) m"
  by (simp add: NotifyMsg_told Let_def frame_simps)

lemma NotifyMsg_no_news: "dec_msg E b = Some m \<Longrightarrow> no_news (ed E) m (cl_set c) \<Longrightarrow> NotifyMsg E f c b = c"
  by (simp add: NotifyMsg_told told_no_news)

lemma no_news_step: "cluster_step E c c' \<Longrightarrow> no_news (ed E) m (cl_set c) \<Longrightarrow> no_news (ed E) m (cl_set c')"
  using cluster_step_refines no_news_kept by (metis refines_set_def)

text \<open>
  Gossip of one record \<open>m\<close> among nodes that also do everything else they can: a node \<open>i\<close> is told it, as
  often as the network likes and in whatever bytes decode to it, or takes any other step. The log holds
  the node of every \<^verbatim>\<open>NotifyMsg\<close> of the record that queued a broadcast.
\<close>

inductive epidemic :: "cluster_lib \<Rightarrow> record_msg \<Rightarrow> ('n \<Rightarrow> cluster) \<Rightarrow> ('n \<Rightarrow> cluster) \<Rightarrow> 'n list \<Rightarrow> bool" for E m net0 where
  start: "epidemic E m net0 net0 []"
| told: "epidemic E m net0 net log \<Longrightarrow> dec_msg E b = Some m \<Longrightarrow> c = NotifyMsg E f (net i) b \<Longrightarrow>
    epidemic E m net0 (net(i := c)) (if cl_queue c \<noteq> cl_queue (net i) then log @ [i] else log)"
| other: "epidemic E m net0 net log \<Longrightarrow> cluster_step E (net i) c \<Longrightarrow> (\<forall>f b. dec_msg E b = Some m \<longrightarrow> c \<noteq> NotifyMsg E f (net i) b) \<Longrightarrow>
    epidemic E m net0 (net(i := c)) log"

lemma epidemic_inv: "epidemic E m net0 net log \<Longrightarrow> distinct log \<and> (\<forall>i \<in> set log. no_news (ed E) m (cl_set (net i)))"
proof (induction rule: epidemic.induct)
  case (told net log b c f i)
  have new: "no_news (ed E) m (cl_set c)" using told_is_no_news NotifyMsg_set [OF told(2)] told(3) by metis
  have "i \<notin> set log" if "cl_queue c \<noteq> cl_queue (net i)"
    using that told NotifyMsg_no_news [OF told(2)] by auto
  then show ?case using told.IH new by auto
next
  case (other net log i c)
  then show ?case using no_news_step [OF other(2), of m] by auto
qed simp

text \<open>
  C18. The epidemic ends: however often a record arrives at the nodes of a cluster, in whatever
  encoding and order and whatever else the nodes do meanwhile, every node relays it at most once, so
  there are at most as many relays of it as nodes; and to a node that has relayed it the record never
  again changes anything: it is not stored, persisted, signalled or queued. What a node queues for an
  operation of its own, a fresh record each time, is not a relay.
\<close>

theorem record_relayed_once:
  fixes net :: "'n :: finite \<Rightarrow> cluster"
  assumes "epidemic E m net0 net log"
  shows "distinct log \<and> length log \<le> CARD('n) \<and> (\<forall>i \<in> set log. \<forall>f b. dec_msg E b = Some m \<longrightarrow> NotifyMsg E f (net i) b = net i)"
proof -
  have inv: "distinct log" "\<forall>i \<in> set log. no_news (ed E) m (cl_set (net i))" using epidemic_inv [OF assms] by simp_all
  have "length log \<le> CARD('n)" using distinct_card [OF inv(1)] card_mono [of UNIV "set log"] by simp
  then show ?thesis using inv NotifyMsg_no_news by blast
qed

section \<open>Push/pull\<close>

text \<open>The records of a set are what it would be told again.\<close>

lemma absorbed_records:
  assumes "wf_set C s"
  shows "map_of (set_admissions s) = absorb_all adm_Identity newer_time Map.empty (accepted_admissions C (set_root s) (rs_Admissions (Records s)))"
    and "map_of (set_revocations s) = absorb_all rev_Identity never_newer Map.empty (accepted_revocations C (rs_Revocations (Records s)))"
  using merge_records_same [OF assms] by (simp_all add: same_records_def Merge_absorb NewSet_def)

lemma exchange_same:
  assumes "wf_set C s" and "wf_set C t" and "set_root t = set_root s"
    and "unambiguous adm_Identity newer_time (set (rs_Admissions (Records s)) \<union> set (rs_Admissions (Records t)))"
    and "unambiguous rev_Identity never_newer (set (rs_Revocations (Records s)) \<union> set (rs_Revocations (Records t)))"
  shows "same_records (fst (Merge C s (Records t))) (fst (Merge C t (Records s)))"
proof -
  have sub: "unambiguous key newer A \<Longrightarrow> B \<subseteq> A \<Longrightarrow> unambiguous key newer B" for key :: "'r \<Rightarrow> 'k" and newer A B
    by (auto simp: unambiguous_def)
  let ?A = "\<lambda>s. accepted_admissions C (set_root s) (rs_Admissions (Records s))"
  let ?R = "\<lambda>s. accepted_revocations C (rs_Revocations (Records s))"
  have join: "absorb_all key newer (absorb_all key newer m xs) ys = absorb_all key newer m (xs @ ys)"
    for key :: "'r \<Rightarrow> 'k" and newer m xs ys by (simp add: absorb_all_def)
  have "absorb_all adm_Identity newer_time Map.empty (?A s @ ?A t) = absorb_all adm_Identity newer_time Map.empty (?A t @ ?A s)"
    by (rule admissions_store.order_irrelevant) (auto intro: sub [OF assms(4)])
  moreover have "absorb_all rev_Identity never_newer Map.empty (?R s @ ?R t) = absorb_all rev_Identity never_newer Map.empty (?R t @ ?R s)"
    by (rule revocations_store.order_irrelevant) (auto intro: sub [OF assms(5)])
  ultimately show ?thesis
    using absorbed_records [OF assms(1)] absorbed_records [OF assms(2)] assms(3)
    by (simp add: same_records_def Merge_absorb join)
qed

text \<open>The codec of the records, on the records it is used for.\<close>

definition records_carried :: "cluster_lib \<Rightarrow> records \<Rightarrow> bool" where
  "records_carried E rs \<longleftrightarrow> (\<exists>b. enc_records E rs = Some b \<and> dec_records E b = Some rs)"

lemma MergeRemoteState_set:
  assumes "records_carried E (Records (cl_set d))"
  shows "cl_set (MergeRemoteState E f c (LocalState E d)) = fst (Merge (ed E) (cl_set c) (Records (cl_set d)))"
  using assms by (auto simp: records_carried_def MergeRemoteState_def LocalState_def case_prod_beta frame_simps)

text \<open>
  A push/pull exchange makes two members agree: each merges what the other sent, and then
  they hold the same records and agree on every identity's membership, as long as of two
  different admissions of one identity one is newer and the two hold no two different revocations
  of one identity.
\<close>

theorem push_pull_converges:
  assumes "wf_cluster E c" and "wf_cluster E d" and "boot_Root (cl_boot c) = boot_Root (cl_boot d)"
    and "records_carried E (Records (cl_set c))" and "records_carried E (Records (cl_set d))"
    and "unambiguous adm_Identity newer_time (set (rs_Admissions (Records (cl_set c))) \<union> set (rs_Admissions (Records (cl_set d))))"
    and "unambiguous rev_Identity never_newer (set (rs_Revocations (Records (cl_set c))) \<union> set (rs_Revocations (Records (cl_set d))))"
    and "c' = MergeRemoteState E f c (LocalState E d)" and "d' = MergeRemoteState E g d (LocalState E c)"
  shows "LocalState E c' = LocalState E d' \<and> snd (Valid (cl_set c') x) = snd (Valid (cl_set d') x)"
proof -
  have wf: "wf_set (ed E) (cl_set c)" "wf_set (ed E) (cl_set d)" and root: "set_root (cl_set d) = set_root (cl_set c)"
    using assms(1-3) by (simp_all add: wf_cluster_def)
  have same: "same_records (cl_set c') (cl_set d')"
    unfolding assms(8,9) MergeRemoteState_set [OF assms(4)] MergeRemoteState_set [OF assms(5)]
    using exchange_same [OF wf root assms(6,7)] .
  have wf': "wf_set (ed E) (cl_set c')" "wf_set (ed E) (cl_set d')"
    unfolding assms(8,9) MergeRemoteState_set [OF assms(4)] MergeRemoteState_set [OF assms(5)] using wf by (auto intro: wf_intros)
  then show ?thesis
    using Records_unique [OF wf' same] valid_same_records [OF same] by (simp add: LocalState_def valid_by [OF wf'(1)] valid_by [OF wf'(2)])
qed


section \<open>Witnesses\<close>

theorem cluster_refines_set_witness:
  "\<exists>c0. New demo_cluster_lib (demo_faults True) (Some 7946) True Map.empty demo_config = Inr c0 \<and>
     set_run (ed demo_cluster_lib) (NewSet (boot_Root (cl_boot c0))) (cl_set (forward_event c0 ''x'')) \<and>
     pinned (forward_event c0 ''x'') = pinned c0"
proof -
  obtain c0 where c0: "New demo_cluster_lib (demo_faults True) (Some 7946) True Map.empty demo_config = Inr c0"
    using demo_New by blast
  have "cluster_run demo_cluster_lib c0 (forward_event c0 ''x'')"
    by (rule cluster_run.further [OF cluster_run.here cluster_step.event])
  from cluster_refines_set [OF c0 this] c0 show ?thesis by blast
qed

theorem record_relayed_once_witness:
  "\<exists>net :: bool \<Rightarrow> cluster. epidemic demo_cluster_lib demo_msg (\<lambda>_. demo_cluster) net [True] \<and>
     length (cl_queue (net True)) = 1 \<and> NotifyMsg demo_cluster_lib (demo_faults True) (net True) [2] = net True"
proof -
  let ?c = "NotifyMsg demo_cluster_lib (demo_faults True) demo_cluster [2]" and ?net = "\<lambda>_ :: bool. demo_cluster"
  have "\<not> no_news demo_ed25519 demo_msg demo_set"
    by (simp add: no_news_def accepts_admission_def demo_msg_def admission_msg_def newer_admission_def demo_set_eq [THEN arg_cong, of set_admissions]
        demo_set_eq [THEN arg_cong, of set_root])
  then have one: "length (cl_queue ?c) = 1"
    by (simp add: NotifyMsg_told demo_cluster_lib_def demo_cluster_def Let_def broadcast_def signalChanged_def persist_def saveState_def)
  have dec: "dec_msg demo_cluster_lib [2] = Some demo_msg" by (simp add: demo_cluster_lib_def)
  have "cl_queue ?c \<noteq> cl_queue (?net True)" using one by (auto simp: demo_cluster_def)
  then have run: "epidemic demo_cluster_lib demo_msg ?net (?net(True := ?c)) [True]"
    using epidemic.told [OF epidemic.start [of demo_cluster_lib demo_msg ?net] dec refl, where f = "demo_faults True" and i = True] by simp
  show ?thesis
    using run one record_relayed_once [OF run] dec by (intro exI [of _ "?net(True := ?c)"]) simp
qed

theorem push_pull_converges_witness:
  "let d = demo_cluster\<lparr>cl_set := NewSet 1\<rparr>;
       c' = MergeRemoteState demo_cluster_lib (demo_faults True) demo_cluster (LocalState demo_cluster_lib d);
       d' = MergeRemoteState demo_cluster_lib (demo_faults True) d (LocalState demo_cluster_lib demo_cluster)
   in LocalState demo_cluster_lib c' = LocalState demo_cluster_lib d' \<and> snd (Valid (cl_set c') 3) = snd (Valid (cl_set d') 3)"
proof -
  let ?d = "demo_cluster\<lparr>cl_set := NewSet 1\<rparr>"
  have wf: "wf_cluster demo_cluster_lib ?d"
    by (simp add: wf_cluster_def demo_cluster_lib_def demo_cluster_def boot_of_def wf_NewSet) (simp add: NewSet_def)
  have sets: "cl_set demo_cluster = demo_set" "cl_set ?d = NewSet 1" by (simp_all add: demo_cluster_def)
  have carried: "records_carried demo_cluster_lib (Records demo_set)" "records_carried demo_cluster_lib (Records (NewSet 1))"
    by (auto simp: records_carried_def demo_cluster_lib_def)
  have recs: "rs_Admissions (Records demo_set) = [demo_admission 1 2 ''b'' 2 100, demo_admission 2 3 ''c'' 3 200]"
    "rs_Revocations (Records demo_set) = []" "rs_Admissions (Records (NewSet 1)) = []" "rs_Revocations (Records (NewSet 1)) = []"
    by (simp_all add: Records_def demo_set_eq NewSet_def)
  show ?thesis
    unfolding Let_def
    by (rule push_pull_converges [OF demo_wf_cluster wf _ _ _ _ _ refl refl])
      (simp_all only: sets carried recs, simp_all add: unambiguous_def newer_time_def)
qed

end
