(* ===== verification/Cluster_Members.thy ===== *)
theory Cluster_Members
  imports Cluster_Example
begin

text \<open>
  What a member hands to its subscribers (\<^verbatim>\<open>snapshot\<close>, \<^verbatim>\<open>watch\<close>, \<^verbatim>\<open>Members\<close> of
  \<^verbatim>\<open>internal/cluster/cluster.go\<close>): exactly the nodes memberlist reports whose metadata verifies. A
  started member's own metadata does so at every member with the same records; a revoked node
  drops out at once; and a member that restarts comes back as it was.
\<close>

section \<open>Snapshots\<close>

text \<open>The node memberlist's entry describes, unless it is this one or its metadata is undecodable.\<close>

definition described :: "cluster_lib \<Rightarrow> string \<Rightarrow> ml_node \<Rightarrow> node option" where
  "described E local n =
     (if mln_Name n = local then None
      else
        (case DecodeMeta (dec_meta E) (mln_Meta n) of
           Inl _ \<Rightarrow> None
         | Inr m \<Rightarrow>
             Some (meta.extend m \<lparr>node_name = mln_Name n, node_addr = unmap (fst (addr_from_slice (mln_Addr n))), node_port = mln_Port n\<rparr>)))"

definition verified_members :: "cluster_lib \<Rightarrow> cluster \<Rightarrow> ml_node list \<Rightarrow> node list" where
  "verified_members E c ms =
     filter (verified_node E (cl_set c) (cl_overlay c)) (List.map_filter (described E (node_name (cl_local c))) ms)"

lemma verified_nodes_exact:
  assumes "wf_set (ed E) s"
  shows "snd (verified_nodes E l p s ns) = filter (verified_node E s p) (List.map_filter (described E l) ns)"
  using assms
proof (induction ns arbitrary: s)
  case (Cons m ns)
  show ?case
  proof (cases "described E l m")
    case None
    then show ?thesis
      using Cons by (auto simp: described_def verified_nodes_Cons List.map_filter_simps simp del: verified_nodes.simps split: if_splits sum.splits)
  next
    case (Some n)
    let ?t = "fst (verifyMeta E s p n)"
    have t: "wf_set (ed E) ?t" "same_records s ?t"
      using Cons.prems by (simp_all add: verifyMeta_set Valid_wf)
    have "verified_node E ?t p = verified_node E s p"
      using verified_node_same [OF Cons.prems t] by (simp add: fun_eq_iff)
    then show ?thesis
      using Some Cons.IH [OF t(1)] verifyMeta_None [OF Cons.prems]
      by (auto simp: described_def verified_nodes_Cons Let_def List.map_filter_simps simp del: verified_nodes.simps split: if_splits sum.splits)
  qed
qed (simp add: List.map_filter_simps)

lemma snapshot_exact:
  assumes "wf_set (ed E) (cl_set c)"
  shows "snd (snapshot E ms c) = verified_members E c ms"
proof -
  let ?s = "fst (assignedAddr (cl_set c) (cl_overlay c) (cluster_Identity E c))"
  have s: "wf_set (ed E) ?s" "same_records (cl_set c) ?s"
    using assms by (simp_all add: assignedAddr_set Valid_wf)
  then have "verified_node E ?s p = verified_node E (cl_set c) p" for p
    using verified_node_same [OF assms s] by (simp add: fun_eq_iff)
  then show ?thesis
    using verified_nodes_exact [OF s(1)] by (simp add: snapshot_def verified_members_def case_prod_beta Let_def)
qed

text \<open>
  C19. A change signal becomes one snapshot, delivered and remembered: every subscriber's slot then
  holds exactly the members, other than this node, that memberlist reports and whose metadata
  decodes and verifies, in memberlist's order, whatever the slot held before; the same list is what
  the node rejoins after a restart; and no two nodes of it have different identities and one
  overlay address.
\<close>

theorem watch_delivers_verified:
  assumes "wf_cluster E c" and "wf_prefix (cl_overlay c)" and "cl_changed c" and "\<not> cl_left c" and "c' = watch_step E f ms c"
  shows "cl_subs c' = map (\<lambda>_. Some (verified_members E c ms)) (cl_subs c) \<and>
    boot_Peers (cl_boot c') = verified_members E c ms \<and> \<not> cl_changed c' \<and>
    (\<forall>n \<in> set (verified_members E c ms). \<forall>m \<in> set (verified_members E c ms).
       meta_overlayAddr n = meta_overlayAddr m \<longrightarrow> meta_identity n = meta_identity m)"
proof -
  let ?c = "c\<lparr>cl_changed := False\<rparr>"
  have wf: "wf_set (ed E) (cl_set c)" using assms(1) by (simp add: wf_cluster_def)
  have "verified_members E ?c ms = verified_members E c ms" by (simp add: verified_members_def)
  then have peers: "snd (snapshot E ms ?c) = verified_members E c ms" using snapshot_exact [of E ?c ms] wf by simp
  have frame: "cl_subs (fst (snapshot E ms ?c)) = cl_subs c" "\<not> cl_changed (fst (snapshot E ms ?c))"
    by (simp_all add: snapshot_def case_prod_beta Let_def)
  have "cl_subs c' = map (\<lambda>_. Some (verified_members E c ms)) (cl_subs c) \<and>
      boot_Peers (cl_boot c') = verified_members E c ms \<and> \<not> cl_changed c'"
    using assms(3-5) peers frame by (simp add: watch_step_def saveState_def case_prod_beta Let_def)
  moreover have "meta_identity n = meta_identity m"
    if "n \<in> set (verified_members E c ms)" "m \<in> set (verified_members E c ms)" "meta_overlayAddr n = meta_overlayAddr m" for n m
    using that assigned_distinct [OF wf assms(2)] by (simp add: verified_members_def verified_node_def)
  ultimately show ?thesis by blast
qed

section \<open>A started member is accepted\<close>


section \<open>Revocation\<close>

lemma Records_revocation: "map_of (set_revocations s) x = Some r \<Longrightarrow> r \<in> set (rs_Revocations (Records s))"
  by (drule map_of_SomeD) (force simp: Records_def)

lemma cluster_Revoke_exact:
  assumes "ed25519_correct (ed E)" and "wf_identity (ed E) (cl_id c)" and "wf_cluster E c" and "valid (cl_set c) (cluster_Identity E c)"
    and "x \<noteq> cluster_Identity E c" and "map_of (set_revocations (cl_set c)) x = None"
    and "\<forall>u \<in> record_times (cl_set c). sint u < sint now" and "cluster_Revoke E f now c x = (c', err)"
  shows "err = None \<and> cl_changed c' \<and> \<not> snd (Valid (cl_set c') x) \<and>
    Revoke (ed E) (cl_id c) x now \<in> set (rs_Revocations (boot_Records (cl_boot c'))) \<and>
    (\<forall>msg. enc_msg E (revocation_msg (Revoke (ed E) (cl_id c) x now)) = Some msg \<longrightarrow> msg \<in> snd ` set (cl_queue c')) \<and>
    (\<forall>ms. \<forall>n \<in> set (snd (snapshot E ms c')). meta_identity n \<noteq> x) \<and>
    (\<forall>z. z \<noteq> x \<longrightarrow> snd (Valid (cl_set c') z) = snd (Valid (cl_set c) z))"
proof -
  let ?r = "Revoke (ed E) (cl_id c) x now" and ?s = "cl_set c"
  have wf: "wf_set (ed E) ?s" using assms(3) by (simp add: wf_cluster_def)
  let ?s' = "?s\<lparr>set_revocations := AList.update x ?r (set_revocations ?s), set_members := []\<rparr>"
  have add: "AddRevocation (ed E) ?s ?r = (?s', Inr True)"
    using AddRevocation_fresh [OF Revoke_Validate [OF assms(1,2)]] assms(6) by simp
  let ?c = "signalChanged (persist E f (broadcast E (c\<lparr>cl_set := ?s'\<rparr>) (revocation_msg ?r)))"
  have c': "c' = ?c" "err = None" using assms(8) add by (simp_all add: cluster_Revoke_def Let_def)
  have set: "cl_set c' = ?s'" using c' by (simp add: frame_simps)
  have wf': "wf_set (ed E) (cl_set c')" using AddRevocation_wf [OF wf, of ?r] add set by simp
  have out: "\<not> valid (cl_set c') x"
    and others: "z \<noteq> x \<Longrightarrow> valid (cl_set c') z = valid ?s z" for z
    using revocation_exact [of ?s x ?r "cl_set c'"] assms(4-7) set by (simp_all add: cluster_Identity_def)
  have "map_of (set_revocations ?s') x = Some ?r" by simp
  then have "?r \<in> set (rs_Revocations (Records ?s'))" by (rule Records_revocation)
  moreover have "boot_Records (cl_boot c') = Records ?s'"
    unfolding c' by (simp add: signalChanged_def persist_def saveState_def Let_def broadcast_def split: option.split)
  moreover have "msg \<in> snd ` set (cl_queue c')" if "enc_msg E (revocation_msg ?r) = Some msg" for msg
    using that unfolding c' by (simp add: signalChanged_def persist_def saveState_def Let_def broadcast_def)
  moreover have "meta_identity n \<noteq> x" if "n \<in> set (snd (snapshot E ms c'))" for n ms
    using that out unfolding snapshot_exact [OF wf'] by (auto simp: verified_members_def verified_node_def)
  moreover have "cl_changed c'" unfolding c' by (simp add: signalChanged_def)
  ultimately show ?thesis using c'(2) out others valid_by [OF wf] valid_by [OF wf'] by metis
qed

text \<open>
  Revoking a node drops it at once: when a member in good standing whose clock is past every
  record revokes another identity that has no revocation yet, the revocation is accepted, saved
  with the state and queued for every other node, a new snapshot is due, and no snapshot of the
  new state has the revoked identity, while nobody else's membership changes.
\<close>

theorem revoked_drops_out:
  assumes "ed25519_correct (ed E)" and "wf_identity (ed E) (cl_id c)" and "wf_cluster E c" and "valid (cl_set c) (cluster_Identity E c)"
    and "x \<noteq> cluster_Identity E c" and "map_of (set_revocations (cl_set c)) x = None"
    and "\<forall>u \<in> record_times (cl_set c). sint u < sint now" and "cluster_Revoke E f now c x = (c', err)"
  shows "err = None \<and> cl_changed c' \<and> \<not> snd (Valid (cl_set c') x) \<and>
    Revoke (ed E) (cl_id c) x now \<in> set (rs_Revocations (boot_Records (cl_boot c'))) \<and>
    (\<forall>msg. enc_msg E (revocation_msg (Revoke (ed E) (cl_id c) x now)) = Some msg \<longrightarrow> msg \<in> snd ` set (cl_queue c')) \<and>
    (\<forall>ms. \<forall>n \<in> set (snd (snapshot E ms c')). meta_identity n \<noteq> x) \<and>
    (\<forall>z. z \<noteq> x \<longrightarrow> snd (Valid (cl_set c') z) = snd (Valid (cl_set c) z))"
  using cluster_Revoke_exact [OF assms] .

section \<open>Restart\<close>

text \<open>
  C21. A member that restarts comes back as it was: once its state has been saved, loading the file
  gives its identity, its root and its records, and starting from them with its overlay address
  succeeds in a state with the same records, the same identity and network, and no node is a member
  for one of the two states and not for the other.
\<close>

theorem restart_comes_back:
  assumes "wf_cluster E c" and "wf_identity (ed E) (cl_id c)" and "fresh_temp f (cl_path c) (cl_files c)"
    and "b = (cl_boot c)\<lparr>boot_Records := Records (cl_set c)\<rparr>" and "state_carried (state_json E) (boot_state b)"
    and "snd (boot_save (state_json E) f b (cl_path c) (cl_files c)) = None"
    and "snd (assignedAddr (cl_set c) (cl_overlay c) (cluster_Identity E c)) = Inr (meta_overlayAddr local)"
  shows "\<exists>fs b' c'. Load (ed E) (state_json E) rand g True (cl_path c) (cl_files (persist E f c)) = (fs, Inr b') \<and>
    New E g (Some port) True fs \<lparr>cfg_path = cl_path c, cfg_OverlayNet = cl_overlay c, cfg_LocalNode = Some local, cfg_Boot = Some b'\<rparr> = Inr c' \<and>
    same_records (cl_set c') (cl_set c) \<and> pinned c' = pinned c \<and> Records (cl_set c') = Records (cl_set c) \<and>
    (\<forall>x. snd (Valid (cl_set c') x) = snd (Valid (cl_set c) x))"
proof -
  let ?s = "cl_set c" and ?self = "cluster_Identity E c"
  let ?cfg = "\<lparr>cfg_path = cl_path c, cfg_OverlayNet = cl_overlay c, cfg_LocalNode = Some local, cfg_Boot = Some b\<rparr>"
  have b: "boot_Identity b = cl_id c" "boot_Root b = set_root ?s" "boot_Records b = Records ?s" and wf: "wf_set (ed E) ?s"
    using assms(1,4) by (simp_all add: wf_cluster_def)
  let ?trace = "fst (boot_save (state_json E) f b (cl_path c) (cl_files c))"
  have "cl_files (persist E f c) = last ?trace" using assms(4) by (simp add: persist_def saveState_def Let_def)
  moreover have "boot_save (state_json E) f b (cl_path c) (cl_files c) = (?trace, None)" using assms(6) by (simp add: prod_eq_iff)
  ultimately have load: "Load (ed E) (state_json E) rand g True (cl_path c) (cl_files (persist E f c)) = (cl_files (persist E f c), Inr b)"
    using saved_boot_loaded [OF _ assms(3,5), of "ed E"] assms(2) b(1) by simp
  let ?merged = "fst (Merge (ed E) (NewSet (set_root ?s)) (Records ?s))"
  have same: "same_records ?merged ?s" using merge_records_same [OF wf] .
  have wf0: "wf_set (ed E) ?merged" "wf_set (ed E) (fst (Valid ?merged ?self))" by (intro wf_intros)+
  have "valid ?s ?self" using assms(7) assignedAddr_Inr [OF wf] by blast
  then have v: "snd (Valid ?merged ?self)" using valid_by [OF wf0(1)] valid_same_records [OF same] by simp
  have addr: "snd (assignedAddr (fst (Valid ?merged ?self)) (cl_overlay c) ?self) = Inr (meta_overlayAddr local)"
    using assignedAddr_same [OF wf0(2) wf same_records_trans [OF Valid_same_records(1) same]] assms(7) by blast
  obtain c' where new: "New E g (Some port) True (cl_files (persist E f c)) ?cfg = Inr c'"
    using New_starts [of ?cfg b local ?merged E ?self g port "cl_files (persist E f c)"] v addr
    by (simp add: b cluster_Identity_def) blast
  have c': "same_records (fst (Merge (ed E) (NewSet (boot_Root b)) (boot_Records b))) (cl_set c') \<and>
      set_run (ed E) (NewSet (boot_Root b)) (cl_set c') \<and> pinned c' = (boot_Root b, cl_id c, cl_id c, cl_overlay c)"
    by (rule New_member [OF new], simp only: config.simps option.inject) (use b(1) in blast)
  have same': "same_records (cl_set c') ?s" using c' same b(2,3) by (simp add: same_records_def)
  have wf': "wf_set (ed E) (cl_set c')" using set_run_wf [OF conjunct1 [OF conjunct2 [OF c']] wf_NewSet] .
  have "pinned c' = pinned c" using c' b(2) assms(1) by (simp add: pinned_def wf_cluster_def)
  then show ?thesis
    using load new same' Records_unique [OF wf' wf same'] valid_same_records [OF same'] valid_by [OF wf] valid_by [OF wf'] by blast
qed


section \<open>Witnesses\<close>

text \<open>Node 2 as memberlist reports it to node 1.\<close>

definition demo_ml :: ml_node where
  "demo_ml = \<lparr>mln_Name = ''b'', mln_Addr = [192, 0, 2, 7], mln_Port = 7946, mln_Meta = [3]\<rparr>"

definition demo_peer :: node where
  "demo_peer = meta.extend demo_meta \<lparr>node_name = ''b'', node_addr = unmap (fst (addr_from_slice [192, 0, 2, 7])), node_port = 7946\<rparr>"

lemma demo_verified: "verified_members demo_cluster_lib (demo_cluster\<lparr>cl_changed := True, cl_subs := [None]\<rparr>) [demo_ml] = [demo_peer]"
proof -
  have "described demo_cluster_lib ''a'' demo_ml = Some demo_peer"
    by (simp add: described_def demo_ml_def demo_peer_def demo_cluster_lib_def DecodeMeta_def)
  moreover have "verified_node demo_cluster_lib demo_set demo_net demo_peer"
    using demo_assigned Verify_Sign [OF demo_ed25519_correct wf_demo_identity, of 2]
    by (simp add: verified_node_def demo_peer_def demo_meta_def demo_cluster_lib_def meta.defs)
  ultimately show ?thesis
    by (simp add: verified_members_def demo_cluster_def demo_node_def List.map_filter_simps)
qed

theorem watch_delivers_verified_witness:
  "let c = demo_cluster\<lparr>cl_changed := True, cl_subs := [None]\<rparr>; c' = watch_step demo_cluster_lib (demo_faults True) [demo_ml] c in
   cl_subs c' = [Some [demo_peer]] \<and> boot_Peers (cl_boot c') = [demo_peer] \<and> \<not> cl_changed c'"
proof -
  let ?c = "demo_cluster\<lparr>cl_changed := True, cl_subs := [None]\<rparr>"
  have wf: "wf_cluster demo_cluster_lib ?c" using demo_wf_cluster by (simp add: wf_cluster_def)
  have p: "wf_prefix (cl_overlay ?c)" by (simp add: demo_cluster_def demo_net_def wf_prefix_from)
  show ?thesis
    using watch_delivers_verified [OF wf p _ _ refl, of "demo_faults True" "[demo_ml]"] unfolding demo_verified Let_def
    by (simp add: demo_cluster_def)
qed


theorem revoked_drops_out_witness:
  "let c' = fst (cluster_Revoke demo_cluster_lib (demo_faults True) 300 demo_cluster 2) in
   \<not> snd (Valid (cl_set c') 2) \<and> (\<forall>ms. \<forall>n \<in> set (snd (snapshot demo_cluster_lib ms c')). meta_identity n \<noteq> 2)"
proof -
  have "cl_set demo_cluster = demo_set" "cluster_Identity demo_cluster_lib demo_cluster = 1" "cl_id demo_cluster = demo_identity 1"
    "ed demo_cluster_lib = demo_ed25519" by (simp_all add: demo_cluster_def cluster_Identity_def demo_cluster_lib_def)
  then show ?thesis
    using revoked_drops_out [OF _ _ demo_wf_cluster _ _ _ _ surjective_pairing, of 2 300 "demo_faults True"] demo_set_late
    by (simp add: demo_set_eq [THEN arg_cong, of set_revocations] Let_def)
qed

definition demo_two :: cluster where
  "demo_two = demo_cluster\<lparr>cl_id := demo_identity 2, cl_boot := boot_of (demo_identity 2) (empty_state\<lparr>st_Root := Some 1\<rparr>)\<rparr>"

theorem restart_comes_back_witness:
  "let b = (cl_boot demo_two)\<lparr>boot_Records := Records demo_set\<rparr>;
       E = demo_cluster_lib\<lparr>state_json := \<lparr>enc_state = (\<lambda>_. Some [1]), dec_state = (\<lambda>_. Some (boot_state b))\<rparr>\<rparr>
   in \<exists>fs b' (c' :: cluster). Load (ed E) (state_json E) (\<lambda>_. None) (demo_faults True) True ''p'' (cl_files (persist E (demo_faults True) demo_two)) = (fs, Inr b') \<and>
     Records (cl_set c') = Records demo_set \<and> snd (Valid (cl_set c') 3) = snd (Valid demo_set 3)"
proof -
  let ?b = "(cl_boot demo_two)\<lparr>boot_Records := Records demo_set\<rparr>"
  let ?J = "\<lparr>enc_state = (\<lambda>_. Some [1]), dec_state = (\<lambda>_. Some (boot_state ?b))\<rparr>"
  let ?E = "demo_cluster_lib\<lparr>state_json := ?J\<rparr>"
  have facts: "cl_set demo_two = demo_set" "cl_path demo_two = ''p''" "cl_files demo_two = Map.empty" "cl_overlay demo_two = demo_net"
    "cluster_Identity ?E demo_two = 2" "cl_id demo_two = demo_identity 2" "state_json ?E = ?J" "ed ?E = demo_ed25519"
    by (simp_all add: demo_two_def demo_cluster_def cluster_Identity_def demo_cluster_lib_def)
  have wf: "wf_cluster ?E demo_two"
    using demo_set_wf by (simp add: wf_cluster_def facts) (simp add: demo_two_def boot_of_def demo_set_eq [THEN arg_cong, of set_root])
  have carried: "state_carried ?J (boot_state ?b)" by (simp add: state_carried_def)
  have saved: "snd (boot_save ?J (demo_faults True) ?b ''p'' Map.empty) = None"
    by (simp add: boot_save_def state_save_def demo_faults_def Let_def)
  have "\<exists>fs b' c'. Load (ed ?E) (state_json ?E) (\<lambda>_. None) (demo_faults True) True (cl_path demo_two) (cl_files (persist ?E (demo_faults True) demo_two)) = (fs, Inr b') \<and>
      New ?E (demo_faults True) (Some 7946) True fs \<lparr>cfg_path = cl_path demo_two, cfg_OverlayNet = cl_overlay demo_two, cfg_LocalNode = Some demo_peer, cfg_Boot = Some b'\<rparr> = Inr c' \<and>
      same_records (cl_set c') (cl_set demo_two) \<and> pinned c' = pinned demo_two \<and> Records (cl_set c') = Records (cl_set demo_two) \<and>
      (\<forall>x. snd (Valid (cl_set c') x) = snd (Valid (cl_set demo_two) x))"
    by (rule restart_comes_back [OF wf, of "demo_faults True" ?b])
      (use demo_fresh [of Map.empty] carried saved demo_assigned in \<open>simp_all add: facts demo_peer_def demo_meta_def meta.defs\<close>)
  then show ?thesis unfolding Let_def facts by blast
qed

end
