(* ===== verification/Transport.thy ===== *)
theory Transport
  imports Trust_Merge
begin

text \<open>
  The gossip transport, \<^verbatim>\<open>internal/cluster/transport.go\<close>: which certificates are accepted, the table
  of connections by address, the tie-break when two nodes dial each other at once, the pumps that
  hand datagrams and streams to memberlist, the bounded enrolment connections, dialling, and
  shutdown. QUIC, TLS and X.509 are outside: connections arrive with the certificates and the
  protocol the handshake settled, and what a receive, a send or a dial answers is an argument.
  Goroutines appear as entries of the state: each has the steps its loop can take, and the steps of
  all of them interleave in \<open>transport_step\<close>. The wait group is a counter. The membership check of a
  received packet and the blocking hand-over of it are separate steps, as are the lookup of a
  connection, the claim of a dial, the adoption of what was dialled and the end of the dial. One step
  is what a goroutine does from its last access until it ends, a lookup with the send on the
  connection found, and \<open>Shutdown\<close> up to its wait.
\<close>

section \<open>State\<close>

definition alpnGossip :: string where "alpnGossip = ''cheesecloth-gossip/1''"

definition alpnEnrol :: string where "alpnEnrol = ''cheesecloth-enrol/1''"

definition identityLen :: nat where "identityLen = 32"

definition maxEnrolments :: nat where "maxEnrolments = 8"

text \<open>The public key of a parsed certificate: Ed25519 key bytes, or a key of another type.\<close>

datatype cert_key = Ed25519Key bytes | OtherKey

text \<open>\<open>x509.ParseCertificate\<close>, down to the public key.\<close>

type_synonym cert_parser = "bytes \<Rightarrow> cert_key option"

datatype close_reason =
    NoCertificate | BadCertificate | NotAnIdentity | EnrolmentNotOffered | Busy | ShuttingDown | DuplicateConnection
  | Superseded | NotAMember | Done | Dropped

text \<open>A connection object; two are the same object exactly if they are equal.\<close>

record qconn =
  qc_no :: nat
  qc_RemoteAddr :: string
  qc_certs :: "bytes list"
  qc_proto :: string

record peer_conn =
  pc_conn :: qconn
  pc_client :: public_key

text \<open>
  Where a goroutine stands: accepting, receiving on a connection for a peer, blocked in the select
  that hands memberlist the packet or stream it has checked, enrolling, or dialling.
\<close>

datatype tr_task = Accept | Datagrams qconn public_key | HandPacket qconn public_key bytes | Streams qconn public_key
  | HandStream qconn public_key | Enrolment qconn public_key | AsyncDial string

record transport =
  tr_id :: public_key
  tr_set :: trust_set
  tr_offers_enrol :: bool
  tr_enrolSem :: nat
  tr_done :: bool
  tr_wg :: nat
  tr_conns :: "(string \<times> peer_conn) list"
  tr_dialing :: "string list"
  tr_closed :: "(nat \<times> nat \<times> close_reason) list"
  tr_tasks :: "tr_task list"
  tr_packets :: "(bytes \<times> string) list"
  tr_streams :: "(qconn \<times> public_key) list"
  tr_enrolled :: "(qconn \<times> public_key) list"
  tr_sent :: "(bytes \<times> qconn) list"

section \<open>Certificates\<close>

definition certIdentity :: "cert_parser \<Rightarrow> bytes list \<Rightarrow> close_reason + public_key" where
  "certIdentity parse rawCerts =
     (case rawCerts of
        [] \<Rightarrow> Inl NoCertificate
      | raw # _ \<Rightarrow>
          (case parse raw of
             None \<Rightarrow> Inl BadCertificate
           | Some OtherKey \<Rightarrow> Inl NotAnIdentity
           | Some (Ed25519Key pub) \<Rightarrow> if length pub \<noteq> identityLen then Inl NotAnIdentity else Inr (key_of_bytes pub)))"

definition connIdentity :: "cert_parser \<Rightarrow> qconn \<Rightarrow> close_reason + public_key" where
  "connIdentity parse conn =
     (case qc_certs conn of [] \<Rightarrow> Inl NoCertificate | raw # _ \<Rightarrow> certIdentity parse [raw])"

definition peerOf :: "cert_parser \<Rightarrow> qconn \<Rightarrow> public_key" where
  "peerOf parse conn = (case connIdentity parse conn of Inl _ \<Rightarrow> 0 | Inr peer \<Rightarrow> peer)"

text \<open>\<^verbatim>\<open>VerifyPeerCertificate\<close>: for gossip, both ways, a member's; for enrolment any identity's.\<close>

definition verify_gossip :: "cert_parser \<Rightarrow> trust_set \<Rightarrow> bytes list \<Rightarrow> trust_set \<times> close_reason option" where
  "verify_gossip parse s rawCerts =
     (case certIdentity parse rawCerts of
        Inl e \<Rightarrow> (s, Some e)
      | Inr peer \<Rightarrow> (case Valid s peer of (s', ok) \<Rightarrow> (s', if ok then None else Some NotAMember)))"

definition verify_enrol :: "cert_parser \<Rightarrow> bytes list \<Rightarrow> close_reason option" where
  "verify_enrol parse rawCerts = (case certIdentity parse rawCerts of Inl e \<Rightarrow> Some e | Inr _ \<Rightarrow> None)"

text \<open>\<^verbatim>\<open>GetConfigForClient\<close>: the first offer of the enrolment protocol decides.\<close>

fun config_for_client :: "string list \<Rightarrow> string" where
  "config_for_client [] = alpnGossip"
| "config_for_client (proto # protos) = (if proto = alpnEnrol then alpnEnrol else config_for_client protos)"

section \<open>Connections\<close>

definition live :: "transport \<Rightarrow> qconn \<Rightarrow> bool" where
  "live t c \<longleftrightarrow> map_of (tr_closed t) (qc_no c) = None"

text \<open>\<^verbatim>\<open>CloseWithError\<close>: only the first close of a connection counts.\<close>

definition CloseWithError :: "transport \<Rightarrow> qconn \<Rightarrow> nat \<Rightarrow> close_reason \<Rightarrow> transport" where
  "CloseWithError t c code reason = (if live t c then t\<lparr>tr_closed := (qc_no c, code, reason) # tr_closed t\<rparr> else t)"

text \<open>\<^verbatim>\<open>track\<close> counts goroutines about to start, here with the goroutines themselves.\<close>

definition track :: "transport \<Rightarrow> tr_task list \<Rightarrow> transport option" where
  "track t tasks = (if tr_done t then None else Some (t\<lparr>tr_wg := tr_wg t + length tasks, tr_tasks := tasks @ tr_tasks t\<rparr>))"

text \<open>The end of a goroutine: \<^verbatim>\<open>wg.Done\<close>.\<close>

definition finish :: "transport \<Rightarrow> tr_task \<Rightarrow> transport" where
  "finish t task = t\<lparr>tr_wg := tr_wg t - 1, tr_tasks := remove1 task (tr_tasks t)\<rparr>"

definition preferredDialer :: "public_key \<Rightarrow> public_key \<Rightarrow> public_key" where
  "preferredDialer a b = (if b < a then b else a)"

definition keepNew :: "public_key \<Rightarrow> public_key \<Rightarrow> public_key \<Rightarrow> bool" where
  "keepNew cur client preferred \<longleftrightarrow> cur \<noteq> preferred \<or> client = preferred"

definition register :: "transport \<Rightarrow> qconn \<Rightarrow> public_key \<Rightarrow> public_key \<Rightarrow> transport \<times> qconn" where
  "register t conn peer client =
     (let addr = qc_RemoteAddr conn;
          store = (\<lambda>t. (t\<lparr>tr_conns := AList.update addr \<lparr>pc_conn = conn, pc_client = client\<rparr> (tr_conns t)\<rparr>, conn))
      in
        case map_of (tr_conns t) addr of
          None \<Rightarrow> store t
        | Some cur \<Rightarrow>
            if live t (pc_conn cur) then
              if \<not> keepNew (pc_client cur) client (preferredDialer (tr_id t) peer)
              then (CloseWithError t conn 0 DuplicateConnection, pc_conn cur)
              else store (CloseWithError t (pc_conn cur) 0 Superseded)
            else store t)"

definition tr_forget :: "transport \<Rightarrow> string \<Rightarrow> qconn \<Rightarrow> transport" where
  "tr_forget t addr conn =
     (let t1 = (case map_of (tr_conns t) addr of
                  Some cur \<Rightarrow> if pc_conn cur = conn then t\<lparr>tr_conns := AList.delete addr (tr_conns t)\<rparr> else t
                | None \<Rightarrow> t)
      in CloseWithError t1 conn 0 Dropped)"

definition tr_lookup :: "transport \<Rightarrow> string \<Rightarrow> qconn option" where
  "tr_lookup t addr =
     (case map_of (tr_conns t) addr of
        Some cur \<Rightarrow> if live t (pc_conn cur) then Some (pc_conn cur) else None
      | None \<Rightarrow> None)"

section \<open>Serving connections\<close>

definition serve :: "transport \<Rightarrow> qconn \<Rightarrow> public_key \<Rightarrow> transport" where
  "serve t conn peer =
     (case track t [Datagrams conn peer, Streams conn peer] of
        None \<Rightarrow> tr_forget t (qc_RemoteAddr conn) conn
      | Some t' \<Rightarrow> t')"

text \<open>A goroutine moves on, or ends: \<^verbatim>\<open>wg.Done\<close>.\<close>

definition become :: "transport \<Rightarrow> tr_task \<Rightarrow> tr_task \<Rightarrow> transport" where
  "become t task task' = t\<lparr>tr_tasks := task' # remove1 task (tr_tasks t)\<rparr>"

text \<open>
  A turn of the datagram pump, up to the select: \<open>None\<close> is a failed receive. The end of the pump
  forgets the connection.
\<close>

definition serve_datagram :: "transport \<Rightarrow> qconn \<Rightarrow> public_key \<Rightarrow> bytes option \<Rightarrow> transport" where
  "serve_datagram t conn peer received =
     (let stop = (\<lambda>t. finish (tr_forget t (qc_RemoteAddr conn) conn) (Datagrams conn peer)) in
      case received of
        None \<Rightarrow> stop t
      | Some b \<Rightarrow>
          (case Valid (tr_set t) peer of
             (s, ok) \<Rightarrow>
               (let t1 = t\<lparr>tr_set := s\<rparr> in
                if \<not> ok then stop (CloseWithError t1 conn 1 NotAMember)
                else become t1 (Datagrams conn peer) (HandPacket conn peer b))))"

text \<open>The select: memberlist takes the packet, or \<^verbatim>\<open>done\<close> is closed.\<close>

definition hand_packet :: "transport \<Rightarrow> qconn \<Rightarrow> public_key \<Rightarrow> bytes \<Rightarrow> bool \<Rightarrow> transport" where
  "hand_packet t conn peer b taken =
     (if taken then
        (become t (HandPacket conn peer b) (Datagrams conn peer))\<lparr>tr_packets := tr_packets t @ [(b, qc_RemoteAddr conn)]\<rparr>
      else finish (tr_forget t (qc_RemoteAddr conn) conn) (HandPacket conn peer b))"

definition serve_stream :: "transport \<Rightarrow> qconn \<Rightarrow> public_key \<Rightarrow> bool \<Rightarrow> transport" where
  "serve_stream t conn peer accepted =
     (let stop = (\<lambda>t. finish t (Streams conn peer)) in
      if \<not> accepted then stop t
      else
        (case Valid (tr_set t) peer of
           (s, ok) \<Rightarrow>
             (let t1 = t\<lparr>tr_set := s\<rparr> in
              if \<not> ok then stop (CloseWithError t1 conn 1 NotAMember)
              else become t1 (Streams conn peer) (HandStream conn peer))))"

definition hand_stream :: "transport \<Rightarrow> qconn \<Rightarrow> public_key \<Rightarrow> bool \<Rightarrow> transport" where
  "hand_stream t conn peer taken =
     (if taken then (become t (HandStream conn peer) (Streams conn peer))\<lparr>tr_streams := tr_streams t @ [(conn, peer)]\<rparr>
      else finish (CloseWithError t conn 0 ShuttingDown) (HandStream conn peer))"

definition adoptEnrol :: "transport \<Rightarrow> qconn \<Rightarrow> public_key \<Rightarrow> transport" where
  "adoptEnrol t conn peer =
     (if \<not> tr_offers_enrol t then CloseWithError t conn 1 EnrolmentNotOffered
      else if \<not> tr_enrolSem t < maxEnrolments then CloseWithError t conn 1 Busy
      else
        (let t1 = t\<lparr>tr_enrolSem := tr_enrolSem t + 1\<rparr> in
         case track t1 [Enrolment conn peer] of
           None \<Rightarrow> CloseWithError (t1\<lparr>tr_enrolSem := tr_enrolSem t1 - 1\<rparr>) conn 0 ShuttingDown
         | Some t2 \<Rightarrow> t2))"

text \<open>The enrolment goroutine: the handler runs on the first stream, if one is opened in time.\<close>

definition serveEnrol :: "transport \<Rightarrow> qconn \<Rightarrow> public_key \<Rightarrow> bool \<Rightarrow> transport" where
  "serveEnrol t conn peer opened =
     (let t1 = (if opened then t\<lparr>tr_enrolled := tr_enrolled t @ [(conn, peer)]\<rparr> else t);
          t2 = CloseWithError t1 conn 0 Done;
          t3 = t2\<lparr>tr_enrolSem := tr_enrolSem t2 - 1\<rparr>
      in finish t3 (Enrolment conn peer))"

definition adopt :: "cert_parser \<Rightarrow> transport \<Rightarrow> qconn \<Rightarrow> bool \<Rightarrow> transport \<times> qconn option" where
  "adopt parse t conn accepted =
     (case connIdentity parse conn of
        Inl e \<Rightarrow> (CloseWithError t conn 1 e, None)
      | Inr peer \<Rightarrow>
          if qc_proto conn = alpnEnrol then (adoptEnrol t conn peer, None)
          else
            (let client = (if accepted then peer else tr_id t) in
             case register t conn peer client of
               (t', kept) \<Rightarrow> if kept \<noteq> conn then (t', Some kept) else (serve t' conn peer, Some conn)))"

section \<open>Dialling\<close>

datatype tr_error = ResolveFailed | DialFailed | NotUsable | DialWaitEnded | TransportShutDown | StreamFailed | PacketTooLarge nat nat
  | AdvertiseRequired | InvalidAdvertise string

text \<open>\<^verbatim>\<open>dial\<close>: what resolving the address and the handshake answered is \<open>dialled\<close>.\<close>

definition dial :: "cert_parser \<Rightarrow> transport \<Rightarrow> tr_error + qconn \<Rightarrow> transport \<times> (tr_error + qconn)" where
  "dial parse t dialled =
     (case dialled of
        Inl e \<Rightarrow> (t, Inl e)
      | Inr conn \<Rightarrow>
          (case adopt parse t conn False of
             (t', Some kept) \<Rightarrow> (t', Inr kept)
           | (t', None) \<Rightarrow> (t', Inl NotUsable)))"

text \<open>
  \<^verbatim>\<open>connect\<close> in its critical sections: a lookup, the claim of the dial, which finds one in flight or
  announces its own, the adoption of what was dialled, and the end of the dial. Between them anything
  may happen.
\<close>

datatype connecting = WaitFor | DialIt

definition connect_claim :: "transport \<Rightarrow> string \<Rightarrow> transport \<times> connecting" where
  "connect_claim t addr =
     (if addr \<in> set (tr_dialing t) then (t, WaitFor) else (t\<lparr>tr_dialing := addr # tr_dialing t\<rparr>, DialIt))"

definition dial_over :: "transport \<Rightarrow> string \<Rightarrow> transport" where
  "dial_over t addr = t\<lparr>tr_dialing := remove1 addr (tr_dialing t)\<rparr>"

text \<open>The whole of it when nothing comes between; \<open>waited\<close> is what the other dial's end answers.\<close>

definition connect :: "cert_parser \<Rightarrow> transport \<Rightarrow> string \<Rightarrow> tr_error + qconn \<Rightarrow> tr_error + qconn \<Rightarrow> transport \<times> (tr_error + qconn)" where
  "connect parse t addr waited dialled =
     (case tr_lookup t addr of
        Some c \<Rightarrow> (t, Inr c)
      | None \<Rightarrow>
          (case connect_claim t addr of
             (t1, WaitFor) \<Rightarrow> (t1, waited)
           | (t1, DialIt) \<Rightarrow> (case dial parse t1 dialled of (t2, r) \<Rightarrow> (dial_over t2 addr, r))))"

definition dialAsync :: "transport \<Rightarrow> string \<Rightarrow> transport" where
  "dialAsync t addr =
     (if addr \<in> set (tr_dialing t) then t
      else (case track t [AsyncDial addr] of None \<Rightarrow> t | Some t' \<Rightarrow> t'))"

section \<open>memberlist's side\<close>

text \<open>\<^verbatim>\<open>FinalAdvertiseAddr\<close>: the socket's own address, and \<^verbatim>\<open>net.ParseIP\<close>, are arguments.\<close>

definition FinalAdvertiseAddr :: "(string \<Rightarrow> addr option) \<Rightarrow> addr \<times> nat \<Rightarrow> string \<Rightarrow> nat \<Rightarrow> tr_error + addr \<times> nat" where
  "FinalAdvertiseAddr parseIP local ip port =
     (if ip = '''' then
        if is_unspecified (unmap (fst local)) then Inl AdvertiseRequired else Inr local
      else
        (case parseIP ip of
           None \<Rightarrow> Inl (InvalidAdvertise ip)
         | Some parsed \<Rightarrow> Inr (parsed, if port = 0 then snd local else port)))"

text \<open>What sending a datagram answers.\<close>

datatype send_result = Sent | TooLarge nat | SendFailed

definition WriteToAddress :: "transport \<Rightarrow> bytes \<Rightarrow> string \<Rightarrow> send_result \<Rightarrow> transport \<times> tr_error option" where
  "WriteToAddress t b addr send =
     (if tr_done t then (t, None)
      else
        (case tr_lookup t addr of
           None \<Rightarrow> (dialAsync t addr, None)
         | Some conn \<Rightarrow>
             (case send of
                Sent \<Rightarrow> (t\<lparr>tr_sent := tr_sent t @ [(b, conn)]\<rparr>, None)
              | TooLarge n \<Rightarrow> (t, Some (PacketTooLarge (length b) n))
              | SendFailed \<Rightarrow> (tr_forget t addr conn, None))))"

text \<open>
  \<^verbatim>\<open>DialAddressTimeout\<close>, before and after \<open>connect\<close>: a stream on the connection there is, if it still
  opens one, or \<open>None\<close>, go on to \<open>connect\<close>; and a stream on what that gave. \<open>opens\<close> is whether the
  connection opens a stream.
\<close>

definition DialAddressTimeout_begin :: "cert_parser \<Rightarrow> transport \<Rightarrow> string \<Rightarrow> bool \<Rightarrow> transport \<times> (tr_error + qconn \<times> public_key) option" where
  "DialAddressTimeout_begin parse t addr opens =
     (if tr_done t then (t, Some (Inl TransportShutDown))
      else
        (case tr_lookup t addr of
           Some conn \<Rightarrow> if opens then (t, Some (Inr (conn, peerOf parse conn))) else (tr_forget t addr conn, None)
         | None \<Rightarrow> (t, None)))"

definition DialAddressTimeout_end :: "cert_parser \<Rightarrow> tr_error + qconn \<Rightarrow> bool \<Rightarrow> tr_error + qconn \<times> public_key" where
  "DialAddressTimeout_end parse connected opens =
     (case connected of
        Inl e \<Rightarrow> Inl e
      | Inr conn \<Rightarrow> if opens then Inr (conn, peerOf parse conn) else Inl StreamFailed)"

text \<open>
  \<^verbatim>\<open>Shutdown\<close> up to the wait: every connection of the table is closed with a word to the peer, then
  \<^verbatim>\<open>done\<close> is closed and QUIC destroys the rest. The wait ends when the wait group is down to zero.
\<close>

definition close_conns :: "transport \<Rightarrow> qconn list \<Rightarrow> transport" where
  "close_conns t cs = foldl (\<lambda>t c. CloseWithError t c 0 ShuttingDown) t cs"

definition Shutdown :: "transport \<Rightarrow> transport" where
  "Shutdown t = (if tr_done t then t else (close_conns t (map (pc_conn \<circ> snd) (tr_conns t)))\<lparr>tr_done := True\<rparr>)"

section \<open>Interleaved steps\<close>

definition newQUICTransport :: "public_key \<Rightarrow> trust_set \<Rightarrow> bool \<Rightarrow> transport" where
  "newQUICTransport self s offers =
     \<lparr>tr_id = self, tr_set = s, tr_offers_enrol = offers, tr_enrolSem = 0, tr_done = False, tr_wg = 0, tr_conns = [], tr_dialing = [],
      tr_closed = [], tr_tasks = [], tr_packets = [], tr_streams = [], tr_enrolled = [], tr_sent = []\<rparr>"

definition tr_start :: "transport \<Rightarrow> transport" where
  "tr_start t = t\<lparr>tr_wg := tr_wg t + 1, tr_tasks := Accept # tr_tasks t\<rparr>"

text \<open>
  Every step any of the goroutines, memberlist, the cluster (which shares the set) or the network
  can take. A select waits until one of its cases is ready: giving up on memberlist needs \<^verbatim>\<open>done\<close>.
  A read, such as the lookup of \<open>connect\<close>, is no step, and what follows it may come at any later time.
\<close>

inductive transport_step :: "cert_parser \<Rightarrow> ed25519 \<Rightarrow> transport \<Rightarrow> transport \<Rightarrow> bool" for parse C where
  accept: "Accept \<in> set (tr_tasks t) \<Longrightarrow> transport_step parse C t (fst (adopt parse t conn True))"
| accept_end: "Accept \<in> set (tr_tasks t) \<Longrightarrow> transport_step parse C t (finish t Accept)"
| datagram: "Datagrams conn peer \<in> set (tr_tasks t) \<Longrightarrow> transport_step parse C t (serve_datagram t conn peer received)"
| packet: "HandPacket conn peer b \<in> set (tr_tasks t) \<Longrightarrow> taken \<or> tr_done t \<Longrightarrow>
    transport_step parse C t (hand_packet t conn peer b taken)"
| stream: "Streams conn peer \<in> set (tr_tasks t) \<Longrightarrow> transport_step parse C t (serve_stream t conn peer accepted)"
| handed: "HandStream conn peer \<in> set (tr_tasks t) \<Longrightarrow> taken \<or> tr_done t \<Longrightarrow>
    transport_step parse C t (hand_stream t conn peer taken)"
| enrolment: "Enrolment conn peer \<in> set (tr_tasks t) \<Longrightarrow> transport_step parse C t (serveEnrol t conn peer opened)"
| async_end: "AsyncDial addr \<in> set (tr_tasks t) \<Longrightarrow> transport_step parse C t (finish t (AsyncDial addr))"
| claim: "transport_step parse C t (fst (connect_claim t addr))"
| dialled: "addr \<in> set (tr_dialing t) \<Longrightarrow> transport_step parse C t (fst (dial parse t dialled))"
| dial_over: "addr \<in> set (tr_dialing t) \<Longrightarrow> transport_step parse C t (dial_over t addr)"
| send_packet: "transport_step parse C t (fst (WriteToAddress t b addr send))"
| dial_stream: "transport_step parse C t (fst (DialAddressTimeout_begin parse t addr opens))"
| network: "transport_step parse C t (CloseWithError t conn code reason)"
| membership: "set_run C (tr_set t) s \<Longrightarrow> transport_step parse C t (t\<lparr>tr_set := s\<rparr>)"
| shutdown: "transport_step parse C t (Shutdown t)"

inductive transport_run :: "cert_parser \<Rightarrow> ed25519 \<Rightarrow> transport \<Rightarrow> transport \<Rightarrow> bool" for parse C where
  idle: "transport_run parse C t t"
| step: "transport_run parse C t t' \<Longrightarrow> transport_step parse C t' t'' \<Longrightarrow> transport_run parse C t t''"

inductive_cases transport_stepE: "transport_step parse C t t'"

section \<open>Invariants\<close>

fun is_enrolment :: "tr_task \<Rightarrow> bool" where
  "is_enrolment (Enrolment _ _) = True"
| "is_enrolment _ = False"

text \<open>
  The wait group counts the goroutines there are, the semaphore the enrolments among them, and it
  never exceeds its capacity.
\<close>

definition tasks_counted :: "transport \<Rightarrow> bool" where
  "tasks_counted t \<longleftrightarrow> tr_wg t = length (tr_tasks t) \<and> tr_enrolSem t = length (filter is_enrolment (tr_tasks t)) \<and>
     tr_enrolSem t \<le> maxEnrolments"

text \<open>A pump serves a gossip connection for the identity of its certificate.\<close>

fun task_bound :: "cert_parser \<Rightarrow> tr_task \<Rightarrow> bool" where
  "task_bound parse (Datagrams conn peer) \<longleftrightarrow> connIdentity parse conn = Inr peer \<and> qc_proto conn \<noteq> alpnEnrol"
| "task_bound parse (HandPacket conn peer b) \<longleftrightarrow> connIdentity parse conn = Inr peer \<and> qc_proto conn \<noteq> alpnEnrol"
| "task_bound parse (HandStream conn peer) \<longleftrightarrow> connIdentity parse conn = Inr peer \<and> qc_proto conn \<noteq> alpnEnrol"
| "task_bound parse (Streams conn peer) \<longleftrightarrow> connIdentity parse conn = Inr peer \<and> qc_proto conn \<noteq> alpnEnrol"
| "task_bound parse (Enrolment conn peer) \<longleftrightarrow> connIdentity parse conn = Inr peer \<and> qc_proto conn = alpnEnrol"
| "task_bound parse _ \<longleftrightarrow> True"

definition wf_table :: "transport \<Rightarrow> bool" where
  "wf_table t \<longleftrightarrow> go_map (tr_conns t) \<and> (\<forall>addr pc. map_of (tr_conns t) addr = Some pc \<longrightarrow> qc_RemoteAddr (pc_conn pc) = addr) \<and> distinct (tr_dialing t)"

definition wf_transport :: "cert_parser \<Rightarrow> ed25519 \<Rightarrow> transport \<Rightarrow> bool" where
  "wf_transport parse C t \<longleftrightarrow> tasks_counted t \<and> wf_table t \<and> wf_set C (tr_set t) \<and> (\<forall>task \<in> set (tr_tasks t). task_bound parse task)"

named_theorems tr_intros

lemma CloseWithError_frame [simp]:
  "tr_id (CloseWithError t c n r) = tr_id t" "tr_set (CloseWithError t c n r) = tr_set t"
  "tr_conns (CloseWithError t c n r) = tr_conns t" "tr_wg (CloseWithError t c n r) = tr_wg t"
  "tr_tasks (CloseWithError t c n r) = tr_tasks t" "tr_enrolSem (CloseWithError t c n r) = tr_enrolSem t"
  "tr_dialing (CloseWithError t c n r) = tr_dialing t" "tr_done (CloseWithError t c n r) = tr_done t"
  "tr_packets (CloseWithError t c n r) = tr_packets t" "tr_streams (CloseWithError t c n r) = tr_streams t"
  by (simp_all add: CloseWithError_def)

lemma live_CloseWithError: "live (CloseWithError t c n r) d \<longleftrightarrow> live t d \<and> qc_no d \<noteq> qc_no c"
  by (auto simp: CloseWithError_def live_def)

lemma tr_forget_frame [simp]:
  "tr_set (tr_forget t a c) = tr_set t" "tr_wg (tr_forget t a c) = tr_wg t" "tr_tasks (tr_forget t a c) = tr_tasks t"
  "tr_enrolSem (tr_forget t a c) = tr_enrolSem t" "tr_dialing (tr_forget t a c) = tr_dialing t" "tr_done (tr_forget t a c) = tr_done t"
  "tr_packets (tr_forget t a c) = tr_packets t" "tr_streams (tr_forget t a c) = tr_streams t"
  by (auto simp: tr_forget_def Let_def split: option.splits)

lemma register_frame [simp]:
  "tr_set (fst (register t c p d)) = tr_set t" "tr_wg (fst (register t c p d)) = tr_wg t" "tr_tasks (fst (register t c p d)) = tr_tasks t"
  "tr_enrolSem (fst (register t c p d)) = tr_enrolSem t" "tr_dialing (fst (register t c p d)) = tr_dialing t"
  "tr_done (fst (register t c p d)) = tr_done t" "tr_id (fst (register t c p d)) = tr_id t"
  "tr_packets (fst (register t c p d)) = tr_packets t" "tr_streams (fst (register t c p d)) = tr_streams t"
  by (auto simp: register_def Let_def split: option.splits)

lemma CloseWithError_wf [tr_intros]: "wf_transport parse C t \<Longrightarrow> wf_transport parse C (CloseWithError t c n r)"
  by (simp add: wf_transport_def tasks_counted_def wf_table_def)

lemma tr_forget_wf [tr_intros]:
  assumes "wf_transport parse C t"
  shows "wf_transport parse C (tr_forget t a c)"
proof -
  have "tr_conns (tr_forget t a c) = tr_conns t \<or> tr_conns (tr_forget t a c) = AList.delete a (tr_conns t)"
    by (auto simp: tr_forget_def Let_def split: option.splits)
  then show ?thesis using assms by (auto simp: wf_transport_def tasks_counted_def wf_table_def delete_conv update_conv split: if_splits)
qed

lemma register_wf [tr_intros]:
  assumes "wf_transport parse C t"
  shows "wf_transport parse C (fst (register t c p d))"
proof -
  let ?m = "AList.update (qc_RemoteAddr c) \<lparr>pc_conn = c, pc_client = d\<rparr> (tr_conns t)"
  have "tr_conns (fst (register t c p d)) = tr_conns t \<or> tr_conns (fst (register t c p d)) = ?m"
    by (auto simp: register_def Let_def split: option.splits)
  then show ?thesis using assms by (auto simp: wf_transport_def tasks_counted_def wf_table_def delete_conv update_conv split: if_splits)
qed


lemma track_wf:
  assumes "wf_transport parse C t" and "track t tasks = Some t'" and "\<forall>task \<in> set tasks. task_bound parse task \<and> \<not> is_enrolment task"
  shows "wf_transport parse C t'"
  using assms by (auto simp: track_def wf_transport_def tasks_counted_def wf_table_def filter_empty_conv split: if_splits)

lemma finish_wf [tr_intros]:
  assumes "wf_transport parse C t" and "task \<in> set (tr_tasks t)" and "\<not> is_enrolment task"
  shows "wf_transport parse C (finish t task)"
proof -
  have "filter is_enrolment (remove1 task (tr_tasks t)) = filter is_enrolment (tr_tasks t)"
    using assms(3) by (simp add: filter_remove1 remove1_idem)
  then show ?thesis
    using assms notin_set_remove1 [of _ "tr_tasks t" task]
    by (auto simp: finish_def wf_transport_def tasks_counted_def wf_table_def length_remove1)
qed

lemma set_query_wf [tr_intros]: "wf_transport parse C t \<Longrightarrow> wf_transport parse C (t\<lparr>tr_set := fst (Valid (tr_set t) x)\<rparr>)"
  by (simp add: wf_transport_def tasks_counted_def wf_table_def Valid_wf)

lemma serve_wf [tr_intros]:
  assumes "wf_transport parse C t" and "connIdentity parse c = Inr p" and "qc_proto c \<noteq> alpnEnrol"
  shows "wf_transport parse C (serve t c p)"
  using assms tr_forget_wf [OF assms(1)] track_wf [OF assms(1)]
  by (auto simp: serve_def split: option.splits)

lemma adoptEnrol_wf [tr_intros]:
  assumes "wf_transport parse C t" and "connIdentity parse c = Inr p" and "qc_proto c = alpnEnrol"
  shows "wf_transport parse C (adoptEnrol t c p)"
  using assms CloseWithError_wf [OF assms(1)]
  by (auto simp: adoptEnrol_def Let_def track_def wf_transport_def tasks_counted_def wf_table_def)

lemma adopt_wf [tr_intros]:
  assumes "wf_transport parse C t"
  shows "wf_transport parse C (fst (adopt parse t c accepted))"
proof (cases "connIdentity parse c")
  case (Inl e)
  with assms show ?thesis by (simp add: adopt_def CloseWithError_wf)
next
  case (Inr p)
  with assms show ?thesis
    using register_wf [OF assms, of c p] serve_wf [OF register_wf [OF assms, of c p] Inr]
    by (auto simp: adopt_def Let_def adoptEnrol_wf case_prod_beta)
qed

lemma become_wf [tr_intros]:
  assumes "wf_transport parse C t" and "task \<in> set (tr_tasks t)" and "\<not> is_enrolment task" and "\<not> is_enrolment task'" and "task_bound parse task'"
  shows "wf_transport parse C (become t task task')"
proof -
  have "filter is_enrolment (remove1 task (tr_tasks t)) = filter is_enrolment (tr_tasks t)"
    using assms(3) by (simp add: filter_remove1 remove1_idem)
  moreover have "tr_tasks t \<noteq> []" using assms(2) by auto
  ultimately show ?thesis
    using assms notin_set_remove1 [of _ "tr_tasks t" task]
    by (auto simp: become_def wf_transport_def tasks_counted_def wf_table_def length_remove1)
qed

lemma become_frame [simp]:
  "tr_set (become t a b) = tr_set t" "tr_packets (become t a b) = tr_packets t" "tr_streams (become t a b) = tr_streams t"
  "tr_tasks (become t a b) = b # remove1 a (tr_tasks t)" "tr_done (become t a b) = tr_done t" "tr_wg (become t a b) = tr_wg t"
  by (simp_all add: become_def)

lemma handed_wf [tr_intros]:
  "wf_transport parse C t \<Longrightarrow> wf_transport parse C (t\<lparr>tr_packets := ps\<rparr>)"
  "wf_transport parse C t \<Longrightarrow> wf_transport parse C (t\<lparr>tr_streams := ss\<rparr>)"
  by (simp_all add: wf_transport_def tasks_counted_def wf_table_def)

lemma task_bound_wf: "wf_transport parse C t \<Longrightarrow> task \<in> set (tr_tasks t) \<Longrightarrow> task_bound parse task"
  by (simp add: wf_transport_def)

lemma serve_datagram_wf [tr_intros]:
  assumes "wf_transport parse C t" and "Datagrams c p \<in> set (tr_tasks t)"
  shows "wf_transport parse C (serve_datagram t c p received)"
proof -
  let ?u = "t\<lparr>tr_set := fst (Valid (tr_set t) p)\<rparr>"
  have bound: "task_bound parse (HandPacket c p b)" for b using task_bound_wf [OF assms] by simp
  have u: "wf_transport parse C ?u" using assms(1) by (rule set_query_wf)
  have "wf_transport parse C (become ?u (Datagrams c p) (HandPacket c p b))" for b using u assms(2) bound by (intro become_wf) auto
  moreover have "wf_transport parse C (finish (tr_forget u a c) (Datagrams c p))" if "wf_transport parse C u" "tr_tasks u = tr_tasks t" for u a
    using that assms(2) by (intro tr_intros) auto
  ultimately show ?thesis
    using assms(1) u CloseWithError_wf [OF u] by (auto simp: serve_datagram_def Let_def case_prod_beta split: option.split)
qed

lemma hand_packet_wf [tr_intros]:
  assumes "wf_transport parse C t" and "HandPacket c p b \<in> set (tr_tasks t)"
  shows "wf_transport parse C (hand_packet t c p b taken)"
  using assms task_bound_wf [OF assms] by (auto simp: hand_packet_def intro!: tr_intros)

lemma serve_stream_wf [tr_intros]:
  assumes "wf_transport parse C t" and "Streams c p \<in> set (tr_tasks t)"
  shows "wf_transport parse C (serve_stream t c p accepted)"
proof -
  let ?u = "t\<lparr>tr_set := fst (Valid (tr_set t) p)\<rparr>"
  have u: "wf_transport parse C ?u" using assms(1) by (rule set_query_wf)
  have "wf_transport parse C (become ?u (Streams c p) (HandStream c p))"
    using u assms(2) task_bound_wf [OF assms] by (intro become_wf) auto
  moreover have "wf_transport parse C (finish u (Streams c p))" if "wf_transport parse C u" "tr_tasks u = tr_tasks t" for u
    using that assms(2) by (intro tr_intros) auto
  ultimately show ?thesis
    using assms(1) CloseWithError_wf [OF u] by (auto simp: serve_stream_def Let_def case_prod_beta)
qed

lemma hand_stream_wf [tr_intros]:
  assumes "wf_transport parse C t" and "HandStream c p \<in> set (tr_tasks t)"
  shows "wf_transport parse C (hand_stream t c p taken)"
  using assms task_bound_wf [OF assms] by (auto simp: hand_stream_def intro!: tr_intros)

lemma serveEnrol_wf [tr_intros]:
  assumes "wf_transport parse C t" and "Enrolment c p \<in> set (tr_tasks t)"
  shows "wf_transport parse C (serveEnrol t c p opened)"
proof -
  have "Enrolment c p \<in> set (filter is_enrolment (tr_tasks t))" using assms(2) by simp
  then have "length (filter is_enrolment (remove1 (Enrolment c p) (tr_tasks t))) = length (filter is_enrolment (tr_tasks t)) - 1"
    unfolding filter_remove1 by (simp add: length_remove1)
  then show ?thesis
    using assms notin_set_remove1 [of _ "tr_tasks t" "Enrolment c p"]
    by (auto simp: serveEnrol_def Let_def finish_def wf_transport_def tasks_counted_def wf_table_def length_remove1)
qed

lemma connect_claim_wf [tr_intros]: "wf_transport parse C t \<Longrightarrow> wf_transport parse C (fst (connect_claim t addr))"
  by (auto simp: connect_claim_def wf_transport_def tasks_counted_def wf_table_def)

lemma dial_wf [tr_intros]:
  "wf_transport parse C t \<Longrightarrow> wf_transport parse C (fst (dial parse t dialled))"
  using adopt_wf [of parse C t] by (auto simp: dial_def split: sum.split prod.split option.split) (metis fst_conv)+

lemma dial_over_wf [tr_intros]: "wf_transport parse C t \<Longrightarrow> wf_transport parse C (dial_over t addr)"
  by (simp add: dial_over_def wf_transport_def tasks_counted_def wf_table_def)

lemma dialAsync_wf [tr_intros]: "wf_transport parse C t \<Longrightarrow> wf_transport parse C (dialAsync t addr)"
  by (auto simp: dialAsync_def track_wf split: option.split)

lemma WriteToAddress_wf [tr_intros]:
  assumes "wf_transport parse C t"
  shows "wf_transport parse C (fst (WriteToAddress t b addr send))"
proof -
  have "wf_transport parse C (t\<lparr>tr_sent := x\<rparr>)" for x
    using assms by (simp add: wf_transport_def tasks_counted_def wf_table_def)
  then show ?thesis
    using assms by (auto simp: WriteToAddress_def dialAsync_wf tr_forget_wf split: option.split send_result.split)
qed

lemma DialAddressTimeout_wf [tr_intros]:
  "wf_transport parse C t \<Longrightarrow> wf_transport parse C (fst (DialAddressTimeout_begin parse t addr opens))"
  by (auto simp: DialAddressTimeout_begin_def tr_forget_wf split: option.split)

lemma close_conns_frame [simp]:
  "tr_wg (close_conns t cs) = tr_wg t" "tr_tasks (close_conns t cs) = tr_tasks t" "tr_conns (close_conns t cs) = tr_conns t"
  "tr_packets (close_conns t cs) = tr_packets t" "tr_streams (close_conns t cs) = tr_streams t" "tr_set (close_conns t cs) = tr_set t"
  by (induction cs arbitrary: t) (simp_all add: close_conns_def)

lemma close_conns_wf [tr_intros]: "wf_transport parse C t \<Longrightarrow> wf_transport parse C (close_conns t cs)"
  by (induction cs arbitrary: t) (auto simp: close_conns_def intro: tr_intros)

lemma Shutdown_wf [tr_intros]: "wf_transport parse C t \<Longrightarrow> wf_transport parse C (Shutdown t)"
  using close_conns_wf [of parse C t] by (simp add: Shutdown_def wf_transport_def tasks_counted_def wf_table_def)

lemma transport_step_wf: "transport_step parse C t t' \<Longrightarrow> wf_transport parse C t \<Longrightarrow> wf_transport parse C t'"
proof (erule transport_stepE)
  fix s
  assume "t' = t\<lparr>tr_set := s\<rparr>" "set_run C (tr_set t) s" "wf_transport parse C t"
  then show ?thesis
    using set_run_wf [of C "tr_set t" s] by (simp add: wf_transport_def tasks_counted_def wf_table_def)
qed (auto intro: tr_intros)

lemma transport_run_wf: "transport_run parse C t t' \<Longrightarrow> wf_transport parse C t \<Longrightarrow> wf_transport parse C t'"
  by (induction rule: transport_run.induct) (auto intro: transport_step_wf)

lemma start_wf: "wf_set C s \<Longrightarrow> wf_transport parse C (tr_start (newQUICTransport self s offers))"
  by (simp add: tr_start_def newQUICTransport_def wf_transport_def tasks_counted_def wf_table_def maxEnrolments_def)

section \<open>Properties\<close>

text \<open>
  C22. The transport's bookkeeping is right under every interleaving: at most eight enrolments are
  in flight and the semaphore counts them, the wait group counts the goroutines that run, at most
  one dial per address is in flight, and the table's connection for an address is one to it.
\<close>

theorem transport_bookkeeping:
  assumes "wf_set C s" and "transport_run parse C (tr_start (newQUICTransport self s offers)) t"
  shows "tr_enrolSem t = length (filter is_enrolment (tr_tasks t)) \<and> tr_enrolSem t \<le> maxEnrolments \<and>
    tr_wg t = length (tr_tasks t) \<and> distinct (tr_dialing t) \<and>
    (\<forall>addr c. tr_lookup t addr = Some c \<longrightarrow> qc_RemoteAddr c = addr \<and> live t c)"
proof -
  have "wf_transport parse C t" using transport_run_wf [OF assms(2) start_wf [OF assms(1)]] .
  then show ?thesis
    by (auto simp: wf_transport_def tasks_counted_def wf_table_def tr_lookup_def split: option.splits if_splits)
qed

text \<open>The packets and streams of a peer that have passed the check and wait for memberlist to take them.\<close>

fun hands :: "public_key \<Rightarrow> tr_task \<Rightarrow> bool" where
  "hands peer (HandPacket _ p _) \<longleftrightarrow> p = peer"
| "hands peer (HandStream _ p) \<longleftrightarrow> p = peer"
| "hands peer _ \<longleftrightarrow> False"

definition pending :: "transport \<Rightarrow> public_key \<Rightarrow> tr_task list" where
  "pending t peer = filter (hands peer) (tr_tasks t)"

text \<open>Nothing between memberlist and the pumps changes.\<close>

definition quiet :: "transport \<Rightarrow> transport \<Rightarrow> bool" where
  "quiet t t' \<longleftrightarrow> tr_packets t' = tr_packets t \<and> tr_streams t' = tr_streams t \<and> (\<forall>p. pending t' p = pending t p)"

lemma quietI:
  "tr_packets t' = tr_packets t \<Longrightarrow> tr_streams t' = tr_streams t \<Longrightarrow> tr_tasks t' = tr_tasks t \<Longrightarrow> quiet t t'"
  by (simp add: quiet_def pending_def)

lemma quiet_trans: "quiet t u \<Longrightarrow> quiet u v \<Longrightarrow> quiet t v"
  by (simp add: quiet_def)

lemma quiet_track: "track t ts = Some t' \<Longrightarrow> \<forall>task \<in> set ts. \<forall>p. \<not> hands p task \<Longrightarrow> quiet t t'"
  by (auto simp: track_def quiet_def pending_def filter_empty_conv split: if_splits)

lemma quiet_finish: "\<forall>p. \<not> hands p task \<Longrightarrow> quiet t (finish t task)"
  by (simp add: quiet_def pending_def finish_def filter_remove1 remove1_idem)

lemma quiet_adopt: "quiet t (fst (adopt parse t c accepted))"
proof -
  have serve: "quiet u (serve u c p)" for u p
    using quiet_track [of u "[Datagrams c p, Streams c p]"] by (auto simp: serve_def intro: quietI split: option.split)
  have enrol: "quiet u (adoptEnrol u c p)" for u p
    using quiet_track [of "u\<lparr>tr_enrolSem := Suc (tr_enrolSem u)\<rparr>" "[Enrolment c p]"]
    by (auto simp: adoptEnrol_def Let_def quiet_def pending_def split: option.split)
  have register: "quiet t (fst (register t c p d))" for p d by (simp add: quietI)
  show ?thesis
    using quiet_trans [OF register serve] register enrol
    by (auto simp: adopt_def Let_def case_prod_beta quietI split: sum.split)
qed

lemma quiet_dial: "quiet t (fst (dial parse t dialled))"
  using quiet_adopt [of t parse] by (auto simp: dial_def quietI split: sum.split prod.split option.split) (metis fst_conv)+

lemma quiet_write: "quiet t (fst (WriteToAddress t b addr send))"
proof -
  have "quiet t (dialAsync t addr)"
    using quiet_track [of t "[AsyncDial addr]"] by (auto simp: dialAsync_def quietI split: option.split)
  then show ?thesis by (auto simp: WriteToAddress_def quietI split: option.split send_result.split)
qed

text \<open>
  What the steps do to what waits: a check that succeeds, which takes a member, adds one, its
  hand-over takes it away, and every other step leaves all alone.
\<close>

definition checked :: "transport \<Rightarrow> public_key \<Rightarrow> tr_task \<Rightarrow> transport" where
  "checked t peer task =
     (case task of
        HandPacket conn _ b \<Rightarrow> serve_datagram t conn peer (Some b)
      | HandStream conn _ \<Rightarrow> serve_stream t conn peer True
      | _ \<Rightarrow> t)"

definition handed_over :: "transport \<Rightarrow> tr_task \<Rightarrow> transport \<Rightarrow> bool" where
  "handed_over t task t' \<longleftrightarrow>
     (case task of
        HandPacket conn _ b \<Rightarrow> tr_packets t' = tr_packets t @ [(b, qc_RemoteAddr conn)] \<and> tr_streams t' = tr_streams t
      | HandStream conn peer \<Rightarrow> tr_packets t' = tr_packets t \<and> tr_streams t' = tr_streams t @ [(conn, peer)]
      | _ \<Rightarrow> False)"

inductive waits :: "transport \<Rightarrow> transport \<Rightarrow> bool" where
  unchanged: "quiet t t' \<Longrightarrow> waits t t'"
| checks: "hands peer task \<Longrightarrow> valid (tr_set t) peer \<Longrightarrow> t' = checked t peer task \<Longrightarrow> tr_packets t' = tr_packets t \<Longrightarrow>
    tr_streams t' = tr_streams t \<Longrightarrow> (\<And>p. pending t' p = (if p = peer then task # pending t p else pending t p)) \<Longrightarrow> waits t t'"
| gone: "hands peer task \<Longrightarrow> task \<in> set (tr_tasks t) \<Longrightarrow>
    handed_over t task t' \<or> tr_packets t' = tr_packets t \<and> tr_streams t' = tr_streams t \<Longrightarrow>
    (\<And>p. pending t' p = remove1 task (pending t p)) \<Longrightarrow> waits t t'"

inductive_cases waitsE: "waits t t'"

lemma waits_datagram:
  assumes "wf_set C (tr_set t)"
  shows "waits t (serve_datagram t c p received)"
proof (cases "received = None \<or> \<not> valid (tr_set t) p")
  case True
  then have "quiet t (serve_datagram t c p received)"
    using Valid_answer [OF assms, of p] quiet_finish [of "Datagrams c p"]
    by (auto simp: serve_datagram_def Let_def case_prod_beta quiet_def pending_def split: option.splits)
  then show ?thesis by (rule unchanged)
next
  case False
  then obtain b where "received = Some b" by auto
  moreover have "snd (Valid (tr_set t) p)" using False Valid_answer [OF assms, of p] by simp
  ultimately show ?thesis
    using False by (intro checks [of p "HandPacket c p b"])
      (auto simp: checked_def serve_datagram_def Let_def case_prod_beta pending_def filter_remove1 remove1_idem)
qed

lemma waits_stream:
  assumes "wf_set C (tr_set t)"
  shows "waits t (serve_stream t c p accepted)"
proof (cases "accepted \<and> valid (tr_set t) p")
  case False
  then have "quiet t (serve_stream t c p accepted)"
    using Valid_answer [OF assms, of p] quiet_finish [of "Streams c p"]
    by (auto simp: serve_stream_def Let_def case_prod_beta quiet_def pending_def)
  then show ?thesis by (rule unchanged)
next
  case True
  then have "snd (Valid (tr_set t) p)" using Valid_answer [OF assms, of p] by simp
  with True show ?thesis
    by (intro checks [of p "HandStream c p"])
      (auto simp: checked_def serve_stream_def Let_def case_prod_beta pending_def filter_remove1 remove1_idem)
qed

lemma waits_handed:
  "HandPacket c p b \<in> set (tr_tasks t) \<Longrightarrow> waits t (hand_packet t c p b taken)"
  "HandStream c p \<in> set (tr_tasks t) \<Longrightarrow> waits t (hand_stream t c p taken)"
  by (rule gone [of p "HandPacket c p b"]; simp add: hand_packet_def handed_over_def pending_def finish_def filter_remove1)
    (rule gone [of p "HandStream c p"]; simp add: hand_stream_def handed_over_def pending_def finish_def filter_remove1)

lemma step_waits:
  assumes "transport_step parse C t t'" and "wf_set C (tr_set t)"
  shows "waits t t'"
  using assms(1)
proof (cases rule: transport_step.cases)
  case (datagram conn peer received)
  then show ?thesis using waits_datagram [OF assms(2)] by simp
next
  case (stream conn peer accepted)
  then show ?thesis using waits_stream [OF assms(2)] by simp
next
  case (enrolment conn peer opened)
  then have "quiet t t'"
    using quiet_finish [of "Enrolment conn peer"] by (auto simp: serveEnrol_def Let_def quiet_def pending_def)
  then show ?thesis by (rule unchanged)
next
  case (packet conn peer b taken)
  then show ?thesis using waits_handed(1) by simp
next
  case (handed conn peer taken)
  then show ?thesis using waits_handed(2) by simp
next
  case accept_end
  then show ?thesis using unchanged quiet_finish [of Accept] by simp
next
  case (async_end addr)
  then show ?thesis using unchanged quiet_finish [of "AsyncDial addr"] by simp
qed (use quiet_adopt quiet_dial quiet_write in
    \<open>auto simp: connect_claim_def dial_over_def DialAddressTimeout_begin_def Shutdown_def intro!: unchanged intro: quietI
      split: option.split\<close>)

text \<open>What waits has been checked, at an earlier moment of the run.\<close>

lemma waits_checked:
  assumes "transport_run parse C (tr_start (newQUICTransport self s offers)) t" and "wf_set C s" and "task \<in> set (pending t peer)"
  shows "\<exists>t0. transport_run parse C (tr_start (newQUICTransport self s offers)) t0 \<and> valid (tr_set t0) peer \<and>
    transport_run parse C (checked t0 peer task) t"
  using assms
proof (induction "tr_start (newQUICTransport self s offers)" t rule: transport_run.induct)
  case idle
  then show ?case by (simp add: pending_def tr_start_def newQUICTransport_def)
next
  case (step t t')
  have old: ?case if "task \<in> set (pending t peer)"
    using step.hyps(2) [OF step.prems(1) that] step.hyps(3) transport_run.step by blast
  have "wf_set C (tr_set t)" using transport_run_wf [OF step.hyps(1) start_wf [OF step.prems(1)]] by (simp add: wf_transport_def)
  from step_waits [OF step.hyps(3) this] show ?case
  proof (cases rule: waits.cases)
    case unchanged
    then show ?thesis using old step.prems by (simp add: quiet_def)
  next
    case (checks p task')
    then show ?thesis
      using old step.hyps(1) step.prems(2) transport_run.idle by (cases "peer = p \<and> task = task'") (auto split: if_splits)
  next
    case (gone p task')
    then show ?thesis using old step.prems(2) notin_set_remove1 by force
  qed
qed

text \<open>
  C23. Only members gossip. Whatever a step of any interleaving hands to memberlist was received on a
  gossip connection whose certificate carries the peer's identity, passed the check after it was
  received, and at that check the peer was a member, one the handshake would accept too. Between the
  check and the hand-over the send may block and the peer be revoked; but while an identity is not a
  member nothing more of its passes the check: what waits to be handed over never grows, and each
  hand-over uses it up.
\<close>

theorem only_members_gossip:
  assumes "wf_set C s" and "transport_run parse C (tr_start (newQUICTransport self s offers)) t" and "transport_step parse C t t'"
  shows "((tr_packets t', tr_streams t') \<noteq> (tr_packets t, tr_streams t) \<longrightarrow>
      (\<exists>conn peer t0. connIdentity parse conn = Inr peer \<and> qc_proto conn \<noteq> alpnEnrol \<and>
        transport_run parse C (tr_start (newQUICTransport self s offers)) t0 \<and> valid (tr_set t0) peer \<and>
        snd (verify_gossip parse (tr_set t0) (qc_certs conn)) = None \<and> length (pending t' peer) < length (pending t peer) \<and>
        ((\<exists>b. transport_run parse C (serve_datagram t0 conn peer (Some b)) t \<and> tr_packets t' = tr_packets t @ [(b, qc_RemoteAddr conn)]) \<or>
         transport_run parse C (serve_stream t0 conn peer True) t \<and> tr_streams t' = tr_streams t @ [(conn, peer)]))) \<and>
    (\<forall>peer. \<not> valid (tr_set t) peer \<longrightarrow> length (pending t' peer) \<le> length (pending t peer))"
proof -
  have wf: "wf_transport parse C u" if "transport_run parse C (tr_start (newQUICTransport self s offers)) u" for u
    using transport_run_wf [OF that start_wf [OF assms(1)]] .
  have set: "wf_set C (tr_set u)" if "transport_run parse C (tr_start (newQUICTransport self s offers)) u" for u
    using wf [OF that] by (simp add: wf_transport_def)
  from step_waits [OF assms(3) set [OF assms(2)]] show ?thesis
  proof (cases rule: waits.cases)
    case (gone peer task)
    then have task: "task \<in> set (pending t peer)" by (simp add: pending_def)
    obtain t0 where t0: "transport_run parse C (tr_start (newQUICTransport self s offers)) t0" "valid (tr_set t0) peer"
        "transport_run parse C (checked t0 peer task) t"
      using waits_checked [OF assms(2,1) task] by blast
    obtain conn where conn: "(\<exists>b. task = HandPacket conn peer b) \<or> task = HandStream conn peer" using gone(1) by (cases task) auto
    then have bound: "connIdentity parse conn = Inr peer" "qc_proto conn \<noteq> alpnEnrol"
      using task_bound_wf [OF wf [OF assms(2)] gone(2)] by auto
    then have "snd (verify_gossip parse (tr_set t0) (qc_certs conn)) = None"
      using t0(2) Valid_answer [OF set [OF t0(1)]]
      by (auto simp: connIdentity_def certIdentity_def verify_gossip_def case_prod_beta split: list.splits)
    moreover have "length (pending t' peer) < length (pending t peer)"
      using task length_pos_if_in_set [OF task] by (simp add: gone(4) length_remove1)
    moreover have "length (pending t' p) \<le> length (pending t p)" for p by (simp add: gone(4) length_remove1)
    ultimately show ?thesis using gone(3) bound t0 conn by (force simp: handed_over_def checked_def)
  qed (auto simp: quiet_def split: if_splits)
qed

text \<open>Registering a sequence of connections with one peer, each with the identity that dialled it.\<close>

definition register_all :: "transport \<Rightarrow> public_key \<Rightarrow> (qconn \<times> public_key) list \<Rightarrow> transport" where
  "register_all t peer cs = foldl (\<lambda>t (conn, client). fst (register t conn peer client)) t cs"

lemma register_two:
  assumes "tr_lookup t addr = None" and "qc_RemoteAddr x = addr" and "qc_RemoteAddr y = addr" and "qc_no x \<noteq> qc_no y"
    and "live t x" and "live t y"
  shows "tr_lookup (register_all t peer [(x, dx), (y, dy)]) addr = Some (if keepNew dx dy (preferredDialer (tr_id t) peer) then y else x) \<and>
    \<not> live (register_all t peer [(x, dx), (y, dy)]) (if keepNew dx dy (preferredDialer (tr_id t) peer) then x else y)"
proof -
  let ?t1 = "t\<lparr>tr_conns := AList.update addr \<lparr>pc_conn = x, pc_client = dx\<rparr> (tr_conns t)\<rparr>"
  have first: "fst (register t x peer dx) = ?t1"
    using assms(1,2) by (auto simp: register_def tr_lookup_def Let_def split: option.splits if_splits)
  have live: "live ?t1 c = live t c" for c by (simp add: live_def)
  have "register_all t peer [(x, dx), (y, dy)] = fst (register ?t1 y peer dy)" by (simp add: register_all_def first)
  moreover have "fst (register ?t1 y peer dy) =
      (if keepNew dx dy (preferredDialer (tr_id t) peer)
       then (CloseWithError ?t1 x 0 Superseded)\<lparr>tr_conns := AList.update addr \<lparr>pc_conn = y, pc_client = dy\<rparr> (tr_conns ?t1)\<rparr>
       else CloseWithError ?t1 y 0 DuplicateConnection)"
    using assms(3,5) live by (simp add: register_def Let_def)
  moreover have "live (u\<lparr>tr_conns := m\<rparr>) c = live u c" for u m c by (simp add: live_def)
  ultimately show ?thesis
    using assms(4-6) live by (auto simp: tr_lookup_def live_CloseWithError)
qed

text \<open>
  C24. Two nodes that dial each other at once settle on one connection, the same at both ends: in
  whatever order each of them registers the connection it dialled and the one it accepted, both
  keep the one dialled by the smaller identity and close the other.
\<close>

theorem tie_break_agrees:
  assumes "a \<noteq> b" and "tr_id t = a" and "tr_id u = b" and "qc_no x = qc_no x'" and "qc_no y = qc_no y'" and "qc_no x \<noteq> qc_no y"
    and "tr_lookup t addr = None" and "qc_RemoteAddr x = addr" and "qc_RemoteAddr y = addr" and "live t x" and "live t y"
    and "tr_lookup u addr' = None" and "qc_RemoteAddr x' = addr'" and "qc_RemoteAddr y' = addr'" and "live u x'" and "live u y'"
    and "t' \<in> {register_all t b [(x, a), (y, b)], register_all t b [(y, b), (x, a)]}"
    and "u' \<in> {register_all u a [(x', a), (y', b)], register_all u a [(y', b), (x', a)]}"
  shows "if a < b then tr_lookup t' addr = Some x \<and> tr_lookup u' addr' = Some x' \<and> \<not> live t' y \<and> \<not> live u' y'
    else tr_lookup t' addr = Some y \<and> tr_lookup u' addr' = Some y' \<and> \<not> live t' x \<and> \<not> live u' x'"
proof -
  have pref: "preferredDialer a b = min a b" "preferredDialer b a = min a b"
    using assms(1) by (auto simp: preferredDialer_def min_def)
  have keep: "keepNew a b (min a b) \<longleftrightarrow> \<not> a < b" "keepNew b a (min a b) \<longleftrightarrow> a < b"
    using assms(1) by (auto simp: keepNew_def min_def)
  note sides = register_two [OF assms(7-9,6,10,11)] register_two [OF assms(7,9,8) assms(6)[symmetric] assms(11,10)]
    register_two [OF assms(12-14) _ assms(15,16)] register_two [OF assms(12,14,13) _ assms(16,15)]
  show ?thesis
    using assms(17,18) sides(1) [of b a b] sides(2) [of b b a] sides(3) [of a a b] sides(4) [of a b a] assms(1-6)
    by (auto simp: pref keep)
qed

section \<open>Shutdown\<close>

lemma track_done: "tr_done t \<Longrightarrow> track t tasks = None"
  by (simp add: track_def)

text \<open>The goroutine a task is a state of.\<close>

fun goroutine :: "tr_task \<Rightarrow> tr_task" where
  "goroutine (HandPacket conn peer _) = Datagrams conn peer"
| "goroutine (HandStream conn peer) = Streams conn peer"
| "goroutine task = task"

definition only_ends :: "transport \<Rightarrow> transport \<Rightarrow> bool" where
  "only_ends t t' \<longleftrightarrow> tr_done t' \<and> tr_wg t' \<le> tr_wg t \<and> goroutine ` set (tr_tasks t') \<subseteq> goroutine ` set (tr_tasks t)"

lemma only_ends_adopt: "tr_done t \<Longrightarrow> only_ends t (fst (adopt parse t c a))"
  by (auto simp: adopt_def adoptEnrol_def serve_def only_ends_def track_done Let_def case_prod_beta split: sum.split)

lemma only_endsI: "tr_done t' \<Longrightarrow> tr_wg t' \<le> tr_wg t \<Longrightarrow> set (tr_tasks t') \<subseteq> set (tr_tasks t) \<Longrightarrow> only_ends t t'"
  by (auto simp: only_ends_def)

lemma only_ends_become:
  "tr_done u \<Longrightarrow> tr_wg u = tr_wg t \<Longrightarrow> tr_tasks u = tr_tasks t \<Longrightarrow> task \<in> set (tr_tasks t) \<Longrightarrow> goroutine task' = goroutine task \<Longrightarrow>
    only_ends t (become u task task')"
  using set_remove1_subset [of task "tr_tasks t"] by (auto simp: only_ends_def become_def)

lemma only_ends_handed:
  "only_ends t u \<Longrightarrow> only_ends t (u\<lparr>tr_packets := ps\<rparr>)" "only_ends t u \<Longrightarrow> only_ends t (u\<lparr>tr_streams := ss\<rparr>)"
  by (simp_all add: only_ends_def)

lemma only_ends_finish: "tr_done u \<Longrightarrow> tr_wg u = tr_wg t \<Longrightarrow> tr_tasks u = tr_tasks t \<Longrightarrow> only_ends t (finish u task)"
  using set_remove1_subset [of task "tr_tasks t"] by (auto simp: finish_def intro!: only_endsI)

lemma only_ends_step:
  assumes "transport_step parse C t t'" and "tr_done t"
  shows "only_ends t t'"
  using assms(1)
proof (cases rule: transport_step.cases)
  case (accept conn)
  then show ?thesis using only_ends_adopt [OF assms(2)] by simp
next
  case (dialled addr dialled)
  then show ?thesis
    using only_ends_adopt [OF assms(2)] assms(2)
    by (auto simp: dial_def only_endsI split: sum.split prod.split option.split) (metis fst_conv)+
next
  case (datagram conn peer received)
  then show ?thesis
    using assms(2) by (auto simp: serve_datagram_def Let_def case_prod_beta split: option.split intro!: only_ends_finish only_ends_become only_ends_handed)
next
  case (packet conn peer b taken)
  then show ?thesis using assms(2) by (auto simp: hand_packet_def intro!: only_ends_finish only_ends_become only_ends_handed)
next
  case (stream conn peer accepted)
  then show ?thesis
    using assms(2) by (auto simp: serve_stream_def Let_def case_prod_beta intro!: only_ends_finish only_ends_become only_ends_handed)
next
  case (handed conn peer taken)
  then show ?thesis using assms(2) by (auto simp: hand_stream_def intro!: only_ends_finish only_ends_become only_ends_handed)
qed (use assms(2) in
    \<open>auto simp: serveEnrol_def Let_def connect_claim_def dial_over_def WriteToAddress_def DialAddressTimeout_begin_def Shutdown_def
      track_done dialAsync_def intro!: only_endsI only_ends_finish split: option.splits send_result.splits\<close>)

lemma only_ends_run: "transport_run parse C t t' \<Longrightarrow> tr_done t \<Longrightarrow> only_ends t t'"
proof (induction rule: transport_run.induct)
  case (step t t' t'')
  then show ?case using only_ends_step [of parse C t' t''] unfolding only_ends_def by (meson order_trans)
qed (simp add: only_ends_def)

text \<open>Every goroutine has a last step.\<close>

lemma task_ends:
  assumes "wf_transport parse C t" and "tr_done t" and "tr_wg t = Suc n"
  shows "\<exists>t'. transport_step parse C t t' \<and> tr_wg t' = n"
proof -
  obtain task where task: "task \<in> set (tr_tasks t)" using assms(1,3) by (cases "tr_tasks t") (auto simp: wf_transport_def tasks_counted_def)
  show ?thesis
  proof (cases task)
    case Accept
    then show ?thesis using task assms(3) transport_step.accept_end by (force simp: finish_def)
  next
    case (Datagrams conn peer)
    have "tr_wg (serve_datagram t conn peer None) = n" using assms(3) by (simp add: serve_datagram_def finish_def)
    then show ?thesis using Datagrams task transport_step.datagram by blast
  next
    case (HandPacket conn peer b)
    have "tr_wg (hand_packet t conn peer b False) = n" using assms(3) by (simp add: hand_packet_def finish_def)
    then show ?thesis using HandPacket task assms(2) transport_step.packet by blast
  next
    case (HandStream conn peer)
    have "tr_wg (hand_stream t conn peer False) = n" using assms(3) by (simp add: hand_stream_def finish_def)
    then show ?thesis using HandStream task assms(2) transport_step.handed by blast
  next
    case (Streams conn peer)
    have "tr_wg (serve_stream t conn peer False) = n" using assms(3) by (simp add: serve_stream_def finish_def)
    then show ?thesis using Streams task transport_step.stream by blast
  next
    case (Enrolment conn peer)
    have "tr_wg (serveEnrol t conn peer False) = n" using assms(3) by (simp add: serveEnrol_def finish_def Let_def)
    then show ?thesis using Enrolment task transport_step.enrolment by blast
  next
    case (AsyncDial addr)
    then show ?thesis using task assms(3) transport_step.async_end by (force simp: finish_def)
  qed
qed

lemma transport_run_step: "transport_step parse C t t' \<Longrightarrow> transport_run parse C t' t'' \<Longrightarrow> transport_run parse C t t''"
  by (rotate_tac, induction rule: transport_run.induct) (auto intro: transport_run.intros)

lemma tasks_drain:
  "wf_transport parse C t \<Longrightarrow> tr_done t \<Longrightarrow> \<exists>t'. transport_run parse C t t' \<and> tr_wg t' = 0"
proof (induction "tr_wg t" arbitrary: t)
  case 0
  then show ?case using transport_run.idle by metis
next
  case (Suc n)
  obtain u where u: "transport_step parse C t u" "tr_wg u = n" using task_ends [OF Suc.prems Suc.hyps(2) [symmetric]] by blast
  have "wf_transport parse C u" and "tr_done u"
    using transport_step_wf [OF u(1)] only_ends_step [OF u(1)] Suc.prems by (auto simp: only_ends_def)
  then show ?case using Suc.hyps(1) [of u] u transport_run_step by metis
qed

lemma close_conns_closed: "c \<in> set cs \<Longrightarrow> \<not> live (close_conns t cs) c"
proof (induction cs arbitrary: t)
  case (Cons d cs)
  have kept: "\<not> live u c \<Longrightarrow> \<not> live (close_conns u cs) c" for u
    by (induction cs arbitrary: u) (auto simp: close_conns_def live_CloseWithError)
  show ?case
    using Cons kept [of "CloseWithError t d 0 ShuttingDown"] by (auto simp: close_conns_def live_CloseWithError)
qed simp

text \<open>
  Shutdown ends: once it has begun every connection of the table is closed, no goroutine is
  started any more, whoever still dials, accepts or writes, and from every state reached after
  it the remaining ones can all end, so that the wait for them is never in vain.
\<close>

theorem Shutdown_drains:
  assumes "wf_set C s" and "transport_run parse C (tr_start (newQUICTransport self s offers)) t" and "\<not> tr_done t"
    and "transport_run parse C (Shutdown t) u"
  shows "tr_wg u \<le> tr_wg t \<and> goroutine ` set (tr_tasks u) \<subseteq> goroutine ` set (tr_tasks t) \<and> (\<exists>v. transport_run parse C u v \<and> tr_tasks v = []) \<and>
    (\<forall>(addr, pc) \<in> set (tr_conns t). \<not> live (Shutdown t) (pc_conn pc))"
proof -
  have wf: "wf_transport parse C (Shutdown t)" using transport_run_wf [OF assms(2) start_wf [OF assms(1)]] by (rule Shutdown_wf)
  have done_: "tr_done (Shutdown t)" by (simp add: Shutdown_def)
  have ends: "only_ends (Shutdown t) u" using only_ends_run [OF assms(4) done_] .
  obtain v where v: "transport_run parse C u v" "tr_wg v = 0"
    using tasks_drain [OF transport_run_wf [OF assms(4) wf]] ends by (auto simp: only_ends_def)
  have "wf_transport parse C v" using transport_run_wf [OF v(1) transport_run_wf [OF assms(4) wf]] .
  then have "tr_tasks v = []" using v(2) by (simp add: wf_transport_def tasks_counted_def)
  moreover have "tr_wg (Shutdown t) = tr_wg t" "tr_tasks (Shutdown t) = tr_tasks t" by (simp_all add: Shutdown_def)
  moreover have "\<not> live (Shutdown t) (pc_conn pc)" if "(addr, pc) \<in> set (tr_conns t)" for addr pc
    using that assms(3) close_conns_closed [of "pc_conn pc" "map (pc_conn \<circ> snd) (tr_conns t)" t]
    by (force simp: Shutdown_def live_def)
  ultimately show ?thesis using v(1) ends by (auto simp: only_ends_def)
qed

section \<open>Witnesses\<close>

definition demo_parser :: cert_parser where
  "demo_parser raw = Some (Ed25519Key (replicate 31 0 @ raw))"

definition demo_qconn :: "nat \<Rightarrow> string \<Rightarrow> qconn" where
  "demo_qconn n proto = \<lparr>qc_no = n, qc_RemoteAddr = ''10.0.0.2:7946'', qc_certs = [[2]], qc_proto = proto\<rparr>"

definition demo_tr0 :: transport where
  "demo_tr0 = tr_start (newQUICTransport 1 demo_set True)"

definition demo_tr :: transport where
  "demo_tr = fst (adopt demo_parser (fst (adopt demo_parser demo_tr0 (demo_qconn 1 alpnEnrol) True)) (demo_qconn 2 alpnGossip) True)"

lemma demo_identity_two: "connIdentity demo_parser (demo_qconn n p) = Inr 2"
proof -
  have "key_of_bytes (replicate 31 0 @ [2]) = 2" by code_simp
  then show ?thesis by (simp add: connIdentity_def certIdentity_def demo_parser_def demo_qconn_def identityLen_def)
qed


lemma demo_qconn_simps [simp]:
  "qc_no (demo_qconn n p) = n" "qc_RemoteAddr (demo_qconn n p) = ''10.0.0.2:7946''" "qc_proto (demo_qconn n p) = p"
  "demo_qconn n p = demo_qconn m q \<longleftrightarrow> n = m \<and> p = q"
  by (auto simp: demo_qconn_def)

lemma demo_tr_tasks:
  "tr_tasks demo_tr = [Datagrams (demo_qconn 2 alpnGossip) 2, Streams (demo_qconn 2 alpnGossip) 2, Enrolment (demo_qconn 1 alpnEnrol) 2, Accept]"
  "tr_set demo_tr = demo_set" "tr_packets demo_tr = []" "tr_streams demo_tr = []" "\<not> tr_done demo_tr"
  "tr_enrolSem demo_tr = 1" "tr_wg demo_tr = 4"
  by (simp_all add: demo_tr_def demo_tr0_def adopt_def demo_identity_two adoptEnrol_def register_def serve_def track_def tr_start_def
      newQUICTransport_def maxEnrolments_def alpnEnrol_def alpnGossip_def Let_def)

lemma demo_tr_run: "transport_run demo_parser demo_ed25519 (tr_start (newQUICTransport 1 demo_set True)) demo_tr"
proof -
  let ?t = "fst (adopt demo_parser demo_tr0 (demo_qconn 1 alpnEnrol) True)"
  have acc: "Accept \<in> set (tr_tasks demo_tr0)" "Accept \<in> set (tr_tasks ?t)"
    by (simp_all add: demo_tr0_def adopt_def demo_identity_two adoptEnrol_def track_def tr_start_def newQUICTransport_def
        maxEnrolments_def Let_def)
  have "transport_run demo_parser demo_ed25519 demo_tr0 demo_tr"
    unfolding demo_tr_def
    by (rule transport_run.step [OF transport_run.step [OF transport_run.idle transport_step.accept [OF acc(1)]] transport_step.accept [OF acc(2)]])
  then show ?thesis by (simp add: demo_tr0_def)
qed

theorem transport_bookkeeping_witness: "tr_enrolSem demo_tr \<le> maxEnrolments \<and> tr_wg demo_tr = 4 \<and> distinct (tr_dialing demo_tr)"
  using transport_bookkeeping [OF demo_set_wf demo_tr_run] demo_tr_tasks(7) by blast

theorem only_members_gossip_witness:
  "\<exists>conn peer (t0 :: transport). connIdentity demo_parser conn = Inr peer \<and> valid (tr_set t0) peer \<and> qc_proto conn \<noteq> alpnEnrol \<and>
     snd (verify_gossip demo_parser (tr_set t0) (qc_certs conn)) = None"
proof -
  let ?c = "demo_qconn 2 alpnGossip"
  let ?u = "serve_datagram demo_tr ?c 2 (Some [7])"
  let ?v = "hand_packet ?u ?c 2 [7] True"
  have "snd (Valid (tr_set demo_tr) 2)" using Valid_answer [OF demo_set_wf] by (simp add: demo_tr_tasks)
  then have u: "HandPacket ?c 2 [7] \<in> set (tr_tasks ?u)" "tr_packets ?u = []" "tr_streams ?u = []"
    by (simp_all add: serve_datagram_def case_prod_beta Let_def demo_tr_tasks)
  have run: "transport_run demo_parser demo_ed25519 (tr_start (newQUICTransport 1 demo_set True)) ?u"
    by (rule transport_run.step [OF demo_tr_run], rule transport_step.datagram) (simp add: demo_tr_tasks)
  have step: "transport_step demo_parser demo_ed25519 ?u ?v" by (rule transport_step.packet) (use u in simp_all)
  have "(tr_packets ?v, tr_streams ?v) \<noteq> (tr_packets ?u, tr_streams ?u)" by (simp add: hand_packet_def)
  from mp [OF conjunct1 [OF only_members_gossip [OF demo_set_wf run step]] this]
  show ?thesis by blast
qed

theorem tie_break_agrees_witness:
  "let t = demo_tr0; u = demo_tr0\<lparr>tr_id := 2\<rparr>; x = demo_qconn 1 alpnGossip; y = demo_qconn 2 alpnGossip in
   tr_lookup (register_all t 2 [(y, 2), (x, 1)]) ''10.0.0.2:7946'' = Some x \<and>
   tr_lookup (register_all u 1 [(x, 1), (y, 2)]) ''10.0.0.2:7946'' = Some x"
proof -
  let ?t = demo_tr0 and ?u = "demo_tr0\<lparr>tr_id := 2\<rparr>" and ?x = "demo_qconn 1 alpnGossip" and ?y = "demo_qconn 2 alpnGossip"
  have "if (1 :: public_key) < 2 then tr_lookup (register_all ?t 2 [(?y, 2), (?x, 1)]) ''10.0.0.2:7946'' = Some ?x \<and>
        tr_lookup (register_all ?u 1 [(?x, 1), (?y, 2)]) ''10.0.0.2:7946'' = Some ?x \<and>
        \<not> live (register_all ?t 2 [(?y, 2), (?x, 1)]) ?y \<and> \<not> live (register_all ?u 1 [(?x, 1), (?y, 2)]) ?y
      else tr_lookup (register_all ?t 2 [(?y, 2), (?x, 1)]) ''10.0.0.2:7946'' = Some ?y \<and>
        tr_lookup (register_all ?u 1 [(?x, 1), (?y, 2)]) ''10.0.0.2:7946'' = Some ?y \<and>
        \<not> live (register_all ?t 2 [(?y, 2), (?x, 1)]) ?x \<and> \<not> live (register_all ?u 1 [(?x, 1), (?y, 2)]) ?x"
    by (rule tie_break_agrees [where t = ?t and u = ?u])
      (simp_all add: demo_tr0_def tr_start_def newQUICTransport_def tr_lookup_def live_def)
  then show ?thesis by (simp add: Let_def)
qed

theorem Shutdown_drains_witness: "\<exists>v. transport_run demo_parser demo_ed25519 (Shutdown demo_tr) v \<and> tr_tasks v = []"
  using Shutdown_drains [OF demo_set_wf demo_tr_run demo_tr_tasks(5) transport_run.idle] by blast

end
