(* ===== verification/Enrol_Dial.thy ===== *)
theory Enrol_Dial
  imports Cluster_Enrolment Transport
begin

text \<open>
  Dialling a member to enrol with, \<^verbatim>\<open>internal/cluster/enrol.go\<close>: a throwaway socket, a QUIC connection
  that offers the enrolment protocol only, one stream, and the joiner's side of the exchange on it.
  QUIC, TLS and the resolver are parameters; what is opened and closed is recorded in order.
\<close>

text \<open>
  \<open>de_Dial\<close> is the handshake up to the certificate check, \<open>de_Stream\<close> the byte stream that opens on
  a connection.
\<close>

record dial_env =
  de_certificate :: bool
  de_Resolve :: "string \<Rightarrow> (bytes \<times> nat) option"
  de_Listen :: "bytes \<Rightarrow> bool"
  de_Dial :: "bytes \<times> nat \<Rightarrow> qconn option"
  de_Stream :: "qconn \<Rightarrow> conn option"
  de_parse :: cert_parser

datatype dial_error = NoIdentityCertificate | Resolving | ListeningUDP | Connecting string | OpeningStream | Enrolling enrol_error

datatype dial_event = OpenUDP bytes | OpenTransport | OpenConn | OpenStream | WaitClosed | CloseStream | CloseConn | CloseTransport | CloseUDP

text \<open>\<^verbatim>\<open>To4\<close> is an address of four bytes, or of sixteen that maps one.\<close>

definition ip_To4 :: "bytes \<Rightarrow> bool" where
  "ip_To4 ip \<longleftrightarrow> length ip = 4 \<or> length ip = 16 \<and> take 12 ip = replicate 10 0 @ [255, 255]"

definition IPv4zero :: bytes where
  "IPv4zero = replicate 10 0 @ [255, 255, 0, 0, 0, 0]"

definition IPv6unspecified :: bytes where
  "IPv6unspecified = replicate 16 0"

definition wildcardFor :: "bytes \<Rightarrow> bytes" where
  "wildcardFor ip = (if ip_To4 ip then IPv4zero else IPv6unspecified)"

definition newStreamConn :: "conn \<Rightarrow> public_key \<Rightarrow> conn" where
  "newStreamConn s peer = s\<lparr>PeerIdentity := peer\<rparr>"

definition Enrol ::
  "ed25519 \<Rightarrow> enrol_lib \<Rightarrow> dial_env \<Rightarrow> (nat \<Rightarrow> bytes option) \<Rightarrow> string \<Rightarrow> string \<Rightarrow> identity \<Rightarrow> string
   \<Rightarrow> dial_event list \<times> (dial_error + welcome_msg \<times> public_key)" where
  "Enrol C L D rand addr token i name =
     (if \<not> de_certificate D then ([], Inl NoIdentityCertificate)
      else
        (case de_Resolve D addr of
           None \<Rightarrow> ([], Inl Resolving)
         | Some ua \<Rightarrow>
             if \<not> de_Listen D (wildcardFor (fst ua)) then ([], Inl ListeningUDP)
             else
               (let opened = [OpenUDP (wildcardFor (fst ua)), OpenTransport]; closed = [CloseTransport, CloseUDP] in
                case de_Dial D ua of
                  None \<Rightarrow> (opened @ closed, Inl (Connecting addr))
                | Some conn \<Rightarrow>
                    if verify_enrol (de_parse D) (qc_certs conn) \<noteq> None then (opened @ closed, Inl (Connecting addr))
                    else
                      (case de_Stream D conn of
                         None \<Rightarrow> (opened @ [OpenConn, CloseConn] @ closed, Inl OpeningStream)
                       | Some s \<Rightarrow>
                           (case snd (Join C L rand (newStreamConn s (peerOf (de_parse D) conn)) token i name) of
                              Inl e \<Rightarrow> (opened @ [OpenConn, OpenStream, CloseStream, CloseConn] @ closed, Inl (Enrolling e))
                            | Inr (w, member) \<Rightarrow>
                                (opened @ [OpenConn, OpenStream, WaitClosed, CloseStream, CloseConn] @ closed, Inr (w, member)))))))"

section \<open>The member that answered\<close>

lemma Join_peer: "Join C L rand c token i name = (c', Inr (w, member)) \<Longrightarrow> member = PeerIdentity c"
proof -
  assume "Join C L rand c token i name = (c', Inr (w, member))"
  then obtain c1 h c2 c3 ch where ch: "writeFrame (enc_hello L) c h = (c1, None)" "readFrame (dec_challenge L) c1 = (c2, Inr ch)"
    "bound c2 (c_Identity ch) = None" "join_welcome C L c3 (id_Public C i) (c_Identity ch) = (c', Inr (w, member))"
    by (auto simp: Join_def Let_def split: prod.splits sum.splits option.splits if_splits)
  have "PeerIdentity c2 = PeerIdentity c"
    using ch(1,2) readFrame_frame(2) [of "dec_challenge L" c1] writeFrame_frame(2) [of "enc_hello L" c h] by simp
  then show "member = PeerIdentity c"
    using ch(3,4) by (auto simp: bound_def join_welcome_def split: prod.splits sum.splits option.splits if_splits)
qed

definition closes :: "dial_event \<Rightarrow> dial_event \<Rightarrow> bool" where
  "closes c e \<longleftrightarrow> (c, e) \<in> {(CloseTransport, OpenTransport), (CloseConn, OpenConn), (CloseStream, OpenStream)} \<or> c = CloseUDP \<and> e \<in> range OpenUDP"

fun still_open :: "dial_event list \<Rightarrow> dial_event list \<Rightarrow> dial_event list option" where
  "still_open stack [] = Some stack"
| "still_open stack (e # es) =
     (if e = WaitClosed then still_open stack es
      else if e \<in> {OpenTransport, OpenConn, OpenStream} \<union> range OpenUDP then still_open (e # stack) es
      else (case stack of [] \<Rightarrow> None | x # stack' \<Rightarrow> if closes e x then still_open stack' es else None))"

text \<open>
  Whoever a node enrolled with is the identity whose certificate the connection verified, and the
  welcome is what the exchange with it gave; whatever happens, everything that was opened is closed,
  in reverse order, and the connection is closed by this side only after it waited for the member,
  which it does exactly after a successful exchange.
\<close>

theorem enrol_dials_verified:
  assumes "Enrol C L D rand addr token i name = (evs, r)"
  shows "still_open [] evs = Some [] \<and> (WaitClosed \<in> set evs \<longleftrightarrow> r \<in> range Inr) \<and>
    (r = Inr (w, member) \<longrightarrow>
      (\<exists>ua conn s. de_Resolve D addr = Some ua \<and> de_Dial D ua = Some conn \<and> de_Stream D conn = Some s \<and>
        certIdentity (de_parse D) (qc_certs conn) = Inr member \<and>
        snd (Join C L rand (newStreamConn s member) token i name) = Inr (w, member)))"
proof -
  have peer: "peerOf (de_parse D) conn = member \<and> certIdentity (de_parse D) (qc_certs conn) = Inr member"
    if v: "verify_enrol (de_parse D) (qc_certs conn) = None"
      and j: "snd (Join C L rand (newStreamConn s (peerOf (de_parse D) conn)) token i name) = Inr (w, member)" for conn s
  proof -
    obtain c' where "Join C L rand (newStreamConn s (peerOf (de_parse D) conn)) token i name = (c', Inr (w, member))"
      using j by (metis prod.collapse)
    from Join_peer [OF this] have "peerOf (de_parse D) conn = member" by (simp add: newStreamConn_def)
    then show ?thesis
      using v by (auto simp: verify_enrol_def peerOf_def connIdentity_def certIdentity_def split: sum.splits list.splits)
  qed
  have same: "snd (Join C L rand (newStreamConn s member) token i name) = Inr (w, member)"
    if "verify_enrol (de_parse D) (qc_certs conn) = None"
      and "snd (Join C L rand (newStreamConn s (peerOf (de_parse D) conn)) token i name) = Inr (w, member)" for conn s
    using that peer by metis
  show ?thesis
    using assms by (auto dest: peer intro: same simp: Enrol_def Let_def closes_def split: if_splits option.splits sum.splits prod.splits)
qed

definition demo_dial :: "bytes \<Rightarrow> dial_env" where
  "demo_dial stream = \<lparr>de_certificate = True, de_Resolve = (\<lambda>_. Some ([10, 0, 0, 1], 7946)), de_Listen = (\<lambda>_. True),
     de_Dial = (\<lambda>_. Some \<lparr>qc_no = 0, qc_RemoteAddr = ''m'', qc_certs = [key_bytes 1], qc_proto = alpnEnrol\<rparr>),
     de_Stream = (\<lambda>_. Some (demo_conn 0 stream)), de_parse = (\<lambda>raw. Some (Ed25519Key raw))\<rparr>"

theorem enrol_dials_verified_witness:
  "snd (Enrol demo_ed25519 demo_lib (demo_dial (member_sends demo_lib demo_run)) (\<lambda>n. Some (replicate n 2)) ''m''
      (encodeToken demo_key) (demo_identity 5) ''e'') = Inr (run_welcome demo_run, 1) \<and>
   certIdentity (\<lambda>raw. Some (Ed25519Key raw)) [key_bytes 1] = Inr 1"
proof -
  let ?D = "demo_dial (member_sends demo_lib demo_run)"
  have cert: "certIdentity (\<lambda>raw. Some (Ed25519Key raw)) [key_bytes 1] = Inr 1"
    by (simp add: certIdentity_def identityLen_def)
  obtain c' where "Join demo_ed25519 demo_lib (\<lambda>n. Some (replicate n 2)) (demo_conn 1 (member_sends demo_lib demo_run))
     (encodeToken demo_key) (demo_identity 5) ''e'' = (c', Inr (run_welcome demo_run, 1))"
    using demo_join by blast
  then have "snd (Enrol demo_ed25519 demo_lib ?D (\<lambda>n. Some (replicate n 2)) ''m'' (encodeToken demo_key) (demo_identity 5) ''e'') =
      Inr (run_welcome demo_run, 1)"
    by (simp add: Enrol_def demo_dial_def verify_enrol_def peerOf_def connIdentity_def cert newStreamConn_def demo_conn_def Let_def)
  moreover from enrol_dials_verified [OF surjective_pairing, of demo_ed25519 demo_lib ?D _ _ _ _ _ "run_welcome demo_run" 1] this
  have "certIdentity (\<lambda>raw. Some (Ed25519Key raw)) [key_bytes 1] = Inr 1" by (force simp: demo_dial_def)
  ultimately show ?thesis ..
qed

end
