(* ===== verification/Replace_Windows.thy ===== *)
theory Replace_Windows
  imports State_File
begin

text \<open>
  Replacing and reading the state file on Windows, \<^verbatim>\<open>internal/cluster/replace_windows.go\<close>: an
  operation on a file that another process has open is tried again for two seconds. The state \<open>'s\<close> is
  the whole world as the loop sees it, with its clock; waiting and every attempt change it. Times are
  nanoseconds. A loop that never returns is \<open>None\<close>.
\<close>

datatype os_result = OsOk | OsBusy | OsError

definition busyWait :: int where
  "busyWait = 2 * 1000000000"

definition busy_pause :: int where
  "busy_pause = 10 * 1000000"

partial_function (option) retry_loop ::
  "('s \<Rightarrow> int) \<Rightarrow> ('s \<Rightarrow> int \<Rightarrow> 's) \<Rightarrow> ('s \<Rightarrow> 's \<times> os_result) \<Rightarrow> int \<Rightarrow> 's \<Rightarrow> ('s \<times> os_result) option" where
  "retry_loop now sleep attempt deadline s =
     (let r = attempt s in
      if snd r \<noteq> OsBusy \<or> deadline < now (fst r) then Some r
      else retry_loop now sleep attempt deadline (sleep (fst r) busy_pause))"

definition retryBusy ::
  "('s \<Rightarrow> int) \<Rightarrow> ('s \<Rightarrow> int \<Rightarrow> 's) \<Rightarrow> ('s \<Rightarrow> 's \<times> os_result) \<Rightarrow> 's \<Rightarrow> ('s \<times> os_result) option" where
  "retryBusy now sleep attempt s = retry_loop now sleep attempt (now s + busyWait) s"

text \<open>\<open>rename\<close> and \<open>read\<close> are the operating system's; \<^verbatim>\<open>readFile\<close> keeps what the last attempt read.\<close>

definition replace_windows ::
  "('s \<Rightarrow> int) \<Rightarrow> ('s \<Rightarrow> int \<Rightarrow> 's) \<Rightarrow> (string \<Rightarrow> string \<Rightarrow> 's \<Rightarrow> 's \<times> os_result) \<Rightarrow> string \<Rightarrow> string \<Rightarrow> 's \<Rightarrow> ('s \<times> os_result) option" where
  "replace_windows now sleep rename tmp dst s = retryBusy now sleep (rename tmp dst) s"

definition readFile_windows ::
  "('s \<Rightarrow> int) \<Rightarrow> ('s \<Rightarrow> int \<Rightarrow> 's) \<Rightarrow> (string \<Rightarrow> 's \<Rightarrow> 's \<times> bytes \<times> os_result) \<Rightarrow> string \<Rightarrow> 's \<Rightarrow> (('s \<times> bytes) \<times> os_result) option" where
  "readFile_windows now sleep read path s =
     retryBusy (now \<circ> fst) (\<lambda>(s, b) d. (sleep s d, b)) (\<lambda>(s, b). case read path s of (s', b', r) \<Rightarrow> ((s', b'), r)) (s, [])"

section \<open>A clock\<close>

text \<open>
  What \<^verbatim>\<open>time\<close> promises: sleeping takes at least as long as asked, and no attempt turns the
  monotonic clock back. \<open>kept\<close> is what attempts that fail, and waiting, leave as it is.
\<close>

locale retry_clock =
  fixes now :: "'s \<Rightarrow> int" and sleep :: "'s \<Rightarrow> int \<Rightarrow> 's" and attempt :: "'s \<Rightarrow> 's \<times> os_result" and kept :: "'s \<Rightarrow> 'a"
  assumes slept: "now s + d \<le> now (sleep s d)"
    and attempted: "now s \<le> now (fst (attempt s))"
    and sleep_keeps: "kept (sleep s d) = kept s"
    and failure_keeps: "snd (attempt s) \<noteq> OsOk \<Longrightarrow> kept (fst (attempt s)) = kept s"
begin

lemma retry_returns:
  "\<exists>s0 s' r. retry_loop now sleep attempt deadline s = Some (s', r) \<and> attempt s0 = (s', r) \<and> kept s0 = kept s \<and> now s \<le> now s0 \<and>
     (r = OsBusy \<longrightarrow> deadline < now s')"
proof (induction "nat (deadline - now s + 1)" arbitrary: s rule: less_induct)
  case less
  show ?case
  proof (cases "snd (attempt s) \<noteq> OsBusy \<or> deadline < now (fst (attempt s))")
    case True
    then have "retry_loop now sleep attempt deadline s = Some (attempt s)" by (subst retry_loop.simps) (simp add: Let_def)
    then show ?thesis using True by (intro exI [of _ s] exI [of _ "fst (attempt s)"] exI [of _ "snd (attempt s)"]) auto
  next
    case False
    let ?s = "sleep (fst (attempt s)) busy_pause"
    have step: "retry_loop now sleep attempt deadline s = retry_loop now sleep attempt deadline ?s"
      using False by (subst retry_loop.simps) (simp add: Let_def)
    have later: "now s + busy_pause \<le> now ?s" using slept [of "fst (attempt s)" busy_pause] attempted [of s] by linarith
    have "now s \<le> deadline" using False attempted [of s] by linarith
    then have "nat (deadline - now ?s + 1) < nat (deadline - now s + 1)" using later by (simp add: busy_pause_def)
    from less [OF this] show ?thesis
      using later failure_keeps [of s] False sleep_keeps unfolding step by (force simp: busy_pause_def)
  qed
qed

end

section \<open>The state file\<close>

text \<open>
  A world with files, where a rename that succeeds replaces and one that fails changes nothing, and
  nobody else touches the two files meanwhile.
\<close>

locale windows_files =
  fixes now :: "'s \<Rightarrow> int" and sleep :: "'s \<Rightarrow> int \<Rightarrow> 's" and rename :: "string \<Rightarrow> string \<Rightarrow> 's \<Rightarrow> 's \<times> os_result" and fs :: "'s \<Rightarrow> files"
  assumes sleep_takes: "now s + d \<le> now (sleep s d)" and sleep_files: "fs (sleep s d) = fs s"
    and rename_takes: "now s \<le> now (fst (rename tmp dst s))"
    and rename_files: "fs (fst (rename tmp dst s)) = (if snd (rename tmp dst s) = OsOk then replace tmp dst (fs s) else fs s)"

sublocale windows_files \<subseteq> retry_clock now sleep "rename tmp dst" fs for tmp dst
  by unfold_locales (simp_all add: sleep_takes sleep_files rename_takes rename_files)

context windows_files
begin

lemma replaced:
  "\<exists>s' r. replace_windows now sleep rename tmp dst s = Some (s', r) \<and>
    fs s' = (if r = OsOk then replace tmp dst (fs s) else fs s) \<and> (r = OsBusy \<longrightarrow> now s + busyWait < now s')"
proof -
  obtain s0 s' r where "replace_windows now sleep rename tmp dst s = Some (s', r)" "rename tmp dst s0 = (s', r)" "fs s0 = fs s"
    "r = OsBusy \<longrightarrow> now s + busyWait < now s'"
    using retry_returns [of tmp dst "now s + busyWait" s] unfolding replace_windows_def retryBusy_def by blast
  with rename_files [of tmp dst s0] show ?thesis by auto
qed

end

text \<open>
  On Windows the state file is replaced, or left as it is, within bounded time: the call always
  returns; on success the files are those the rename on other systems leaves, on an error they are
  as before, and it gives up on a busy file only after two seconds.
\<close>

theorem replace_windows_refines:
  assumes "windows_files now sleep rename fs"
  shows "\<exists>s' r. replace_windows now sleep rename tmp dst s = Some (s', r) \<and>
    fs s' = (if r = OsOk then replace tmp dst (fs s) else fs s) \<and> (r = OsBusy \<longrightarrow> now s + busyWait < now s')"
  using assms by (rule windows_files.replaced)

text \<open>A world with a clock in which the file is busy until some time.\<close>

definition busy_until :: "int \<Rightarrow> string \<Rightarrow> string \<Rightarrow> int \<times> files \<Rightarrow> (int \<times> files) \<times> os_result" where
  "busy_until t tmp dst s = (if fst s < t then (s, OsBusy) else ((fst s, replace tmp dst (snd s)), OsOk))"

definition pass_time :: "int \<times> files \<Rightarrow> int \<Rightarrow> int \<times> files" where
  "pass_time s d = (fst s + d, snd s)"

interpretation busy_file: windows_files fst pass_time "busy_until t" snd
  by unfold_locales (auto simp: pass_time_def busy_until_def)

theorem replace_windows_refines_witness:
  "\<exists>s' r. replace_windows fst pass_time (busy_until 15000000) ''t'' ''d'' (0, [''t'' \<mapsto> [1]]) = Some (s', r) \<and>
     snd s' = (if r = OsOk then replace ''t'' ''d'' [''t'' \<mapsto> [1]] else [''t'' \<mapsto> [1]])"
  using replace_windows_refines [OF busy_file.windows_files_axioms, of 15000000 "''t''" "''d''" "(0, [''t'' \<mapsto> [1]])"]
  by (metis snd_conv)

end
