(* ===== verification/Ip_Net.thy ===== *)
theory Ip_Net
  imports Netip
begin

text \<open>
  Networks as Go's \<^verbatim>\<open>net\<close> package writes them, an address and a mask in bytes, and the conversions
  of \<^verbatim>\<open>internal/wg/wireguard.go\<close> between them and \<^verbatim>\<open>netip\<close> prefixes (\<^verbatim>\<open>prefixToIPNet\<close>,
  \<^verbatim>\<open>prefixFromIPNet\<close>, \<^verbatim>\<open>hostPrefix\<close>). The mask functions are those of the standard library, as
  are the classes of addresses of \<^verbatim>\<open>net/netip\<close>, which look at an IPv4-mapped address as the IPv4
  address it maps.
\<close>

record ipnet =
  ipnet_IP :: bytes
  ipnet_Mask :: bytes

section \<open>Masks\<close>

fun mask_bytes :: "nat \<Rightarrow> nat \<Rightarrow> bytes" where
  "mask_bytes ones 0 = []"
| "mask_bytes ones (Suc k) =
     (if 8 \<le> ones then 0xFF # mask_bytes (ones - 8) k else NOT (drop_bit ones 0xFF) # mask_bytes 0 k)"

text \<open>\<^verbatim>\<open>net.CIDRMask\<close>: no mask if the lengths make no sense.\<close>

definition CIDRMask :: "int \<Rightarrow> int \<Rightarrow> bytes" where
  "CIDRMask ones bits =
     (if bits \<noteq> 32 \<and> bits \<noteq> 128 \<or> ones < 0 \<or> bits < ones then [] else mask_bytes (nat ones) (nat bits div 8))"

text \<open>\<^verbatim>\<open>simpleMaskLength\<close>: the leading ones, unless a one follows a zero.\<close>

fun byte_ones :: "nat \<Rightarrow> byte \<Rightarrow> nat \<times> byte" where
  "byte_ones 0 v = (0, v)"
| "byte_ones (Suc k) v = (if v AND 0x80 = 0 then (0, v) else case byte_ones k (push_bit 1 v) of (n, v') \<Rightarrow> (n + 1, v'))"

fun simpleMaskLength :: "bytes \<Rightarrow> nat option" where
  "simpleMaskLength [] = Some 0"
| "simpleMaskLength (v # vs) =
     (if v = 0xFF then map_option (\<lambda>n. n + 8) (simpleMaskLength vs)
      else
        (case byte_ones 8 v of
           (n, rest) \<Rightarrow> if rest \<noteq> 0 then None else if \<exists>b \<in> set vs. b \<noteq> 0 then None else Some n))"

definition mask_size :: "bytes \<Rightarrow> int \<times> int" where
  "mask_size m = (case simpleMaskLength m of None \<Rightarrow> (0, 0) | Some n \<Rightarrow> (int n, int (length m * 8)))"

section \<open>Classes of addresses\<close>

definition is_loopback :: "addr \<Rightarrow> bool" where
  "is_loopback a = (case unmap a of NoAddr \<Rightarrow> False | Addr4 w \<Rightarrow> drop_bit 24 w = 127 | Addr6 w _ \<Rightarrow> w = 1)"

definition is_multicast :: "addr \<Rightarrow> bool" where
  "is_multicast a = (case unmap a of NoAddr \<Rightarrow> False | Addr4 w \<Rightarrow> drop_bit 28 w = 14 | Addr6 w _ \<Rightarrow> drop_bit 120 w = 255)"

definition is_private :: "addr \<Rightarrow> bool" where
  "is_private a =
     (case unmap a of
        NoAddr \<Rightarrow> False
      | Addr4 w \<Rightarrow> drop_bit 24 w = 10 \<or> drop_bit 20 w = 0xAC1 \<or> drop_bit 16 w = 0xC0A8
      | Addr6 w _ \<Rightarrow> drop_bit 121 w = 126)"

text \<open>169.254.0.0/16 and fe80::/10.\<close>

definition is_link_local_unicast :: "addr \<Rightarrow> bool" where
  "is_link_local_unicast a =
     (case unmap a of NoAddr \<Rightarrow> False | Addr4 w \<Rightarrow> drop_bit 16 w = 0xA9FE | Addr6 w _ \<Rightarrow> drop_bit 118 w = 0x3FA)"

definition is_global_unicast :: "addr \<Rightarrow> bool" where
  "is_global_unicast a \<longleftrightarrow>
     (let u = unmap a in
      u \<noteq> NoAddr \<and> u \<noteq> Addr4 0 \<and> u \<noteq> Addr4 0xFFFFFFFF \<and> u \<noteq> Addr6 0 [] \<and>
      \<not> is_loopback u \<and> \<not> is_multicast u \<and> \<not> is_link_local_unicast u)"

section \<open>Conversions\<close>

definition hostPrefix :: "addr \<Rightarrow> prefix" where
  "hostPrefix a = prefix_from a (bit_len a)"

definition prefixToIPNet :: "prefix \<Rightarrow> ipnet" where
  "prefixToIPNet p = \<lparr>ipnet_IP = as_slice (pfx_addr p), ipnet_Mask = CIDRMask (pfx_bits p) (bit_len (pfx_addr p))\<rparr>"

definition prefixFromIPNet :: "ipnet option \<Rightarrow> prefix option" where
  "prefixFromIPNet n =
     (case n of
        None \<Rightarrow> None
      | Some n \<Rightarrow>
          (case addr_from_slice (ipnet_IP n) of
             (a, ok) \<Rightarrow>
               if \<not> ok then None
               else
                 (case mask_size (ipnet_Mask n) of
                    (ones, bits) \<Rightarrow>
                      (let ones = (if bits = 128 \<and> is_4in6 a then ones - 96 else ones) in
                       Some (prefix_from (unmap a) ones)))))"

section \<open>Laws\<close>

lemma length_mask_bytes [simp]: "length (mask_bytes ones k) = k"
  by (induction ones k rule: mask_bytes.induct) auto

lemma mask_bytes_zero: "b \<in> set (mask_bytes 0 k) \<Longrightarrow> b = 0"
  by (induction "0 :: nat" k rule: mask_bytes.induct) auto

lemma partial_byte:
  assumes "ones < 8"
  shows "byte_ones 8 (NOT (drop_bit ones 0xFF)) = (ones, 0) \<and> NOT (drop_bit ones 0xFF) \<noteq> (0xFF :: byte)"
proof -
  have "ones \<in> {0, 1, 2, 3, 4, 5, 6, 7}" using assms by auto
  then show ?thesis by (elim insertE emptyE; hypsubst; code_simp)
qed

lemma mask_length: "ones \<le> 8 * k \<Longrightarrow> simpleMaskLength (mask_bytes ones k) = Some ones"
proof (induction ones k rule: mask_bytes.induct)
  case (2 ones k)
  show ?case
  proof (cases "8 \<le> ones")
    case True
    then show ?thesis using 2 by simp
  next
    case False
    then show ?thesis using partial_byte [of ones] mask_bytes_zero by (auto simp del: byte_ones.simps)
  qed
qed simp

lemma mask_size_CIDRMask:
  "bits \<in> {32, 128} \<Longrightarrow> 0 \<le> ones \<Longrightarrow> ones \<le> bits \<Longrightarrow> mask_size (CIDRMask ones bits) = (ones, bits)"
  using mask_length [of "nat ones" "nat bits div 8"] by (auto simp: CIDRMask_def mask_size_def)

lemma prefix_ipnet_round_trip:
  assumes "wf_prefix p" and "prefix_is_valid p" and "\<not> is_4in6 (pfx_addr p)"
  shows "prefixFromIPNet (Some (prefixToIPNet p)) = Some p"
  using assms(1)
proof (cases rule: wf_prefix_cases)
  case invalid
  with assms(2) show ?thesis by simp
next
  case (v4 w)
  then show ?thesis
    using addr_from_as_slice [of "Addr4 w"] mask_size_CIDRMask [of 32 "pfx_bits p"]
    by (cases p) (simp add: prefixFromIPNet_def prefixToIPNet_def prefix_from_def Let_def del: be_bytes_numeral)
next
  case (v6 w)
  then show ?thesis
    using assms(3) addr_from_as_slice [of "Addr6 w []"] mask_size_CIDRMask [of 128 "pfx_bits p"]
    by (cases p) (simp add: prefixFromIPNet_def prefixToIPNet_def prefix_from_def Let_def del: be_bytes_numeral)
qed

end
