(* ===== verification/Wireguard.thy ===== *)
theory Wireguard
  imports Ip_Net Overlay
begin

text \<open>
  Keeping the WireGuard interface in step with the cluster, \<^verbatim>\<open>internal/wg/wireguard.go\<close> and
  \<^verbatim>\<open>internal/wg/status.go\<close>: the peer configuration of a list of nodes, setting the interface up,
  adding the wanted routes and removing the stale ones, and the status report. The device, the
  WireGuard client and the operating system's network stack are the three interfaces the code
  declares; they are a record of operations on a state of the operating system, every one of which
  may fail. What the code asks of them (the comments of the \<^verbatim>\<open>linker\<close> interface) are the laws of
  the locale \<open>platform\<close>. Logging is left out.
\<close>

section \<open>Types\<close>

type_synonym wgkey = bytes

record peer_config =
  pcf_PublicKey :: wgkey
  pcf_ReplaceAllowedIPs :: bool
  pcf_Keepalive :: "int option"
  pcf_Endpoint :: "addr \<times> uint16"
  pcf_AllowedIPs :: "ipnet list"

record device_config =
  dcf_PrivateKey :: wgkey
  dcf_ListenPort :: int
  dcf_ReplacePeers :: bool
  dcf_Peers :: "peer_config list"

text \<open>The operations of \<^verbatim>\<open>device\<close>, \<^verbatim>\<open>wgClient\<close> and \<^verbatim>\<open>linker\<close>; \<open>None\<close> and \<open>False\<close> are errors.\<close>

record 'w platform_ops =
  dev_Create :: "'w \<Rightarrow> string \<Rightarrow> int \<Rightarrow> 'w \<times> string option"
  dev_Delete :: "'w \<Rightarrow> string \<Rightarrow> 'w \<times> bool"
  ConfigureDevice :: "'w \<Rightarrow> string \<Rightarrow> device_config \<Rightarrow> 'w \<times> bool"
  lk_SetAddr :: "'w \<Rightarrow> string \<Rightarrow> prefix \<Rightarrow> 'w \<times> bool"
  lk_SetMTU :: "'w \<Rightarrow> string \<Rightarrow> int \<Rightarrow> 'w \<times> bool"
  lk_Up :: "'w \<Rightarrow> string \<Rightarrow> 'w \<times> bool"
  lk_Addrs :: "'w \<Rightarrow> string \<Rightarrow> prefix list option"
  lk_Routes :: "'w \<Rightarrow> string \<Rightarrow> prefix list option"
  lk_AddRoute :: "'w \<Rightarrow> string \<Rightarrow> prefix \<Rightarrow> 'w \<times> bool"
  lk_DelRoute :: "'w \<Rightarrow> string \<Rightarrow> prefix \<Rightarrow> 'w \<times> bool"

text \<open>An interface's address as \<^verbatim>\<open>net\<close> reports it: an \<^verbatim>\<open>IPNet\<close> or something else.\<close>

datatype iface_addr = IfaceNet ipnet | IfaceOther

definition iface_prefix :: "iface_addr \<Rightarrow> prefix option" where
  "iface_prefix a = (case a of IfaceNet n \<Rightarrow> prefixFromIPNet (Some n) | IfaceOther \<Rightarrow> None)"

record wg_config =
  wgc_Interface :: string
  wgc_Port :: int
  wgc_OverlayAddr :: addr
  wgc_MTU :: int
  wgc_PersistentKeepalive :: int
  wgc_Userspace :: bool

record wg_state =
  ws_iface :: string
  ws_mtu :: int
  ws_keepalive :: int
  ws_osName :: string
  ws_privKey :: wgkey
  ws_overlayAddr :: addr
  ws_port :: int
  ws_PubKey :: wgkey

datatype wg_error =
    GeneratingKey | RemovingInterface string | CreatingInterface string | ParsingKey string | SettingConfiguration string
  | SettingAddress string | SettingMTU string | EnablingInterface string | AddingRoute prefix string
  | ListingRoutes string | RemovingRoute prefix string | GettingDevice string | ListingAddresses string

section \<open>Operations\<close>

text \<open>\<open>gen\<close> is what generating a private key answers, \<open>publicOf\<close> its public key.\<close>

definition newState :: "(wgkey \<Rightarrow> wgkey) \<Rightarrow> wgkey option \<Rightarrow> wg_config \<Rightarrow> wg_error + wg_state" where
  "newState publicOf gen cfg =
     (case gen of
        None \<Rightarrow> Inl GeneratingKey
      | Some priv \<Rightarrow>
          Inr \<lparr>ws_iface = wgc_Interface cfg, ws_mtu = wgc_MTU cfg, ws_keepalive = wgc_PersistentKeepalive cfg, ws_osName = '''',
               ws_privKey = priv, ws_overlayAddr = wgc_OverlayAddr cfg, ws_port = wgc_Port cfg, ws_PubKey = publicOf priv\<rparr>)"

definition DownInterface :: "'w platform_ops \<Rightarrow> wg_state \<Rightarrow> 'w \<Rightarrow> wg_state \<times> 'w \<times> wg_error option" where
  "DownInterface P s w =
     (case dev_Delete P w (ws_iface s) of
        (w', False) \<Rightarrow> (s, w', Some (RemovingInterface (ws_iface s)))
      | (w', True) \<Rightarrow> (s\<lparr>ws_osName := ''''\<rparr>, w', None))"

definition peerPrefixes :: "node \<Rightarrow> prefix list" where
  "peerPrefixes n = hostPrefix (meta_overlayAddr n) # meta_allowedIPs n"

definition peer_config_of :: "wg_state \<Rightarrow> wgkey \<Rightarrow> node \<Rightarrow> peer_config" where
  "peer_config_of s key n =
     \<lparr>pcf_PublicKey = key, pcf_ReplaceAllowedIPs = True, pcf_Keepalive = (if 0 < ws_keepalive s then Some (ws_keepalive s) else None),
      pcf_Endpoint = (node_addr n, word_of_int (ws_port s)), pcf_AllowedIPs = map prefixToIPNet (peerPrefixes n)\<rparr>"

fun nodesToPeerConfigs :: "(string \<Rightarrow> wgkey option) \<Rightarrow> wg_state \<Rightarrow> node list \<Rightarrow> wg_error + peer_config list" where
  "nodesToPeerConfigs parse s [] = Inr []"
| "nodesToPeerConfigs parse s (n # ns) =
     (case parse (meta_pubKey n) of
        None \<Rightarrow> Inl (ParsingKey (meta_pubKey n))
      | Some key \<Rightarrow>
          (case nodesToPeerConfigs parse s ns of
             Inl e \<Rightarrow> Inl e
           | Inr cs \<Rightarrow> Inr (peer_config_of s key n # cs)))"

fun add_routes :: "'w platform_ops \<Rightarrow> string \<Rightarrow> 'w \<Rightarrow> prefix list \<Rightarrow> 'w \<times> wg_error option" where
  "add_routes P os w [] = (w, None)"
| "add_routes P os w (dst # dsts) =
     (case lk_AddRoute P w os dst of
        (w', False) \<Rightarrow> (w', Some (AddingRoute dst os))
      | (w', True) \<Rightarrow> add_routes P os w' dsts)"

fun del_routes :: "'w platform_ops \<Rightarrow> string \<Rightarrow> prefix list \<Rightarrow> 'w \<Rightarrow> prefix list \<Rightarrow> 'w \<times> wg_error option" where
  "del_routes P os wanted w [] = (w, None)"
| "del_routes P os wanted w (dst # dsts) =
     (if dst \<in> set wanted then del_routes P os wanted w dsts
      else
        (case lk_DelRoute P w os dst of
           (w', False) \<Rightarrow> (w', Some (RemovingRoute dst os))
         | (w', True) \<Rightarrow> del_routes P os wanted w' dsts))"

definition removeStaleRoutes :: "'w platform_ops \<Rightarrow> wg_state \<Rightarrow> string \<Rightarrow> prefix list \<Rightarrow> 'w \<Rightarrow> 'w \<times> wg_error option" where
  "removeStaleRoutes P s os wanted w =
     (case lk_Routes P w os of
        None \<Rightarrow> (w, Some (ListingRoutes os))
      | Some routes \<Rightarrow> del_routes P os (hostPrefix (ws_overlayAddr s) # wanted) w routes)"

definition SetUpInterface ::
  "'w platform_ops \<Rightarrow> (string \<Rightarrow> wgkey option) \<Rightarrow> wg_state \<Rightarrow> 'w \<Rightarrow> node list \<Rightarrow> wg_state \<times> 'w \<times> wg_error option" where
  "SetUpInterface P parse s w nodes =
     (case dev_Create P w (ws_iface s) (ws_mtu s) of
        (w1, None) \<Rightarrow> (s, w1, Some (CreatingInterface (ws_iface s)))
      | (w1, Some os) \<Rightarrow>
          (let s' = s\<lparr>ws_osName := os\<rparr> in
           case nodesToPeerConfigs parse s' nodes of
             Inl e \<Rightarrow> (s', w1, Some e)
           | Inr peers \<Rightarrow>
               (case ConfigureDevice P w1 (ws_iface s)
                   \<lparr>dcf_PrivateKey = ws_privKey s, dcf_ListenPort = ws_port s, dcf_ReplacePeers = True, dcf_Peers = peers\<rparr> of
                  (w2, False) \<Rightarrow> (s', w2, Some (SettingConfiguration (ws_iface s)))
                | (w2, True) \<Rightarrow>
                    (case lk_SetAddr P w2 os (hostPrefix (ws_overlayAddr s)) of
                       (w3, False) \<Rightarrow> (s', w3, Some (SettingAddress os))
                     | (w3, True) \<Rightarrow>
                         (case lk_SetMTU P w3 os (ws_mtu s) of
                            (w4, False) \<Rightarrow> (s', w4, Some (SettingMTU os))
                          | (w4, True) \<Rightarrow>
                              (case lk_Up P w4 os of
                                 (w5, False) \<Rightarrow> (s', w5, Some (EnablingInterface os))
                               | (w5, True) \<Rightarrow>
                                   (let wanted = concat (map peerPrefixes nodes) in
                                    case add_routes P os w5 wanted of
                                      (w6, Some e) \<Rightarrow> (s', w6, Some e)
                                    | (w6, None) \<Rightarrow> (s', removeStaleRoutes P s' os wanted w6))))))))"

section \<open>Status\<close>

text \<open>A device as the client reports it.\<close>

record wg_peer =
  wgp_PublicKey :: wgkey
  wgp_Endpoint :: "string option"
  wgp_AllowedIPs :: "ipnet list"
  wgp_LastHandshake :: int
  wgp_ReceiveBytes :: int64
  wgp_TransmitBytes :: int64
  wgp_Keepalive :: int

record wg_device =
  wgd_Name :: string
  wgd_PublicKey :: wgkey
  wgd_ListenPort :: int
  wgd_Peers :: "wg_peer list"

record peer_report =
  prp_PublicKey :: string
  prp_Endpoint :: string
  prp_AllowedIPs :: "prefix list"
  prp_LastHandshake :: int
  prp_ReceiveBytes :: int64
  prp_TransmitBytes :: int64
  prp_Keepalive :: int

record report =
  rep_Interface :: string
  rep_PublicKey :: string
  rep_ListenPort :: int
  rep_Addrs :: "prefix list"
  rep_Peers :: "peer_report list"

definition peerReport :: "(wgkey \<Rightarrow> string) \<Rightarrow> wg_peer \<Rightarrow> peer_report" where
  "peerReport text p =
     \<lparr>prp_PublicKey = text (wgp_PublicKey p), prp_Endpoint = (case wgp_Endpoint p of None \<Rightarrow> '''' | Some e \<Rightarrow> e),
      prp_AllowedIPs = List.map_filter (\<lambda>n. prefixFromIPNet (Some n)) (wgp_AllowedIPs p),
      prp_LastHandshake = wgp_LastHandshake p, prp_ReceiveBytes = wgp_ReceiveBytes p, prp_TransmitBytes = wgp_TransmitBytes p,
      prp_Keepalive = wgp_Keepalive p\<rparr>"

text \<open>\<open>device\<close> is what \<^verbatim>\<open>client.Device\<close> answers for the interface, \<open>text\<close> prints a key.\<close>

definition wg_status :: "'w platform_ops \<Rightarrow> (wgkey \<Rightarrow> string) \<Rightarrow> wg_device option \<Rightarrow> 'w \<Rightarrow> string \<Rightarrow> string \<Rightarrow> wg_error + report" where
  "wg_status P text device w iface os =
     (case device of
        None \<Rightarrow> Inl (GettingDevice iface)
      | Some dev \<Rightarrow>
          (case lk_Addrs P w os of
             None \<Rightarrow> Inl (ListingAddresses os)
           | Some addrs \<Rightarrow>
               Inr \<lparr>rep_Interface = wgd_Name dev, rep_PublicKey = text (wgd_PublicKey dev), rep_ListenPort = wgd_ListenPort dev,
                    rep_Addrs = filter (\<lambda>p. \<not> is_link_local_unicast (pfx_addr p)) addrs,
                    rep_Peers = map (peerReport text) (wgd_Peers dev)\<rparr>))"

section \<open>What the platform promises\<close>

text \<open>A destination that survives the conversion to the platform's form.\<close>

definition routable :: "prefix \<Rightarrow> bool" where
  "routable p \<longleftrightarrow> wf_prefix p \<and> prefix_is_valid p \<and> \<not> is_4in6 (pfx_addr p)"

text \<open>
  \<open>routes w os\<close> are the destinations routed through an interface, \<open>peers w iface\<close> the peers of a
  device; the platform lists them all, and may list more. \<open>fits\<close> holds of the destinations the platform can route, \<open>shown\<close> of those it lists, \<open>ours\<close> of
  the interfaces it is asked about routes of, and
  \<open>elsewhere w os d\<close> says that \<open>d\<close> is already routed, but not by a route the platform lists for that
  interface. Adding a route that exists and removing one that is missing succeed; a destination
  that is routed elsewhere is one that exists, so nothing is promised of it. The other operations of
  the linker leave the peers alone. They may have the kernel add routes of its own, but, for the
  destinations that fit, none other than the one to the address that is set.
\<close>

locale platform =
  fixes P :: "'w platform_ops" and routes :: "'w \<Rightarrow> string \<Rightarrow> prefix set" and peers :: "'w \<Rightarrow> string \<Rightarrow> peer_config list"
    and fits :: "prefix \<Rightarrow> bool" and shown :: "prefix \<Rightarrow> bool" and ours :: "string \<Rightarrow> bool"
    and elsewhere :: "'w \<Rightarrow> string \<Rightarrow> prefix \<Rightarrow> bool"
  assumes listed: "ours os \<Longrightarrow> lk_Routes P w os = Some rs \<Longrightarrow> routes w os \<subseteq> set rs \<and> (\<forall>d \<in> set rs. shown d)"
    and added: "ours os \<Longrightarrow> lk_AddRoute P w os d = (w', True) \<Longrightarrow> fits d \<Longrightarrow> \<not> elsewhere w os d \<Longrightarrow> routes w' os = insert d (routes w os)"
    and deleted: "ours os \<Longrightarrow> lk_DelRoute P w os d = (w', True) \<Longrightarrow> shown d \<Longrightarrow> routes w' os = routes w os - {d}"
    and configured: "ConfigureDevice P w iface cfg = (w', True) \<Longrightarrow> dcf_ReplacePeers cfg \<Longrightarrow> peers w' iface = dcf_Peers cfg"
    and peers_kept: "peers (fst (lk_SetAddr P w os p)) = peers w" "peers (fst (lk_SetMTU P w os m)) = peers w"
      "peers (fst (lk_Up P w os)) = peers w" "peers (fst (lk_AddRoute P w os p)) = peers w" "peers (fst (lk_DelRoute P w os p)) = peers w"
    and not_elsewhere: "dev_Create P w iface m = (w', Some os) \<Longrightarrow> elsewhere w' os d \<Longrightarrow> elsewhere w os d"
      "elsewhere (fst (ConfigureDevice P w iface cfg)) os d \<Longrightarrow> elsewhere w os d"
      "elsewhere (fst (lk_SetAddr P w os (hostPrefix a))) os d \<Longrightarrow> a \<noteq> NoAddr \<Longrightarrow> fits d \<Longrightarrow> d \<noteq> hostPrefix a \<Longrightarrow> elsewhere w os d"
      "elsewhere (fst (lk_SetMTU P w os m)) os d \<Longrightarrow> fits d \<Longrightarrow> elsewhere w os d"
      "elsewhere (fst (lk_Up P w os)) os d \<Longrightarrow> fits d \<Longrightarrow> elsewhere w os d" "elsewhere (fst (lk_AddRoute P w os p)) os d \<Longrightarrow> elsewhere w os d"
begin

lemma add_routes_routes:
  "ours os \<Longrightarrow> add_routes P os w ds = (w', None) \<Longrightarrow> \<forall>d \<in> set ds. fits d \<and> \<not> elsewhere w os d \<Longrightarrow> routes w' os = routes w os \<union> set ds"
proof (induction ds arbitrary: w)
  case (Cons d ds)
  then obtain w1 where w1: "lk_AddRoute P w os d = (w1, True)" "add_routes P os w1 ds = (w', None)"
    by (auto split: prod.splits bool.splits)
  have "elsewhere w1 os e \<Longrightarrow> elsewhere w os e" for e using not_elsewhere(6) [of w os d e] w1(1) by simp
  then show ?case using Cons.IH [OF Cons.prems(1) w1(2)] Cons.prems(3) added [OF Cons.prems(1) w1(1)] by auto
qed simp

lemma del_routes_routes:
  "ours os \<Longrightarrow> del_routes P os wanted w ds = (w', None) \<Longrightarrow> \<forall>d \<in> set ds. shown d \<Longrightarrow> routes w' os = routes w os - (set ds - set wanted)"
proof (induction ds arbitrary: w)
  case (Cons d ds)
  show ?case
  proof (cases "d \<in> set wanted")
    case True
    then show ?thesis using Cons by auto
  next
    case False
    with Cons.prems obtain w1 where w1: "lk_DelRoute P w os d = (w1, True)" "del_routes P os wanted w1 ds = (w', None)"
      by (auto split: prod.splits bool.splits)
    then show ?thesis using Cons.IH [OF Cons.prems(1) w1(2)] Cons.prems(3) deleted [OF Cons.prems(1) w1(1)] False by auto
  qed
qed simp

lemma add_routes_peers: "peers (fst (add_routes P os w ds)) = peers w"
proof (induction ds arbitrary: w)
  case (Cons d ds)
  then show ?case
    using peers_kept(4) [of w os d] by (cases "lk_AddRoute P w os d") (simp split: bool.split)
qed simp

lemma del_routes_peers: "peers (fst (del_routes P os wanted w ds)) = peers w"
proof (induction ds arbitrary: w)
  case (Cons d ds)
  then show ?case
    using peers_kept(5) [of w os d] by (cases "lk_DelRoute P w os d") (simp split: bool.split)
qed simp

lemma setup_exact:
  assumes "SetUpInterface P parse s w nodes = (s', w', None)" and "ws_overlayAddr s \<noteq> NoAddr" and "ours (ws_osName s')"
    and "\<forall>d \<in> set (concat (map peerPrefixes nodes)). fits d \<and> \<not> elsewhere w (ws_osName s') d \<and> d \<noteq> hostPrefix (ws_overlayAddr s)"
  shows "nodesToPeerConfigs parse s nodes = Inr (peers w' (ws_iface s)) \<and>
    set (concat (map peerPrefixes nodes)) \<subseteq> routes w' (ws_osName s') \<and>
    routes w' (ws_osName s') \<subseteq> insert (hostPrefix (ws_overlayAddr s)) (set (concat (map peerPrefixes nodes)))"
proof -
  let ?wanted = "concat (map peerPrefixes nodes)"
  have cfg_of: "peer_config_of (s\<lparr>ws_osName := os\<rparr>) = peer_config_of s" for os
    by (simp add: peer_config_of_def fun_eq_iff)
  have same: "nodesToPeerConfigs parse (s\<lparr>ws_osName := os\<rparr>) ns = nodesToPeerConfigs parse s ns" for os ns
    by (induction ns) (simp_all add: cfg_of split: option.split sum.split)
  from assms(1) obtain os w1 ps w2 w3 w4 w5 w6 where
    s': "s' = s\<lparr>ws_osName := os\<rparr>" and made: "dev_Create P w (ws_iface s) (ws_mtu s) = (w1, Some os)" and ps: "nodesToPeerConfigs parse s nodes = Inr ps"
    and conf: "ConfigureDevice P w1 (ws_iface s)
       \<lparr>dcf_PrivateKey = ws_privKey s, dcf_ListenPort = ws_port s, dcf_ReplacePeers = True, dcf_Peers = ps\<rparr> = (w2, True)"
    and link: "lk_SetAddr P w2 os (hostPrefix (ws_overlayAddr s)) = (w3, True)" "lk_SetMTU P w3 os (ws_mtu s) = (w4, True)" "lk_Up P w4 os = (w5, True)"
    and add: "add_routes P os w5 ?wanted = (w6, None)" and stale: "removeStaleRoutes P s' os ?wanted w6 = (w', None)"
    by (auto simp: SetUpInterface_def Let_def same split: prod.splits option.splits sum.splits bool.splits)
  obtain rs where rs: "lk_Routes P w6 os = Some rs" "del_routes P os (hostPrefix (ws_overlayAddr s) # ?wanted) w6 rs = (w', None)"
    using stale s' by (auto simp: removeStaleRoutes_def split: option.splits)
  have ours: "ours os" using assms(3) s' by simp
  have "peers w' = peers w6" using del_routes_peers [of os _ w6 rs] rs(2) by (metis fst_conv)
  also have "\<dots> = peers w5" using add_routes_peers [of os w5] add by (metis fst_conv)
  also have "\<dots> = peers w2" using peers_kept(1-3) link by (metis fst_conv)
  finally have "peers w' (ws_iface s) = ps" using configured [OF conf] by simp
  moreover have "elsewhere w5 os d \<Longrightarrow> fits d \<Longrightarrow> d \<noteq> hostPrefix (ws_overlayAddr s) \<Longrightarrow> elsewhere w os d" for d
    using not_elsewhere(1) [OF made] not_elsewhere(2) [of w1] not_elsewhere(3) [of w2] not_elsewhere(4) [of w3] not_elsewhere(5) [of w4] conf link assms(2)
    by (metis fst_conv)
  then have "\<forall>d \<in> set ?wanted. fits d \<and> \<not> elsewhere w5 os d" using assms(4) s' by auto
  then have "routes w6 os = routes w5 os \<union> set ?wanted" by (rule add_routes_routes [OF ours add])
  then have "routes w' os = (routes w5 os \<union> set ?wanted) - (set rs - set (hostPrefix (ws_overlayAddr s) # ?wanted))"
    using del_routes_routes [OF ours rs(2)] listed [OF ours rs(1)] by simp
  moreover have "routes w5 os \<union> set ?wanted \<subseteq> set rs" using listed [OF ours rs(1)] \<open>routes w6 os = _\<close> by simp
  ultimately show ?thesis using ps s' by auto
qed

end

text \<open>Deleting the device: \<open>gone\<close> is what a platform promises where that succeeds.\<close>

locale removable =
  fixes P :: "'w platform_ops" and gone :: "'w \<Rightarrow> string \<Rightarrow> bool"
  assumes removed: "dev_Delete P w iface = (w', True) \<Longrightarrow> gone w' iface"
begin

lemma taken_down:
  assumes "DownInterface P s w = (s', w', r)"
  shows "\<exists>ok. dev_Delete P w (ws_iface s) = (w', ok) \<and>
    (if ok then r = None \<and> gone w' (ws_iface s) \<and> s' = s\<lparr>ws_osName := []\<rparr> else r = Some (RemovingInterface (ws_iface s)) \<and> s' = s)"
  using assms removed [of w "ws_iface s"] by (auto simp: DownInterface_def split: prod.splits bool.splits)

end

end
