(* ===== verification/Link_Linux.thy ===== *)
theory Link_Linux
  imports Wireguard
begin

text \<open>
  The Linux platform, \<^verbatim>\<open>internal/wg/link_linux.go\<close>: the kernel device and the linker over netlink,
  and the choice between them and a device in the process. The netlink and wgctrl libraries are a
  record of operations on a kernel state; what the code relies on of them is \<open>netlink_ok\<close>. The
  linker is an instance of the locale \<open>platform\<close>, so setting the interface up leaves exactly the
  wanted peers and routes.
\<close>

section \<open>netlink\<close>

datatype nl_result = NlOk | NlExist | NlNotExist | NlNotSupported | NlError

datatype nl_link = NlLink nat | NlNoLink | NlLinkError

record nl_route =
  rt_no :: nat
  rt_Dst :: "ipnet option"

record 'k netlink =
  nl_LinkByName :: "'k \<Rightarrow> string \<Rightarrow> nl_link"
  nl_LinkAdd :: "'k \<Rightarrow> string \<Rightarrow> 'k \<times> nl_result"
  nl_LinkDel :: "'k \<Rightarrow> nat \<Rightarrow> 'k \<times> nl_result"
  nl_AddrReplace :: "'k \<Rightarrow> nat \<Rightarrow> ipnet \<Rightarrow> 'k \<times> nl_result"
  nl_LinkSetMTU :: "'k \<Rightarrow> nat \<Rightarrow> int \<Rightarrow> 'k \<times> nl_result"
  nl_LinkSetUp :: "'k \<Rightarrow> nat \<Rightarrow> 'k \<times> nl_result"
  nl_AddrList :: "'k \<Rightarrow> nat \<Rightarrow> ipnet option list option"
  nl_RouteList :: "'k \<Rightarrow> nat \<Rightarrow> nl_route list option"
  nl_RouteAdd :: "'k \<Rightarrow> nat \<Rightarrow> ipnet \<Rightarrow> 'k \<times> nl_result"
  nl_RouteDel :: "'k \<Rightarrow> nl_route \<Rightarrow> 'k \<times> nl_result"
  wgctrl_Configure :: "'k \<Rightarrow> string \<Rightarrow> device_config \<Rightarrow> 'k \<times> bool"

section \<open>Device and linker\<close>

definition kernel_Create :: "'k netlink \<Rightarrow> 'k \<Rightarrow> string \<Rightarrow> int \<Rightarrow> 'k \<times> nl_result \<times> string" where
  "kernel_Create N k name mtu =
     (case nl_LinkAdd N k name of
        (k', r) \<Rightarrow> if r \<noteq> NlOk \<and> r \<noteq> NlExist then (k', r, '''') else (k', NlOk, name))"

definition kernel_Delete :: "'k netlink \<Rightarrow> 'k \<Rightarrow> string \<Rightarrow> 'k \<times> bool" where
  "kernel_Delete N k name =
     (case nl_LinkByName N k name of
        NlNoLink \<Rightarrow> (k, True)
      | NlLinkError \<Rightarrow> (k, False)
      | NlLink i \<Rightarrow> (case nl_LinkDel N k i of (k', r) \<Rightarrow> (k', r = NlOk)))"

text \<open>An operation on the link of that name, which fails if there is none.\<close>

definition on_link :: "'k netlink \<Rightarrow> 'k \<Rightarrow> string \<Rightarrow> (nat \<Rightarrow> 'k \<times> nl_result) \<Rightarrow> 'k \<times> bool" where
  "on_link N k name f = (case nl_LinkByName N k name of NlLink i \<Rightarrow> (case f i of (k', r) \<Rightarrow> (k', r = NlOk)) | _ \<Rightarrow> (k, False))"

definition nl_SetAddr :: "'k netlink \<Rightarrow> 'k \<Rightarrow> string \<Rightarrow> prefix \<Rightarrow> 'k \<times> bool" where
  "nl_SetAddr N k name a = on_link N k name (\<lambda>i. nl_AddrReplace N k i (prefixToIPNet a))"

definition nl_SetMTU :: "'k netlink \<Rightarrow> 'k \<Rightarrow> string \<Rightarrow> int \<Rightarrow> 'k \<times> bool" where
  "nl_SetMTU N k name mtu = on_link N k name (\<lambda>i. nl_LinkSetMTU N k i mtu)"

definition nl_Up :: "'k netlink \<Rightarrow> 'k \<Rightarrow> string \<Rightarrow> 'k \<times> bool" where
  "nl_Up N k name = on_link N k name (\<lambda>i. nl_LinkSetUp N k i)"

definition nl_Addrs :: "'k netlink \<Rightarrow> 'k \<Rightarrow> string \<Rightarrow> prefix list option" where
  "nl_Addrs N k name =
     (case nl_LinkByName N k name of
        NlLink i \<Rightarrow> (case nl_AddrList N k i of None \<Rightarrow> None | Some as \<Rightarrow> Some (List.map_filter prefixFromIPNet as))
      | _ \<Rightarrow> None)"

definition listRoutes :: "'k netlink \<Rightarrow> 'k \<Rightarrow> string \<Rightarrow> nl_route list option" where
  "listRoutes N k name = (case nl_LinkByName N k name of NlLink i \<Rightarrow> nl_RouteList N k i | _ \<Rightarrow> None)"

definition nl_Routes :: "'k netlink \<Rightarrow> 'k \<Rightarrow> string \<Rightarrow> prefix list option" where
  "nl_Routes N k name =
     (case listRoutes N k name of None \<Rightarrow> None | Some rs \<Rightarrow> Some (List.map_filter (\<lambda>r. prefixFromIPNet (rt_Dst r)) rs))"

definition nl_AddRoute :: "'k netlink \<Rightarrow> 'k \<Rightarrow> string \<Rightarrow> prefix \<Rightarrow> 'k \<times> bool" where
  "nl_AddRoute N k name dst =
     (case nl_LinkByName N k name of
        NlLink i \<Rightarrow> (case nl_RouteAdd N k i (prefixToIPNet dst) of (k', r) \<Rightarrow> (k', r = NlOk \<or> r = NlExist))
      | _ \<Rightarrow> (k, False))"

fun del_matching :: "'k netlink \<Rightarrow> prefix \<Rightarrow> 'k \<Rightarrow> nl_route list \<Rightarrow> 'k \<times> bool" where
  "del_matching N dst k [] = (k, True)"
| "del_matching N dst k (r # rs) =
     (if prefixFromIPNet (rt_Dst r) \<noteq> Some dst then del_matching N dst k rs
      else
        (case nl_RouteDel N k r of
           (k', res) \<Rightarrow> if res \<noteq> NlOk \<and> res \<noteq> NlNotExist then (k', False) else del_matching N dst k' rs))"

definition nl_DelRoute :: "'k netlink \<Rightarrow> 'k \<Rightarrow> string \<Rightarrow> prefix \<Rightarrow> 'k \<times> bool" where
  "nl_DelRoute N k name dst = (case listRoutes N k name of None \<Rightarrow> (k, False) | Some rs \<Rightarrow> del_matching N dst k rs)"

definition linux_ops :: "'k netlink \<Rightarrow> 'k platform_ops" where
  "linux_ops N =
     \<lparr>dev_Create = (\<lambda>k name mtu. case kernel_Create N k name mtu of (k', r, os) \<Rightarrow> (k', if r = NlOk then Some os else None)),
      dev_Delete = kernel_Delete N, ConfigureDevice = wgctrl_Configure N, lk_SetAddr = nl_SetAddr N, lk_SetMTU = nl_SetMTU N,
      lk_Up = nl_Up N, lk_Addrs = nl_Addrs N, lk_Routes = nl_Routes N, lk_AddRoute = nl_AddRoute N, lk_DelRoute = nl_DelRoute N\<rparr>"

text \<open>\<^verbatim>\<open>platform\<close>: the kernel's device unless it has none or the other one is asked for.\<close>

datatype device_kind = KernelDevice | UserspaceDevice

definition linux_platform :: "'k netlink \<Rightarrow> 'k \<Rightarrow> wg_config \<Rightarrow> 'k \<times> (wg_error + device_kind)" where
  "linux_platform N k cfg =
     (if wgc_Userspace cfg then (k, Inr UserspaceDevice)
      else
        (case kernel_Create N k (wgc_Interface cfg) (wgc_MTU cfg) of
           (k', NlOk, _) \<Rightarrow> (k', Inr KernelDevice)
         | (k', NlNotSupported, _) \<Rightarrow> (k', Inr UserspaceDevice)
         | (k', _, _) \<Rightarrow> (k', Inl (CreatingInterface (wgc_Interface cfg)))))"

definition linux_lookup :: "'k netlink \<Rightarrow> 'k \<Rightarrow> string \<Rightarrow> string option" where
  "linux_lookup N k iface = (case nl_LinkByName N k iface of NlLink _ \<Rightarrow> Some iface | _ \<Rightarrow> None)"

definition wg_Remove :: "'k netlink \<Rightarrow> 'k \<Rightarrow> string \<Rightarrow> 'k \<times> wg_error option" where
  "wg_Remove N k iface = (case kernel_Delete N k iface of (k', ok) \<Rightarrow> (k', if ok then None else Some (RemovingInterface iface)))"

section \<open>What the libraries document\<close>

text \<open>
  \<open>table k name\<close> are the routes through an interface and \<open>peers k name\<close> a device's peers. A route is
  listed if it is in the table; adding one puts it there, or finds one to the same destination,
  through whichever interface; deleting one takes it out or finds it gone; configuring with
  \<^verbatim>\<open>ReplacePeers\<close> sets the peers. What is done to one interface leaves the routes through the
  others alone.
\<close>

definition netlink_ok :: "'k netlink \<Rightarrow> ('k \<Rightarrow> string \<Rightarrow> nl_route set) \<Rightarrow> ('k \<Rightarrow> string \<Rightarrow> peer_config list) \<Rightarrow> bool" where
  "netlink_ok N table peers \<longleftrightarrow>
     (\<forall>k name i rs. nl_LinkByName N k name = NlLink i \<longrightarrow> nl_RouteList N k i = Some rs \<longrightarrow> set rs = table k name) \<and>
     (\<forall>k name i n k' r. nl_LinkByName N k name = NlLink i \<longrightarrow> nl_RouteAdd N k i n = (k', r) \<longrightarrow>
        (\<forall>other. other \<noteq> name \<longrightarrow> table k' other = table k other) \<and>
        (r = NlOk \<longrightarrow> (\<exists>x. prefixFromIPNet (rt_Dst x) = prefixFromIPNet (Some n) \<and> table k' name = insert x (table k name))) \<and>
        (r = NlExist \<longrightarrow> (\<exists>any. \<exists>x \<in> table k any. prefixFromIPNet (rt_Dst x) = prefixFromIPNet (Some n)) \<and> table k' name = table k name)) \<and>
     (\<forall>k x k' r name. nl_RouteDel N k x = (k', r) \<longrightarrow> (r = NlOk \<or> r = NlNotExist) \<longrightarrow> table k' name = table k name - {x}) \<and>
     (\<forall>k name cfg k'. wgctrl_Configure N k name cfg = (k', True) \<longrightarrow> dcf_ReplacePeers cfg \<longrightarrow> peers k' name = dcf_Peers cfg) \<and>
     (\<forall>k i x m n. peers (fst (nl_AddrReplace N k i n)) = peers k \<and> peers (fst (nl_LinkSetMTU N k i m)) = peers k \<and>
        peers (fst (nl_LinkSetUp N k i)) = peers k \<and> peers (fst (nl_RouteAdd N k i n)) = peers k \<and> peers (fst (nl_RouteDel N k x)) = peers k) \<and>
     (\<forall>k name cfg other. table (fst (wgctrl_Configure N k name cfg)) other = table k other) \<and>
     (\<forall>k name other. other \<noteq> name \<longrightarrow> table (fst (nl_LinkAdd N k name)) other = table k other) \<and>
     (\<forall>k name i other n m. nl_LinkByName N k name = NlLink i \<longrightarrow> other \<noteq> name \<longrightarrow> table (fst (nl_AddrReplace N k i n)) other = table k other \<and>
        table (fst (nl_LinkSetMTU N k i m)) other = table k other \<and> table (fst (nl_LinkSetUp N k i)) other = table k other)"

definition destinations :: "('k \<Rightarrow> string \<Rightarrow> nl_route set) \<Rightarrow> 'k \<Rightarrow> string \<Rightarrow> prefix set" where
  "destinations table k name = {p. \<exists>r \<in> table k name. prefixFromIPNet (rt_Dst r) = Some p}"

definition routed_elsewhere :: "('k \<Rightarrow> string \<Rightarrow> nl_route set) \<Rightarrow> 'k \<Rightarrow> string \<Rightarrow> prefix \<Rightarrow> bool" where
  "routed_elsewhere table k name d \<longleftrightarrow> (\<exists>other. other \<noteq> name \<and> d \<in> destinations table k other)"

lemma netlink_list: "netlink_ok N table peers \<Longrightarrow> nl_LinkByName N k name = NlLink i \<Longrightarrow> nl_RouteList N k i = Some rs \<Longrightarrow> set rs = table k name"
  by (simp add: netlink_ok_def)

lemma netlink_add:
  assumes "netlink_ok N table peers" and "nl_LinkByName N k name = NlLink i" and "nl_RouteAdd N k i n = (k', r)"
  shows "other \<noteq> name \<Longrightarrow> table k' other = table k other"
    and "r = NlOk \<Longrightarrow> \<exists>x. prefixFromIPNet (rt_Dst x) = prefixFromIPNet (Some n) \<and> table k' name = insert x (table k name)"
    and "r = NlExist \<Longrightarrow> (\<exists>any. \<exists>x \<in> table k any. prefixFromIPNet (rt_Dst x) = prefixFromIPNet (Some n)) \<and> table k' name = table k name"
proof -
  have "\<forall>k name i n k' r. nl_LinkByName N k name = NlLink i \<longrightarrow> nl_RouteAdd N k i n = (k', r) \<longrightarrow>
        (\<forall>other. other \<noteq> name \<longrightarrow> table k' other = table k other) \<and>
        (r = NlOk \<longrightarrow> (\<exists>x. prefixFromIPNet (rt_Dst x) = prefixFromIPNet (Some n) \<and> table k' name = insert x (table k name))) \<and>
        (r = NlExist \<longrightarrow> (\<exists>any. \<exists>x \<in> table k any. prefixFromIPNet (rt_Dst x) = prefixFromIPNet (Some n)) \<and> table k' name = table k name)"
    using assms(1) unfolding netlink_ok_def by (elim conjE)
  note this [rule_format, OF assms(2,3)]
  then show "other \<noteq> name \<Longrightarrow> table k' other = table k other"
    and "r = NlOk \<Longrightarrow> \<exists>x. prefixFromIPNet (rt_Dst x) = prefixFromIPNet (Some n) \<and> table k' name = insert x (table k name)"
    and "r = NlExist \<Longrightarrow> (\<exists>any. \<exists>x \<in> table k any. prefixFromIPNet (rt_Dst x) = prefixFromIPNet (Some n)) \<and> table k' name = table k name"
    by blast+
qed

lemma netlink_del: "netlink_ok N table peers \<Longrightarrow> nl_RouteDel N k x = (k', r) \<Longrightarrow> r = NlOk \<or> r = NlNotExist \<Longrightarrow> table k' name = table k name - {x}"
  by (auto simp: netlink_ok_def)

lemma nl_Routes_listed:
  assumes "netlink_ok N table peers" and "nl_Routes N k name = Some rs"
  shows "set rs = destinations table k name"
proof -
  obtain i xs where i: "nl_LinkByName N k name = NlLink i" "nl_RouteList N k i = Some xs"
    and rs: "rs = List.map_filter (\<lambda>r. prefixFromIPNet (rt_Dst r)) xs"
    using assms(2) by (auto simp: nl_Routes_def listRoutes_def split: option.splits nl_link.splits)
  have "set xs = table k name" using netlink_list [OF assms(1) i] .
  then show ?thesis
    unfolding rs destinations_def List.map_filter_def set_map set_filter comp_def by force
qed

lemma nl_AddRoute_added:
  assumes "netlink_ok N table peers" and "nl_AddRoute N k name d = (k', True)" and "routable d" and "\<not> routed_elsewhere table k name d"
  shows "destinations table k' name = insert d (destinations table k name)"
proof -
  obtain i r where i: "nl_LinkByName N k name = NlLink i" "nl_RouteAdd N k i (prefixToIPNet d) = (k', r)" "r = NlOk \<or> r = NlExist"
    using assms(2) by (auto simp: nl_AddRoute_def split: nl_link.splits prod.splits)
  have d: "prefixFromIPNet (Some (prefixToIPNet d)) = Some d"
    using assms(3) prefix_ipnet_round_trip by (simp add: routable_def)
  note add = netlink_add [OF assms(1) i(1,2), unfolded d]
  show ?thesis
  proof (cases "r = NlOk")
    case True
    then obtain x where x: "prefixFromIPNet (rt_Dst x) = Some d" "table k' name = insert x (table k name)" using add by blast
    then show ?thesis by (auto simp: destinations_def)
  next
    case False
    then have x: "\<exists>any. \<exists>x \<in> table k any. prefixFromIPNet (rt_Dst x) = Some d" "table k' name = table k name" using add i(3) by auto
    then have "d \<in> destinations table k name" using assms(4) by (auto simp: destinations_def routed_elsewhere_def)
    then show ?thesis using x(2) by (auto simp: destinations_def)
  qed
qed

lemma del_matching_deleted:
  assumes "netlink_ok N table peers"
  shows "del_matching N d k rs = (k', True) \<Longrightarrow> table k' name = table k name - {r \<in> set rs. prefixFromIPNet (rt_Dst r) = Some d}"
proof (induction rs arbitrary: k)
  case (Cons r rs)
  show ?case
  proof (cases "prefixFromIPNet (rt_Dst r) = Some d")
    case True
    with Cons.prems obtain k1 res where k1: "nl_RouteDel N k r = (k1, res)" "res = NlOk \<or> res = NlNotExist" "del_matching N d k1 rs = (k', True)"
      by (auto split: prod.splits if_splits)
    have "table k1 name = table k name - {r}" using netlink_del [OF assms k1(1,2)] .
    then show ?thesis using Cons.IH [OF k1(3)] True by auto
  next
    case False
    then show ?thesis using Cons by auto
  qed
qed simp

lemma nl_DelRoute_deleted:
  assumes "netlink_ok N table peers" and "nl_DelRoute N k name d = (k', True)"
  shows "destinations table k' name = destinations table k name - {d}"
proof -
  obtain i xs where i: "nl_LinkByName N k name = NlLink i" "nl_RouteList N k i = Some xs" and del: "del_matching N d k xs = (k', True)"
    using assms(2) by (auto simp: nl_DelRoute_def listRoutes_def split: option.splits nl_link.splits)
  have "set xs = table k name" using netlink_list [OF assms(1) i] .
  then have "table k' name = {r \<in> table k name. prefixFromIPNet (rt_Dst r) \<noteq> Some d}"
    using del_matching_deleted [OF assms(1) del] by auto
  then show ?thesis by (auto simp: destinations_def)
qed

lemma peers_kept_on_link: "(\<And>i. peers (fst (f i)) = peers k) \<Longrightarrow> peers (fst (on_link N k name f)) = peers k"
  by (simp add: on_link_def case_prod_beta split: nl_link.split)

lemma netlink_keeps:
  assumes "netlink_ok N table peers"
  shows "peers (fst (nl_AddrReplace N k i n)) = peers k" "peers (fst (nl_LinkSetMTU N k i m)) = peers k"
    "peers (fst (nl_LinkSetUp N k i)) = peers k" "peers (fst (nl_RouteAdd N k i n)) = peers k" "peers (fst (nl_RouteDel N k x)) = peers k"
  using assms by (simp_all add: netlink_ok_def)

lemma del_matching_peers:
  assumes "netlink_ok N table peers"
  shows "peers (fst (del_matching N d k rs)) = peers k"
proof (induction rs arbitrary: k)
  case (Cons r rs)
  then show ?case
    using netlink_keeps(5) [OF assms, of k r] by (cases "nl_RouteDel N k r") simp
qed simp

lemma netlink_others:
  assumes "netlink_ok N table peers"
  shows "table (fst (wgctrl_Configure N k name cfg)) other = table k other"
    and "other \<noteq> name \<Longrightarrow> table (fst (nl_LinkAdd N k name)) other = table k other"
    and "nl_LinkByName N k name = NlLink i \<Longrightarrow> other \<noteq> name \<Longrightarrow> table (fst (nl_AddrReplace N k i n)) other = table k other"
    and "nl_LinkByName N k name = NlLink i \<Longrightarrow> other \<noteq> name \<Longrightarrow> table (fst (nl_LinkSetMTU N k i m)) other = table k other"
    and "nl_LinkByName N k name = NlLink i \<Longrightarrow> other \<noteq> name \<Longrightarrow> table (fst (nl_LinkSetUp N k i)) other = table k other"
  using assms by (simp_all add: netlink_ok_def)

lemma routed_elsewhere_kept:
  "(\<And>other. other \<noteq> os \<Longrightarrow> table k' other = table k other) \<Longrightarrow> routed_elsewhere table k' os d \<Longrightarrow> routed_elsewhere table k os d"
  by (auto simp: routed_elsewhere_def destinations_def)

lemma on_link_others:
  "(\<And>i. nl_LinkByName N k name = NlLink i \<Longrightarrow> table (fst (f i)) other = table k other) \<Longrightarrow> table (fst (on_link N k name f)) other = table k other"
  by (simp add: on_link_def case_prod_beta split: nl_link.split)

lemma linux_others:
  assumes "netlink_ok N table peers" and "other \<noteq> os"
  shows "table (fst (lk_SetAddr (linux_ops N) k os p)) other = table k other" "table (fst (lk_SetMTU (linux_ops N) k os m)) other = table k other"
    "table (fst (lk_Up (linux_ops N) k os)) other = table k other" "table (fst (lk_AddRoute (linux_ops N) k os p)) other = table k other"
proof -
  note keep = netlink_others(3-5) [OF assms(1) _ assms(2)]
  show "table (fst (lk_SetAddr (linux_ops N) k os p)) other = table k other" "table (fst (lk_SetMTU (linux_ops N) k os m)) other = table k other"
    "table (fst (lk_Up (linux_ops N) k os)) other = table k other"
    by (simp_all add: linux_ops_def nl_SetAddr_def nl_SetMTU_def nl_Up_def on_link_others keep)
  show "table (fst (lk_AddRoute (linux_ops N) k os p)) other = table k other"
    using netlink_add(1) [OF assms(1) _ prod.collapse [symmetric] assms(2)]
    by (simp add: linux_ops_def nl_AddRoute_def case_prod_beta split: nl_link.split)
qed

text \<open>The Linux linker keeps what the platform's interface promises.\<close>

lemma netlink_platform:
  assumes "netlink_ok N table peers"
  shows "platform (linux_ops N) (destinations table) peers routable (\<lambda>_. True) (\<lambda>_. True) (routed_elsewhere table)"
proof
  fix w os d w'
  show "True \<Longrightarrow> lk_AddRoute (linux_ops N) w os d = (w', True) \<Longrightarrow> routable d \<Longrightarrow> \<not> routed_elsewhere table w os d \<Longrightarrow>
      destinations table w' os = insert d (destinations table w os)"
    using nl_AddRoute_added [OF assms] by (simp add: linux_ops_def)
  show "True \<Longrightarrow> lk_DelRoute (linux_ops N) w os d = (w', True) \<Longrightarrow> True \<Longrightarrow> destinations table w' os = destinations table w os - {d}"
    using nl_DelRoute_deleted [OF assms] by (simp add: linux_ops_def)
next
  fix w os rs
  show "True \<Longrightarrow> lk_Routes (linux_ops N) w os = Some rs \<Longrightarrow> destinations table w os \<subseteq> set rs \<and> (\<forall>d \<in> set rs. True)"
    using nl_Routes_listed [OF assms] by (simp add: linux_ops_def)
next
  fix w iface cfg w'
  show "ConfigureDevice (linux_ops N) w iface cfg = (w', True) \<Longrightarrow> dcf_ReplacePeers cfg \<Longrightarrow> peers w' iface = dcf_Peers cfg"
    using assms by (simp add: linux_ops_def netlink_ok_def)
next
  fix w os p m
  note keep = netlink_keeps [OF assms]
  show "peers (fst (lk_SetAddr (linux_ops N) w os p)) = peers w" "peers (fst (lk_SetMTU (linux_ops N) w os m)) = peers w"
    "peers (fst (lk_Up (linux_ops N) w os)) = peers w"
    by (simp_all add: linux_ops_def nl_SetAddr_def nl_SetMTU_def nl_Up_def peers_kept_on_link keep)
  show "peers (fst (lk_AddRoute (linux_ops N) w os p)) = peers w" "peers (fst (lk_DelRoute (linux_ops N) w os p)) = peers w"
    using keep del_matching_peers [OF assms]
    by (simp_all add: linux_ops_def nl_AddRoute_def nl_DelRoute_def case_prod_beta split: nl_link.split option.split)
next
  fix w os p m d w' iface cfg a
  note keep = linux_others [OF assms] netlink_others(1,2) [OF assms]
  show "dev_Create (linux_ops N) w iface m = (w', Some os) \<Longrightarrow> routed_elsewhere table w' os d \<Longrightarrow> routed_elsewhere table w os d"
    using keep(6) [of _ iface w] routed_elsewhere_kept [of os table w' w d]
    by (auto simp: linux_ops_def kernel_Create_def split: prod.splits if_splits)
  show "routed_elsewhere table (fst (ConfigureDevice (linux_ops N) w iface cfg)) os d \<Longrightarrow> routed_elsewhere table w os d"
    by (simp add: linux_ops_def routed_elsewhere_def destinations_def keep)
  show "routed_elsewhere table (fst (lk_SetAddr (linux_ops N) w os (hostPrefix a))) os d \<Longrightarrow> a \<noteq> NoAddr \<Longrightarrow>
      routable d \<Longrightarrow> d \<noteq> hostPrefix a \<Longrightarrow> routed_elsewhere table w os d"
    "routed_elsewhere table (fst (lk_SetMTU (linux_ops N) w os m)) os d \<Longrightarrow> routable d \<Longrightarrow> routed_elsewhere table w os d"
    "routed_elsewhere table (fst (lk_Up (linux_ops N) w os)) os d \<Longrightarrow> routable d \<Longrightarrow> routed_elsewhere table w os d"
    "routed_elsewhere table (fst (lk_AddRoute (linux_ops N) w os p)) os d \<Longrightarrow> routed_elsewhere table w os d"
    by (rule routed_elsewhere_kept, erule keep(1-4), assumption)+
qed

section \<open>A concrete kernel\<close>

text \<open>Two interfaces, a list of routes with the interface they go through, and a list of peers.\<close>

type_synonym demo_kernel = "(nat \<times> nl_route) list \<times> peer_config list"

definition demo_link :: "string \<Rightarrow> nl_link" where
  "demo_link name = (if name = ''wg0'' then NlLink 1 else if name = ''eth0'' then NlLink 2 else NlNoLink)"

definition demo_netlink :: "demo_kernel netlink" where
  "demo_netlink =
     \<lparr>nl_LinkByName = (\<lambda>k name. demo_link name), nl_LinkAdd = (\<lambda>k name. (k, NlExist)),
      nl_LinkDel = (\<lambda>k i. ((filter (\<lambda>(j, r). j \<noteq> i) (fst k), []), NlOk)),
      nl_AddrReplace = (\<lambda>k i n. (k, NlOk)), nl_LinkSetMTU = (\<lambda>k i m. (k, NlOk)), nl_LinkSetUp = (\<lambda>k i. (k, NlOk)),
      nl_AddrList = (\<lambda>k i. Some []), nl_RouteList = (\<lambda>k i. Some (map snd (filter (\<lambda>(j, r). j = i) (fst k)))),
      nl_RouteAdd = (\<lambda>k i n. if \<exists>(j, r) \<in> set (fst k). (j = 1 \<or> j = 2) \<and> rt_Dst r = Some n then (k, NlExist)
        else (((i, \<lparr>rt_no = length (fst k), rt_Dst = Some n\<rparr>) # fst k, snd k), NlOk)),
      nl_RouteDel = (\<lambda>k r. ((filter (\<lambda>(j, r'). r' \<noteq> r) (fst k), snd k), NlOk)),
      wgctrl_Configure = (\<lambda>k name cfg. ((fst k, dcf_Peers cfg), True))\<rparr>"

definition demo_table :: "demo_kernel \<Rightarrow> string \<Rightarrow> nl_route set" where
  "demo_table k name = {r. \<exists>i. demo_link name = NlLink i \<and> (i, r) \<in> set (fst k)}"

definition demo_wg_peers :: "demo_kernel \<Rightarrow> string \<Rightarrow> peer_config list" where
  "demo_wg_peers k name = snd k"

lemma demo_link_iff: "demo_link name = NlLink i \<longleftrightarrow> name = ''wg0'' \<and> i = 1 \<or> name = ''eth0'' \<and> i = 2"
  by (auto simp: demo_link_def)

lemma demo_table_cases: "demo_table k ''wg0'' = {r. (1, r) \<in> set (fst k)}" "demo_table k ''eth0'' = {r. (2, r) \<in> set (fst k)}"
  "name \<noteq> ''wg0'' \<Longrightarrow> name \<noteq> ''eth0'' \<Longrightarrow> demo_table k name = {}"
  by (auto simp: demo_table_def demo_link_iff)

lemma demo_RouteAdd:
  assumes "demo_link name = NlLink i" and "nl_RouteAdd demo_netlink k i n = (k', r)"
  shows "(\<forall>other. other \<noteq> name \<longrightarrow> demo_table k' other = demo_table k other) \<and>
    (r = NlOk \<longrightarrow> (\<exists>x. prefixFromIPNet (rt_Dst x) = prefixFromIPNet (Some n) \<and> demo_table k' name = insert x (demo_table k name))) \<and>
    (r = NlExist \<longrightarrow> (\<exists>any. \<exists>x \<in> demo_table k any. prefixFromIPNet (rt_Dst x) = prefixFromIPNet (Some n)) \<and> demo_table k' name = demo_table k name)"
proof (cases "\<exists>(j, r) \<in> set (fst k). (j = 1 \<or> j = 2) \<and> rt_Dst r = Some n")
  case True
  then obtain j x where x: "(j, x) \<in> set (fst k)" "j = 1 \<or> j = 2" "rt_Dst x = Some n" by auto
  then have "x \<in> demo_table k (if j = 1 then ''wg0'' else ''eth0'')" by (auto simp: demo_table_cases)
  moreover have "k' = k" "r = NlExist" using assms(2) True by (auto simp: demo_netlink_def)
  moreover have "prefixFromIPNet (rt_Dst x) = prefixFromIPNet (Some n)" using x(3) by simp
  ultimately show ?thesis by blast
next
  case False
  then have "k' = ((i, \<lparr>rt_no = length (fst k), rt_Dst = Some n\<rparr>) # fst k, snd k)" "r = NlOk"
    using assms(2) by (auto simp: demo_netlink_def)
  then show ?thesis using assms(1)
    by (auto simp: demo_table_def demo_link_iff intro!: exI [of _ "\<lparr>rt_no = length (fst k), rt_Dst = Some n\<rparr>"])
qed

lemma demo_netlink_ok: "netlink_ok demo_netlink demo_table demo_wg_peers"
  unfolding netlink_ok_def
proof (intro conjI)
  show "\<forall>k name i n k' r. nl_LinkByName demo_netlink k name = NlLink i \<longrightarrow> nl_RouteAdd demo_netlink k i n = (k', r) \<longrightarrow>
        (\<forall>other. other \<noteq> name \<longrightarrow> demo_table k' other = demo_table k other) \<and>
        (r = NlOk \<longrightarrow> (\<exists>x. prefixFromIPNet (rt_Dst x) = prefixFromIPNet (Some n) \<and> demo_table k' name = insert x (demo_table k name))) \<and>
        (r = NlExist \<longrightarrow> (\<exists>any. \<exists>x \<in> demo_table k any. prefixFromIPNet (rt_Dst x) = prefixFromIPNet (Some n)) \<and> demo_table k' name = demo_table k name)"
  proof (intro allI impI)
    fix k name i n k' r
    assume "nl_LinkByName demo_netlink k name = NlLink i"
    then have "demo_link name = NlLink i" by (simp add: demo_netlink_def)
    then show "nl_RouteAdd demo_netlink k i n = (k', r) \<Longrightarrow> (\<forall>other. other \<noteq> name \<longrightarrow> demo_table k' other = demo_table k other) \<and>
        (r = NlOk \<longrightarrow> (\<exists>x. prefixFromIPNet (rt_Dst x) = prefixFromIPNet (Some n) \<and> demo_table k' name = insert x (demo_table k name))) \<and>
        (r = NlExist \<longrightarrow> (\<exists>any. \<exists>x \<in> demo_table k any. prefixFromIPNet (rt_Dst x) = prefixFromIPNet (Some n)) \<and> demo_table k' name = demo_table k name)"
      by (rule demo_RouteAdd)
  qed
qed (auto simp: demo_netlink_def demo_table_def demo_wg_peers_def fun_eq_iff image_iff Bex_def split: if_splits)

text \<open>So the linker provides the interface \<open>platform\<close> on every kernel that keeps netlink's promises.\<close>

locale linux_kernel =
  fixes N :: "'k netlink" and table :: "'k \<Rightarrow> string \<Rightarrow> nl_route set" and peers :: "'k \<Rightarrow> string \<Rightarrow> peer_config list"
  assumes kernel: "netlink_ok N table peers"

sublocale linux_kernel \<subseteq> platform "linux_ops N" "destinations table" peers routable "\<lambda>_. True" "\<lambda>_. True" "routed_elsewhere table"
  using kernel by (rule netlink_platform)

context linux_kernel
begin

lemmas installed_exactly = setup_exact

end

interpretation demo_linux: linux_kernel demo_netlink demo_table demo_wg_peers
  using demo_netlink_ok by (rule linux_kernel.intro)

text \<open>A kernel that drops the routes through a link with the link: deleting the interface leaves none.\<close>

definition no_routes :: "('k \<Rightarrow> string \<Rightarrow> nl_route set) \<Rightarrow> 'k \<Rightarrow> string \<Rightarrow> bool" where
  "no_routes table k name \<longleftrightarrow> table k name = {}"

locale linux_links =
  fixes N :: "'k netlink" and table :: "'k \<Rightarrow> string \<Rightarrow> nl_route set"
  assumes no_link: "nl_LinkByName N k name = NlNoLink \<Longrightarrow> table k name = {}"
    and link_deleted: "nl_LinkByName N k name = NlLink i \<Longrightarrow> nl_LinkDel N k i = (k', NlOk) \<Longrightarrow> table k' name = {}"

sublocale linux_links \<subseteq> removable "linux_ops N" "no_routes table"
  by unfold_locales
    (auto simp: linux_ops_def kernel_Delete_def no_routes_def no_link link_deleted split: nl_link.splits prod.splits)

interpretation demo_links: linux_links demo_netlink demo_table
  by unfold_locales (auto simp: demo_netlink_def demo_table_def)

text \<open>A destination another interface routes already is taken for one this interface routes.\<close>

lemma foreign_route_shadows:
  "let k = ([(2, \<lparr>rt_no = 7, rt_Dst = Some (prefixToIPNet d)\<rparr>)], []) in
   nl_AddRoute demo_netlink k ''wg0'' d = (k, True) \<and> d \<notin> destinations demo_table k ''wg0''"
  by (simp add: nl_AddRoute_def demo_netlink_def demo_link_def destinations_def demo_table_def)

section \<open>Properties\<close>

text \<open>
  C25. Setting the interface up leaves exactly the cluster: if it succeeds, on Linux, the device has
  one peer per node, in order, with its key, its endpoint and its networks and no other peer, and
  the interface routes every node's overlay address and advertised networks and nothing else,
  except possibly this node's own address; whatever was there before is gone. No other interface
  may route one of these destinations already, since adding a route then finds one that exists, and
  none of them may be this node's own address.
\<close>

theorem setup_leaves_exactly_the_cluster:
  assumes "netlink_ok N table peers" and "SetUpInterface (linux_ops N) parse s k nodes = (s', k', None)"
    and "ws_overlayAddr s \<noteq> NoAddr"
    and "\<forall>d \<in> set (concat (map peerPrefixes nodes)). routable d \<and> \<not> routed_elsewhere table k (ws_osName s') d \<and>
      d \<noteq> hostPrefix (ws_overlayAddr s)"
  shows "nodesToPeerConfigs parse s nodes = Inr (peers k' (ws_iface s)) \<and>
    set (concat (map peerPrefixes nodes)) \<subseteq> destinations table k' (ws_osName s') \<and>
    destinations table k' (ws_osName s') \<subseteq> insert (hostPrefix (ws_overlayAddr s)) (set (concat (map peerPrefixes nodes)))"
  using linux_kernel.installed_exactly [OF linux_kernel.intro [OF assms(1)] assms(2,3) TrueI assms(4)] .

definition demo_wg_state :: wg_state where
  "demo_wg_state = \<lparr>ws_iface = ''wg0'', ws_mtu = 1420, ws_keepalive = 0, ws_osName = [], ws_privKey = [1], ws_overlayAddr = Addr4 0x0A000001,
     ws_port = 51820, ws_PubKey = [2]\<rparr>"

definition demo_wg_node :: node where
  "demo_wg_node = \<lparr>meta_overlayAddr = Addr4 0x0A000002, meta_pubKey = ''k'', meta_allowedIPs = [], meta_identity = 2, meta_signature = [],
     node_name = ''b'', node_addr = Addr4 0xC0000202, node_port = 7946\<rparr>"

lemma demo_AddRoute: "snd (lk_AddRoute (linux_ops demo_netlink) k ''wg0'' d)"
  by (auto simp: linux_ops_def nl_AddRoute_def demo_netlink_def demo_link_def split: prod.split)

lemma demo_del_matching: "snd (del_matching demo_netlink d k rs)"
  by (induction rs arbitrary: k) (auto simp: demo_netlink_def)

lemma demo_listRoutes: "listRoutes demo_netlink k ''wg0'' = Some (map snd (filter (\<lambda>(j, r). j = 1) (fst k)))"
  by (simp add: listRoutes_def demo_netlink_def demo_link_def)

lemma demo_DelRoute: "snd (lk_DelRoute (linux_ops demo_netlink) k ''wg0'' d)"
proof -
  note demo_listRoutes
  then show ?thesis using demo_del_matching by (simp add: linux_ops_def nl_DelRoute_def)
qed

lemma demo_add_routes: "snd (add_routes (linux_ops demo_netlink) ''wg0'' k ds) = None"
proof (induction ds arbitrary: k)
  case (Cons d ds)
  then show ?case using demo_AddRoute [of k d] by (cases "lk_AddRoute (linux_ops demo_netlink) k ''wg0'' d") simp
qed simp

lemma demo_del_routes: "snd (del_routes (linux_ops demo_netlink) ''wg0'' wanted k ds) = None"
proof (induction ds arbitrary: k)
  case (Cons d ds)
  then show ?case using demo_DelRoute [of k d] by (cases "lk_DelRoute (linux_ops demo_netlink) k ''wg0'' d") simp
qed simp

lemma demo_ops:
  "dev_Create (linux_ops demo_netlink) k name m = (k, Some name)" "ConfigureDevice (linux_ops demo_netlink) k name cfg = ((fst k, dcf_Peers cfg), True)"
  "lk_SetAddr (linux_ops demo_netlink) k ''wg0'' p = (k, True)" "lk_SetMTU (linux_ops demo_netlink) k ''wg0'' m = (k, True)"
  "lk_Up (linux_ops demo_netlink) k ''wg0'' = (k, True)"
  "lk_Routes (linux_ops demo_netlink) k ''wg0'' =
     Some (List.map_filter (\<lambda>r. prefixFromIPNet (rt_Dst r)) (map snd (filter (\<lambda>(j, r). j = 1) (fst k))))"
  unfolding linux_ops_def nl_Routes_def
  by (simp_all add: kernel_Create_def nl_SetAddr_def nl_SetMTU_def nl_Up_def on_link_def demo_listRoutes)
    (simp_all add: demo_netlink_def demo_link_def)

lemma demo_setup_ok:
  assumes "ws_iface s = ''wg0''"
  shows "snd (snd (SetUpInterface (linux_ops demo_netlink) (\<lambda>_. Some key) s k [n])) = None \<and>
   ws_osName (fst (SetUpInterface (linux_ops demo_netlink) (\<lambda>_. Some key) s k [n])) = ws_iface s"
proof -
  have stale: "snd (removeStaleRoutes (linux_ops demo_netlink) s ''wg0'' wanted k) = None" for s wanted k
    using demo_del_routes by (simp add: removeStaleRoutes_def demo_ops)
  obtain w where "add_routes (linux_ops demo_netlink) ''wg0'' (fst k, [peer_config_of (s\<lparr>ws_osName := ''wg0''\<rparr>) key n]) (peerPrefixes n) = (w, None)"
    using demo_add_routes by (metis surjective_pairing)
  then show ?thesis using stale assms by (simp add: SetUpInterface_def Let_def demo_ops)
qed

theorem setup_leaves_exactly_the_cluster_witness:
  "let k' = fst (snd (SetUpInterface (linux_ops demo_netlink) (\<lambda>_. Some [9]) demo_wg_state
         ([(1, \<lparr>rt_no = 7, rt_Dst = Some (prefixToIPNet (hostPrefix (Addr4 0x0A000009)))\<rparr>)], []) [demo_wg_node]))
   in length (demo_wg_peers k' ''wg0'') = 1 \<and> hostPrefix (Addr4 0x0A000002) \<in> destinations demo_table k' ''wg0'' \<and>
      hostPrefix (Addr4 0x0A000009) \<notin> destinations demo_table k' ''wg0''"
proof -
  let ?r = "SetUpInterface (linux_ops demo_netlink) (\<lambda>_. Some [9]) demo_wg_state
         ([(1, \<lparr>rt_no = 7, rt_Dst = Some (prefixToIPNet (hostPrefix (Addr4 0x0A000009)))\<rparr>)], []) [demo_wg_node]"
  have ok: "snd (snd ?r) = None \<and> ws_osName (fst ?r) = ''wg0''"
    using demo_setup_ok by (simp add: demo_wg_state_def)
  have prefixes: "concat (map peerPrefixes [demo_wg_node]) = [hostPrefix (Addr4 0x0A000002)]"
    by (simp add: peerPrefixes_def demo_wg_node_def)
  have "routable (hostPrefix (Addr4 0x0A000002))" by (simp add: routable_def hostPrefix_def prefix_is_valid_def) (simp add: prefix_from_def)
  moreover have "\<not> routed_elsewhere demo_table ([(1, r)], []) ''wg0'' d" for r d
    by (auto simp: routed_elsewhere_def destinations_def demo_table_def demo_link_iff)
  ultimately have r: "\<forall>d \<in> set (concat (map peerPrefixes [demo_wg_node])). routable d \<and>
      \<not> routed_elsewhere demo_table ([(1, \<lparr>rt_no = 7, rt_Dst = Some (prefixToIPNet (hostPrefix (Addr4 0x0A000009)))\<rparr>)], []) (ws_osName (fst ?r)) d \<and>
      d \<noteq> hostPrefix (ws_overlayAddr demo_wg_state)"
    unfolding prefixes using ok by (simp add: demo_wg_state_def hostPrefix_def prefix_from_def)
  have res: "?r = (fst ?r, fst (snd ?r), None)" "ws_overlayAddr demo_wg_state \<noteq> NoAddr"
    using ok by (simp_all add: prod_eq_iff demo_wg_state_def)
  note facts = setup_leaves_exactly_the_cluster [OF demo_netlink_ok res r]
  have "hostPrefix (Addr4 0x0A000009) \<noteq> hostPrefix (Addr4 0x0A000002)" "hostPrefix (Addr4 0x0A000009) \<noteq> hostPrefix (Addr4 0x0A000001)"
    by (simp_all add: hostPrefix_def prefix_from_def)
  moreover have "nodesToPeerConfigs (\<lambda>_. Some [9]) demo_wg_state [demo_wg_node] = Inr [peer_config_of demo_wg_state [9] demo_wg_node]"
    "ws_iface demo_wg_state = ''wg0''" "ws_overlayAddr demo_wg_state = Addr4 0x0A000001"
    by (simp_all add: demo_wg_state_def)
  ultimately have "[peer_config_of demo_wg_state [9] demo_wg_node] = demo_wg_peers (fst (snd ?r)) ''wg0''"
    "hostPrefix (Addr4 0x0A000002) \<in> destinations demo_table (fst (snd ?r)) ''wg0''"
    "hostPrefix (Addr4 0x0A000009) \<notin> destinations demo_table (fst (snd ?r)) ''wg0''"
    using facts ok unfolding prefixes by auto
  moreover from this(1) have "length (demo_wg_peers (fst (snd ?r)) ''wg0'') = 1" by (metis One_nat_def length_Cons list.size(3))
  ultimately show ?thesis unfolding Let_def by blast
qed

end
