(* ===== verification/Userspace.thy ===== *)
theory Userspace
  imports Wireguard
begin

text \<open>
  The WireGuard device that runs in the agent's own process, \<^verbatim>\<open>internal/wg/userspace.go\<close>, with the
  parts that differ between operating systems (\<^verbatim>\<open>tunname_*.go\<close>, \<^verbatim>\<open>uapi_*.go\<close>) as parameters that the
  platforms fill in. The tun, device and control socket libraries are a record of operations on a
  state of the operating system; the locale \<open>tun_library\<close> is what they document: what is open after
  each call. The device then never leaves an interface, a device or a socket open that it does not
  remember. On Unix the code that opens the control socket is the repository's: the locale
  \<open>unix_library\<close> derives what it promises from the two calls it makes, and shows the file it leaves to
  the garbage collector. Serving the control socket is the libraries' and is left out, and so is logging.
\<close>

section \<open>The device\<close>

text \<open>
  \<open>tl_Stopped\<close> says that a device stopped on its own (its \<^verbatim>\<open>Wait\<close> channel is closed). The last four
  fields are the platform's: the name to create the tun interface as, the control socket, and the
  record of the name the operating system chose.
\<close>

record 'k tun_lib =
  tl_CreateTUN :: "'k \<Rightarrow> string \<Rightarrow> int \<Rightarrow> 'k \<times> nat option"
  tl_Name :: "'k \<Rightarrow> nat \<Rightarrow> string option"
  tl_CloseTUN :: "'k \<Rightarrow> nat \<Rightarrow> 'k"
  tl_NewDevice :: "'k \<Rightarrow> nat \<Rightarrow> 'k \<times> nat"
  tl_Stopped :: "'k \<Rightarrow> nat \<Rightarrow> bool"
  tl_CloseDevice :: "'k \<Rightarrow> nat \<Rightarrow> 'k"
  tl_CloseListener :: "'k \<Rightarrow> nat \<Rightarrow> 'k"
  tl_tunName :: "string \<Rightarrow> string"
  tl_uapiListen :: "'k \<Rightarrow> string \<Rightarrow> 'k \<times> nat option"
  tl_published :: "'k \<Rightarrow> string \<Rightarrow> string \<Rightarrow> 'k \<times> bool"
  tl_unpublished :: "'k \<Rightarrow> string \<Rightarrow> 'k \<times> bool"

record us_device =
  us_dev :: "nat option"
  us_uapi :: "nat option"
  us_osName :: string

datatype us_error = CreatingTun | NamingTun | OpeningControlSocket | RecordingName

definition no_device :: us_device where
  "no_device = \<lparr>us_dev = None, us_uapi = None, us_osName = []\<rparr>"

text \<open>\<^verbatim>\<open>stop\<close>: closes the socket, then the device, and forgets both.\<close>

definition us_stop :: "'k tun_lib \<Rightarrow> 'k \<Rightarrow> us_device \<Rightarrow> 'k \<times> us_device" where
  "us_stop L k u =
     (let k1 = (case us_uapi u of None \<Rightarrow> k | Some ln \<Rightarrow> tl_CloseListener L k ln);
          k2 = (case us_dev u of None \<Rightarrow> k1 | Some dev \<Rightarrow> tl_CloseDevice L k1 dev)
      in (k2, u\<lparr>us_dev := None, us_uapi := None, us_osName := ''''\<rparr>))"

definition us_start :: "'k tun_lib \<Rightarrow> 'k \<Rightarrow> us_device \<Rightarrow> string \<Rightarrow> int \<Rightarrow> 'k \<times> us_device \<times> (us_error + string)" where
  "us_start L k u name mtu =
     (case tl_CreateTUN L k (tl_tunName L name) mtu of
        (k1, None) \<Rightarrow> (k1, u, Inl CreatingTun)
      | (k1, Some tdev) \<Rightarrow>
          (case tl_Name L k1 tdev of
             None \<Rightarrow> (tl_CloseTUN L k1 tdev, u, Inl NamingTun)
           | Some os \<Rightarrow>
               (case tl_NewDevice L k1 tdev of
                  (k2, dev) \<Rightarrow>
                    (case tl_uapiListen L k2 name of
                       (k3, None) \<Rightarrow> (tl_CloseDevice L k3 dev, u, Inl OpeningControlSocket)
                     | (k3, Some ln) \<Rightarrow>
                         (case tl_published L k3 name os of
                            (k4, False) \<Rightarrow> (tl_CloseDevice L (tl_CloseListener L k4 ln) dev, u, Inl RecordingName)
                          | (k4, True) \<Rightarrow> (k4, u\<lparr>us_dev := Some dev, us_uapi := Some ln, us_osName := os\<rparr>, Inr os))))))"

text \<open>\<^verbatim>\<open>Create\<close>: a running device is left alone, one that stopped is replaced.\<close>

definition us_Create :: "'k tun_lib \<Rightarrow> 'k \<Rightarrow> us_device \<Rightarrow> string \<Rightarrow> int \<Rightarrow> 'k \<times> us_device \<times> (us_error + string)" where
  "us_Create L k u name mtu =
     (case us_dev u of
        None \<Rightarrow> us_start L k u name mtu
      | Some dev \<Rightarrow>
          if tl_Stopped L k dev then (case us_stop L k u of (k', u') \<Rightarrow> us_start L k' u' name mtu)
          else (k, u, Inr (us_osName u)))"

definition us_Delete :: "'k tun_lib \<Rightarrow> 'k \<Rightarrow> us_device \<Rightarrow> string \<Rightarrow> 'k \<times> us_device \<times> bool" where
  "us_Delete L k u name =
     (case us_dev u of
        None \<Rightarrow> (k, u, True)
      | Some _ \<Rightarrow> (case us_stop L k u of (k1, u') \<Rightarrow> (case tl_unpublished L k1 name of (k2, ok) \<Rightarrow> (k2, u', ok))))"

text \<open>
  Where the operating system keeps the agent's name there is nothing to record
  (\<^verbatim>\<open>tunname_other.go\<close>). On Unix the control socket is opened and then listened on
  (\<^verbatim>\<open>uapi_unix.go\<close>); \<open>uapi_open\<close> and \<open>uapi_listen\<close> are the library's.
\<close>

definition tunName_other :: "string \<Rightarrow> string" where
  "tunName_other name = name"

definition published_other :: "'k \<Rightarrow> string \<Rightarrow> string \<Rightarrow> 'k \<times> bool" where
  "published_other k name os = (k, True)"

definition unpublished_other :: "'k \<Rightarrow> string \<Rightarrow> 'k \<times> bool" where
  "unpublished_other k name = (k, True)"

definition uapiListen_unix ::
  "('k \<Rightarrow> string \<Rightarrow> 'k \<times> 'f option) \<Rightarrow> ('k \<Rightarrow> string \<Rightarrow> 'f \<Rightarrow> 'k \<times> nat option) \<Rightarrow> 'k \<Rightarrow> string \<Rightarrow> 'k \<times> nat option" where
  "uapiListen_unix uapi_open uapi_listen k name =
     (case uapi_open k name of (k', None) \<Rightarrow> (k', None) | (k', Some f) \<Rightarrow> uapi_listen k' name f)"

text \<open>The device next to the operating system, as the operations of a platform see it.\<close>

record 'k us_world =
  bw_os :: 'k
  bw_dev :: us_device

definition on_os :: "('k \<Rightarrow> 'k \<times> bool) \<Rightarrow> ('k, 'z) us_world_scheme \<Rightarrow> ('k, 'z) us_world_scheme \<times> bool" where
  "on_os f w = (case f (bw_os w) of (k', ok) \<Rightarrow> (w\<lparr>bw_os := k'\<rparr>, ok))"

definition us_world_Create :: "'k tun_lib \<Rightarrow> ('k, 'z) us_world_scheme \<Rightarrow> string \<Rightarrow> int \<Rightarrow> ('k, 'z) us_world_scheme \<times> string option" where
  "us_world_Create L w name mtu =
     (case us_Create L (bw_os w) (bw_dev w) name mtu of
        (k', u', r) \<Rightarrow> (w\<lparr>bw_os := k', bw_dev := u'\<rparr>, case r of Inl _ \<Rightarrow> None | Inr os \<Rightarrow> Some os))"

definition us_world_Delete :: "'k tun_lib \<Rightarrow> ('k, 'z) us_world_scheme \<Rightarrow> string \<Rightarrow> ('k, 'z) us_world_scheme \<times> bool" where
  "us_world_Delete L w name = (case us_Delete L (bw_os w) (bw_dev w) name of (k', u', ok) \<Rightarrow> (w\<lparr>bw_os := k', bw_dev := u'\<rparr>, ok))"

text \<open>Deleted, a device in the process has been closed with its socket and forgotten.\<close>

definition device_closed :: "('k, 'z) us_world_scheme \<Rightarrow> string \<Rightarrow> bool" where
  "device_closed w name \<longleftrightarrow> us_dev (bw_dev w) = None"

lemma us_world_Delete_closed: "us_world_Delete L w name = (w', ok) \<Longrightarrow> device_closed w' name"
  by (auto simp: us_world_Delete_def us_Delete_def us_stop_def Let_def device_closed_def split: prod.splits option.splits)

section \<open>What the libraries promise\<close>

datatype resource = OpenTun nat | OpenDevice nat | OpenSocket nat

text \<open>
  What the process has open: a new tun interface, device or socket is one it did not have, a device
  takes over its tun interface and closes it, and a call that fails opens none of them. \<open>files\<close> are
  the other files it has open; only opening the control socket may leave one there.
\<close>

locale tun_calls =
  fixes L :: "'k tun_lib" and opened :: "'k \<Rightarrow> resource set" and files :: "'k \<Rightarrow> nat set"
  assumes created: "tl_CreateTUN L k n m = (k', Some t) \<Longrightarrow> OpenTun t \<notin> opened k \<and> opened k' = insert (OpenTun t) (opened k)"
    and not_created: "tl_CreateTUN L k n m = (k', None) \<Longrightarrow> opened k' = opened k"
    and closed_tun: "opened (tl_CloseTUN L k t) = opened k - {OpenTun t}"
    and device: "tl_NewDevice L k t = (k', d) \<Longrightarrow> OpenTun t \<in> opened k \<Longrightarrow>
      OpenDevice d \<notin> opened k \<and> opened k' = insert (OpenDevice d) (opened k - {OpenTun t})"
    and closed_device: "opened (tl_CloseDevice L k d) = opened k - {OpenDevice d}"
    and closed_socket: "opened (tl_CloseListener L k l) = opened k - {OpenSocket l}"
    and recorded: "opened (fst (tl_published L k n os)) = opened k" "opened (fst (tl_unpublished L k n)) = opened k"
    and same_files: "files (fst (tl_CreateTUN L k n m)) = files k" "files (tl_CloseTUN L k t) = files k"
      "files (fst (tl_NewDevice L k t)) = files k" "files (tl_CloseDevice L k d) = files k" "files (tl_CloseListener L k l) = files k"
      "files (fst (tl_published L k n os)) = files k" "files (fst (tl_unpublished L k n)) = files k"

locale tun_library = tun_calls +
  assumes listening: "tl_uapiListen L k n = (k', Some l) \<Longrightarrow> OpenSocket l \<notin> opened k \<and> opened k' = insert (OpenSocket l) (opened k)"
    and not_listening: "tl_uapiListen L k n = (k', None) \<Longrightarrow> opened k' = opened k"
    and one_file: "\<exists>f. files (fst (tl_uapiListen L k n)) \<subseteq> insert f (files k)"

text \<open>
  The two calls of \<^verbatim>\<open>uapi_unix.go\<close>: one opens the socket's file, the other makes a listener of it, with
  a descriptor of its own: the file stays the caller's to close.
\<close>

locale unix_uapi =
  fixes uapi_open :: "'k \<Rightarrow> string \<Rightarrow> 'k \<times> nat option" and uapi_listen :: "'k \<Rightarrow> string \<Rightarrow> nat \<Rightarrow> 'k \<times> nat option"
    and opened :: "'k \<Rightarrow> resource set" and files :: "'k \<Rightarrow> nat set"
  assumes file_opened: "uapi_open k n = (k', Some f) \<Longrightarrow> f \<notin> files k \<and> files k' = insert f (files k) \<and> opened k' = opened k"
    and file_not_opened: "uapi_open k n = (k', None) \<Longrightarrow> files k' = files k \<and> opened k' = opened k"
    and listens: "uapi_listen k n f = (k', Some l) \<Longrightarrow>
      files k' = files k \<and> OpenSocket l \<notin> opened k \<and> opened k' = insert (OpenSocket l) (opened k)"
    and not_listens: "uapi_listen k n f = (k', None) \<Longrightarrow> files k' = files k \<and> opened k' = opened k"
begin

text \<open>When the second call fails the file of the first stays open, and nothing remembers it.\<close>

lemma file_left:
  assumes "uapi_open k n = (k1, Some f)" and "uapi_listen k1 n f = (k2, None)"
  shows "uapiListen_unix uapi_open uapi_listen k n = (k2, None) \<and> f \<notin> files k \<and> files k2 = insert f (files k) \<and> opened k2 = opened k"
  using assms file_opened [OF assms(1)] not_listens [OF assms(2)] by (simp add: uapiListen_unix_def)

lemma unix_listens:
  assumes "uapiListen_unix uapi_open uapi_listen k n = (k', r)"
  shows "(\<exists>f. files k' \<subseteq> insert f (files k)) \<and>
    (case r of None \<Rightarrow> opened k' = opened k | Some l \<Rightarrow> OpenSocket l \<notin> opened k \<and> opened k' = insert (OpenSocket l) (opened k))"
proof (cases "uapi_open k n")
  case (Pair k1 fo)
  show ?thesis
  proof (cases fo)
    case None
    then show ?thesis using assms Pair file_not_opened [of k n k1] by (auto simp: uapiListen_unix_def)
  next
    case (Some f)
    then have "uapi_listen k1 n f = (k', r)" using assms Pair by (simp add: uapiListen_unix_def)
    then show ?thesis using Pair Some file_opened [of k n k1 f] listens [of k1 n f k'] not_listens [of k1 n f k'] by (cases r) auto
  qed
qed

end

locale unix_library = tun_calls L opened files + unix_uapi uapi_open uapi_listen opened files
  for L :: "'k tun_lib" and opened files uapi_open uapi_listen +
  assumes unix: "tl_uapiListen L = uapiListen_unix uapi_open uapi_listen"

sublocale unix_library \<subseteq> tun_library L opened files
proof
  fix k n k' l
  show "tl_uapiListen L k n = (k', Some l) \<Longrightarrow> OpenSocket l \<notin> opened k \<and> opened k' = insert (OpenSocket l) (opened k)"
    using unix_listens [of k n k' "Some l"] by (simp add: unix)
  show "tl_uapiListen L k n = (k', None) \<Longrightarrow> opened k' = opened k" using unix_listens [of k n k' None] by (simp add: unix)
  show "\<exists>f. files (fst (tl_uapiListen L k n)) \<subseteq> insert f (files k)" using unix_listens by (metis unix prod.collapse)
qed

text \<open>What a device holds, and that it holds a device and a socket or neither.\<close>

definition held :: "us_device \<Rightarrow> resource set" where
  "held u = (case us_dev u of None \<Rightarrow> {} | Some d \<Rightarrow> {OpenDevice d}) \<union> (case us_uapi u of None \<Rightarrow> {} | Some l \<Rightarrow> {OpenSocket l})"

definition us_wf :: "us_device \<Rightarrow> bool" where
  "us_wf u \<longleftrightarrow> (us_dev u = None \<longleftrightarrow> us_uapi u = None) \<and> (us_dev u = None \<longrightarrow> us_osName u = [])"

lemma held_no_device [simp]: "held no_device = {}" "us_wf no_device" "us_dev no_device = None"
  by (simp_all add: held_def us_wf_def no_device_def)

context tun_library
begin

lemma stop_opened:
  assumes "us_stop L k u = (k', u')"
  shows "opened k' = opened k - held u" and "u' = no_device"
  using assms by (auto simp: us_stop_def Let_def held_def no_device_def closed_device closed_socket split: option.splits)

lemma tun_replaced: "tl_CreateTUN L k n m = (k1, Some t) \<Longrightarrow> tl_NewDevice L k1 t = (k2, d) \<Longrightarrow>
    OpenDevice d \<notin> opened k \<and> opened k2 = insert (OpenDevice d) (opened k)"
  using created [of k n m k1 t] device [of k1 t k2 d] by auto

lemma start_failed:
  assumes "us_start L k u name mtu = (k', u', Inl e)"
  shows "opened k' = opened k \<and> u' = u"
proof -
  obtain k1 tun where k1: "tl_CreateTUN L k (tl_tunName L name) mtu = (k1, tun)" by (cases "tl_CreateTUN L k (tl_tunName L name) mtu")
  show ?thesis
  proof (cases tun)
    case None
    then show ?thesis using assms k1 not_created by (simp add: us_start_def)
  next
    case (Some t)
    note k1 = k1 [unfolded Some]
    obtain k2 d where k2: "tl_NewDevice L k1 t = (k2, d)" by (cases "tl_NewDevice L k1 t")
    obtain k3 l where k3: "tl_uapiListen L k2 name = (k3, l)" by (cases "tl_uapiListen L k2 name")
    note dev = tun_replaced [OF k1 k2]
    consider "tl_Name L k1 t = None" | os where "tl_Name L k1 t = Some os" "l = None"
      | os ln k4 where "tl_Name L k1 t = Some os" "l = Some ln" "tl_published L k3 name os = (k4, False)"
      using assms k1 k2 k3 by (fastforce simp: us_start_def split: option.splits prod.splits bool.splits)
    then show ?thesis
    proof cases
      case 1
      then show ?thesis using assms k1 created [OF k1] by (auto simp: us_start_def closed_tun)
    next
      case 2
      then show ?thesis using assms k1 k2 k3 dev not_listening [of k2 name k3] by (auto simp: us_start_def closed_device)
    next
      case 3
      then have "opened k4 = opened k3" using recorded(1) [of k3 name os] by simp
      then show ?thesis using 3 assms k1 k2 k3 dev listening [of k2 name k3 ln]
        by (auto simp: us_start_def closed_device closed_socket)
    qed
  qed
qed

lemma start_opened:
  assumes "us_start L k u name mtu = (k', u', Inr os)"
  shows "us_wf u' \<and> us_dev u' \<noteq> None \<and> us_osName u' = os \<and> held u' \<inter> opened k = {} \<and> opened k' = opened k \<union> held u'"
proof -
  obtain k1 t k2 d k3 l where steps: "tl_CreateTUN L k (tl_tunName L name) mtu = (k1, Some t)" "tl_NewDevice L k1 t = (k2, d)"
    "tl_uapiListen L k2 name = (k3, Some l)" "tl_published L k3 name os = (k', True)"
    and u': "u' = u\<lparr>us_dev := Some d, us_uapi := Some l, us_osName := os\<rparr>"
    using assms by (auto simp: us_start_def split: prod.splits option.splits bool.splits)
  have "opened k' = opened k3" using recorded(1) [of k3 name os] steps(4) by simp
  moreover note tun_replaced [OF steps(1,2)] listening [OF steps(3)]
  ultimately show ?thesis by (auto simp: u' us_wf_def held_def)
qed

lemma create_opened:
  assumes "us_Create L k u name mtu = (k', u', r)" and "us_wf u" and "held u \<subseteq> opened k"
  shows "us_wf u' \<and> held u' \<subseteq> opened k' \<and> opened k' - held u' = opened k - held u \<and>
    (case r of Inl _ \<Rightarrow> u' = no_device | Inr os \<Rightarrow> us_dev u' \<noteq> None \<and> us_osName u' = os)"
proof -
  have start: "us_wf u' \<and> held u' \<subseteq> opened k' \<and> opened k' - held u' = opened k1 \<and>
      (case r of Inl _ \<Rightarrow> u' = no_device | Inr os \<Rightarrow> us_dev u' \<noteq> None \<and> us_osName u' = os)"
    if "us_start L k1 no_device name mtu = (k', u', r)" for k1
    using that start_failed [of k1 no_device name mtu k' u'] start_opened [of k1 no_device name mtu k' u'] by (cases r) auto
  show ?thesis
  proof (cases "us_dev u")
    case None
    then have "u = no_device" using assms(2) by (simp add: us_wf_def no_device_def)
    then show ?thesis using assms(1) start [of k] by (simp add: us_Create_def)
  next
    case (Some d)
    show ?thesis
    proof (cases "tl_Stopped L k d")
      case True
      obtain k1 u1 where stop: "us_stop L k u = (k1, u1)" by (cases "us_stop L k u")
      then show ?thesis using assms(1) Some True start [of k1] stop_opened [OF stop] by (simp add: us_Create_def)
    next
      case False
      then show ?thesis using assms Some by (auto simp: us_Create_def)
    qed
  qed
qed

lemma delete_opened:
  assumes "us_Delete L k u name = (k', u', ok)" and "us_wf u"
  shows "u' = no_device \<and> opened k' = opened k - held u"
proof (cases "us_dev u")
  case None
  then have "u = no_device" using assms(2) by (simp add: us_wf_def no_device_def)
  then show ?thesis using assms(1) by (simp add: us_Delete_def)
next
  case (Some d)
  obtain k1 u1 where stop: "us_stop L k u = (k1, u1)" by (cases "us_stop L k u")
  then show ?thesis using assms(1) Some stop_opened [OF stop] recorded(2) [of k1 name] by (auto simp: us_Delete_def split: prod.splits)
qed

lemma start_files: "\<exists>f. files (fst (us_start L k u name mtu)) \<subseteq> insert f (files k)"
proof -
  obtain k1 tn where k1: "tl_CreateTUN L k (tl_tunName L name) mtu = (k1, tn)" by (cases "tl_CreateTUN L k (tl_tunName L name) mtu")
  have s1: "files k1 = files k" using same_files(1) [of k "tl_tunName L name" mtu] k1 by simp
  show ?thesis
  proof (cases tn)
    case None
    then show ?thesis using k1 s1 by (auto simp: us_start_def)
  next
    case (Some t)
    obtain k2 d where k2: "tl_NewDevice L k1 t = (k2, d)" by (cases "tl_NewDevice L k1 t")
    have s2: "files k2 = files k" using same_files(3) [of k1 t] k2 s1 by simp
    obtain k3 l where k3: "tl_uapiListen L k2 name = (k3, l)" by (cases "tl_uapiListen L k2 name")
    obtain f where "files k3 \<subseteq> insert f (files k)" using one_file [of k2 name] k3 s2 by auto
    then show ?thesis
      using k1 k2 k3 Some s1 by (intro exI [of _ f]) (auto simp: us_start_def case_prod_beta same_files split: option.split bool.split)
  qed
qed

lemma create_files: "\<exists>f. files (fst (us_Create L k u name mtu)) \<subseteq> insert f (files k)"
proof -
  have "files (fst (us_stop L k u)) = files k" by (simp add: us_stop_def Let_def same_files split: option.split)
  then show ?thesis
    using start_files [of k u name mtu] start_files [of "fst (us_stop L k u)" "snd (us_stop L k u)" name mtu]
    by (auto simp: us_Create_def case_prod_beta split: option.split)
qed

lemma delete_files: "files (fst (us_Delete L k u name)) = files k"
  by (simp add: us_Delete_def us_stop_def Let_def case_prod_beta same_files split: option.split)

end

text \<open>What every call of the libraries does to the system, creating a device does.\<close>

lemma us_Create_frame:
  assumes refl: "\<And>k. R k k" and trans: "\<And>k k' k''. R k k' \<Longrightarrow> R k' k'' \<Longrightarrow> R k k''"
    and tun: "\<And>k n m. R k (fst (tl_CreateTUN L k n m))" "\<And>k t. R k (tl_CloseTUN L k t)"
    and dev: "\<And>k t. R k (fst (tl_NewDevice L k t))" "\<And>k d. R k (tl_CloseDevice L k d)"
    and sock: "\<And>k l. R k (tl_CloseListener L k l)" "\<And>k n. R k (fst (tl_uapiListen L k n))" "\<And>k n os. R k (fst (tl_published L k n os))"
  shows "R k (fst (us_Create L k u name mtu))"
proof -
  have start: "R k (fst (us_start L k u name mtu))" for k u
  proof -
    obtain k1 tn where k1: "tl_CreateTUN L k (tl_tunName L name) mtu = (k1, tn)" by (cases "tl_CreateTUN L k (tl_tunName L name) mtu")
    have s1: "R k k1" using tun(1) [of k "tl_tunName L name" mtu] k1 by simp
    show ?thesis
    proof (cases tn)
      case None
      then show ?thesis using k1 s1 by (simp add: us_start_def)
    next
      case (Some t)
      obtain k2 d where k2: "tl_NewDevice L k1 t = (k2, d)" by (cases "tl_NewDevice L k1 t")
      obtain k3 l where k3: "tl_uapiListen L k2 name = (k3, l)" by (cases "tl_uapiListen L k2 name")
      have s2: "R k k2" using trans [OF s1] dev(1) [of k1 t] k2 by simp
      have s3: "R k k3" using trans [OF s2] sock(2) [of k2 name] k3 by simp
      have s4: "R k (fst (tl_published L k3 name os))" for os using trans [OF s3 sock(3)] .
      have "R k (tl_CloseTUN L k1 t)" "R k (tl_CloseDevice L k3 d)"
        "R k (tl_CloseDevice L (tl_CloseListener L (fst (tl_published L k3 name os)) ln) d)" for os ln
        using trans [OF s1 tun(2)] trans [OF s3 dev(2)] trans [OF trans [OF s4 sock(1)] dev(2)] by blast+
      then show ?thesis using k1 k2 k3 Some s4 by (auto simp: us_start_def case_prod_beta split: option.split bool.split)
    qed
  qed
  have "R k (fst (us_stop L k u))"
    using trans [OF sock(1) dev(2)] dev(2) sock(1) refl by (auto simp: us_stop_def Let_def split: option.split)
  from trans [OF this start] show ?thesis using start refl by (simp add: us_Create_def case_prod_beta split: option.split)
qed

section \<open>Properties\<close>

text \<open>
  The states a device goes through: any sequence of \<^verbatim>\<open>Create\<close>, here counted, and \<^verbatim>\<open>Delete\<close>, with
  whatever else changes in the operating system in between, the device stopping on its own and the
  garbage collector closing forgotten files included.
\<close>

inductive us_reach :: "'k tun_lib \<Rightarrow> ('k \<Rightarrow> resource set) \<Rightarrow> ('k \<Rightarrow> nat set) \<Rightarrow> 'k \<Rightarrow> nat \<Rightarrow> 'k \<Rightarrow> us_device \<Rightarrow> bool"
  for L opened files k0 where
  fresh: "us_reach L opened files k0 0 k0 no_device"
| create: "us_reach L opened files k0 n k u \<Longrightarrow> us_Create L k u name mtu = (k', u', r) \<Longrightarrow> us_reach L opened files k0 (Suc n) k' u'"
| delete: "us_reach L opened files k0 n k u \<Longrightarrow> us_Delete L k u name = (k', u', ok) \<Longrightarrow> us_reach L opened files k0 n k' u'"
| meanwhile: "us_reach L opened files k0 n k u \<Longrightarrow> opened k' = opened k \<Longrightarrow> files k' \<subseteq> files k \<Longrightarrow> us_reach L opened files k0 n k' u"

lemma one_more_file:
  assumes "finite (A - C)" and "card (A - C) \<le> n" and "B \<subseteq> insert f A"
  shows "finite (B - C) \<and> card (B - C) \<le> Suc n"
proof -
  have sub: "B - C \<subseteq> insert f (A - C)" using assms(3) by auto
  moreover have "card (insert f (A - C)) \<le> Suc n" using assms(1,2) card_insert_le_m1 [of "Suc n" "A - C" f] by simp
  ultimately show ?thesis using assms(1) card_mono [OF _ sub] by (auto intro: finite_subset)
qed

text \<open>
  C28. The device in the process leaks no interface, device or socket: however often it is created
  and deleted, whether its tun interface, its control socket or the record of its name fail, and
  whether it stops on its own in between, what the process has open of these beyond what it had at
  the start is exactly the one device and the one control socket it remembers, or nothing. Creating
  it leaves a running device whose name it reports or, on an error, none at all, and deleting it
  leaves nothing open. Of other files at most one for each time it was created is left: on Unix the
  file of the control socket, which the code never closes.
\<close>

theorem device_leaks_nothing:
  assumes "tun_library L opened files" and "us_reach L opened files k0 n k u"
  shows "us_wf u \<and> held u \<inter> opened k0 = {} \<and> opened k = opened k0 \<union> held u \<and>
    finite (files k - files k0) \<and> card (files k - files k0) \<le> n \<and>
    (\<forall>name mtu. case us_Create L k u name mtu of
       (k', u', Inl _) \<Rightarrow> us_dev u' = None \<and> opened k' = opened k0
     | (k', u', Inr os) \<Rightarrow> us_dev u' \<noteq> None \<and> us_osName u' = os) \<and>
    (\<forall>name. case us_Delete L k u name of (k', u', _) \<Rightarrow> us_dev u' = None \<and> opened k' = opened k0)"
proof -
  have inv: "us_wf u \<and> held u \<inter> opened k0 = {} \<and> opened k = opened k0 \<union> held u"
    using assms(2)
  proof (induction rule: us_reach.induct)
    case (create n k u name mtu k' u' r)
    then show ?case using tun_library.create_opened [OF assms(1) create.hyps(2)] by blast
  next
    case (delete n k u name k' u' ok)
    then show ?case using tun_library.delete_opened [OF assms(1) delete.hyps(2)] by auto
  qed simp_all
  have left: "finite (files k - files k0) \<and> card (files k - files k0) \<le> n"
    using assms(2)
  proof (induction rule: us_reach.induct)
    case (create n k u name mtu k' u' r)
    obtain f where "files k' \<subseteq> insert f (files k)"
      using tun_library.create_files [OF assms(1), of k u name mtu] create.hyps(2) by auto
    with create.IH show ?case by (intro one_more_file) simp_all
  next
    case (delete n k u name k' u' ok)
    then show ?case using tun_library.delete_files [OF assms(1), of k u name] by simp
  next
    case (meanwhile n k u k')
    then have "files k' - files k0 \<subseteq> files k - files k0" by auto
    then show ?case using meanwhile.IH card_mono [of "files k - files k0" "files k' - files k0"] by (auto intro: finite_subset)
  qed simp
  have create: "case us_Create L k u name mtu of
       (k', u', Inl _) \<Rightarrow> us_dev u' = None \<and> opened k' = opened k0
     | (k', u', Inr os) \<Rightarrow> us_dev u' \<noteq> None \<and> us_osName u' = os" for name mtu
    using tun_library.create_opened [OF assms(1), of k u name mtu] inv by (fastforce split: prod.splits sum.splits)
  have delete: "case us_Delete L k u name of (k', u', _) \<Rightarrow> us_dev u' = None \<and> opened k' = opened k0" for name
    using tun_library.delete_opened [OF assms(1), of k u name] inv by (auto split: prod.splits)
  show ?thesis using inv left create delete by (intro conjI allI) simp_all
qed

section \<open>A concrete library\<close>

text \<open>
  What is open is a list, next to the rest of the operating system; \<open>os\<close> is the name it gives the
  interface, \<open>stopped\<close> the devices that stopped, and \<open>ok\<close> says whether the name can be recorded.
\<close>

fun resource_no :: "resource \<Rightarrow> nat" where
  "resource_no (OpenTun n) = n"
| "resource_no (OpenDevice n) = n"
| "resource_no (OpenSocket n) = n"

definition unused :: "resource list \<Rightarrow> nat" where
  "unused rs = Suc (sum_list (map resource_no rs))"

lemma unused_fresh: "OpenTun (unused rs) \<notin> set rs" "OpenDevice (unused rs) \<notin> set rs" "OpenSocket (unused rs) \<notin> set rs"
  using member_le_sum_list [of _ "map resource_no rs"] by (fastforce simp: unused_def)+

definition demo_tun :: "string \<Rightarrow> nat set \<Rightarrow> bool \<Rightarrow> (resource list \<times> 'x) tun_lib" where
  "demo_tun os stopped ok =
     \<lparr>tl_CreateTUN = (\<lambda>k n m. ((OpenTun (unused (fst k)) # fst k, snd k), Some (unused (fst k)))),
      tl_Name = (\<lambda>k t. Some os), tl_CloseTUN = (\<lambda>k t. (removeAll (OpenTun t) (fst k), snd k)),
      tl_NewDevice = (\<lambda>k t. ((OpenDevice (unused (fst k)) # removeAll (OpenTun t) (fst k), snd k), unused (fst k))),
      tl_Stopped = (\<lambda>k d. d \<in> stopped), tl_CloseDevice = (\<lambda>k d. (removeAll (OpenDevice d) (fst k), snd k)),
      tl_CloseListener = (\<lambda>k l. (removeAll (OpenSocket l) (fst k), snd k)), tl_tunName = (\<lambda>n. n),
      tl_uapiListen = (\<lambda>k n. ((OpenSocket (unused (fst k)) # fst k, snd k), Some (unused (fst k)))),
      tl_published = (\<lambda>k n os. (k, ok)), tl_unpublished = (\<lambda>k n. (k, ok))\<rparr>"

lemma demo_tun_library: "tun_library (demo_tun os stopped ok) (\<lambda>k. set (fst k)) (\<lambda>_. {})"
  by unfold_locales (auto simp: demo_tun_def unused_fresh)

interpretation demo_tun: tun_library "demo_tun os stopped ok" "\<lambda>k. set (fst k)" "\<lambda>_. {}"
  by (rule demo_tun_library)

text \<open>The same on Unix, with the files that are open; \<open>listens\<close> says whether the second call succeeds.\<close>

definition demo_open :: "resource list \<times> nat list \<Rightarrow> string \<Rightarrow> (resource list \<times> nat list) \<times> nat option" where
  "demo_open k n = ((fst k, Suc (sum_list (snd k)) # snd k), Some (Suc (sum_list (snd k))))"

definition demo_listen :: "bool \<Rightarrow> resource list \<times> nat list \<Rightarrow> string \<Rightarrow> nat \<Rightarrow> (resource list \<times> nat list) \<times> nat option" where
  "demo_listen listens k n f = (if listens then ((OpenSocket (unused (fst k)) # fst k, snd k), Some (unused (fst k))) else (k, None))"

definition demo_unix :: "string \<Rightarrow> nat set \<Rightarrow> bool \<Rightarrow> (resource list \<times> nat list) tun_lib" where
  "demo_unix os stopped listens = (demo_tun os stopped True)\<lparr>tl_uapiListen := uapiListen_unix demo_open (demo_listen listens)\<rparr>"

lemma file_fresh: "Suc (sum_list ns) \<notin> set ns"
  using member_le_sum_list [of _ ns] by fastforce

interpretation demo_unix: unix_library "demo_unix os stopped listens" "\<lambda>k. set (fst k)" "\<lambda>k. set (snd k)" demo_open "demo_listen listens"
  by unfold_locales (auto simp: demo_unix_def demo_tun_def unused_fresh demo_open_def demo_listen_def file_fresh split: if_splits)

theorem device_leaks_nothing_witness:
  "let L = demo_unix ''wg0'' {} False; k = ([OpenSocket 3], []) in
   \<exists>k'. us_Create L k no_device ''wg0'' 1420 = (k', no_device, Inl OpeningControlSocket) \<and>
     set (fst k') = {OpenSocket 3} \<and> card (set (snd k')) \<le> 1 \<and> snd k' = [1]"
proof -
  let ?L = "demo_unix ''wg0'' {} False" and ?k = "([OpenSocket 3], [])" and ?k' = "([OpenSocket 3], [1])"
  have run: "us_Create ?L ?k no_device ''wg0'' 1420 = (?k', no_device, Inl OpeningControlSocket)"
    by (simp add: us_Create_def us_start_def demo_unix_def demo_tun_def unused_def uapiListen_unix_def demo_open_def demo_listen_def)
  have "us_reach ?L (\<lambda>k. set (fst k)) (\<lambda>k. set (snd k)) ?k (Suc 0) ?k' no_device"
    by (rule us_reach.create [OF us_reach.fresh run])
  from device_leaks_nothing [OF demo_unix.tun_library_axioms this]
  have "set (fst ?k') = {OpenSocket 3} \<and> card (set (snd ?k')) \<le> 1" by simp
  then show ?thesis using run unfolding Let_def by (intro exI [of _ ?k']) simp
qed

end
