(* ===== verification/Link_Linux_User.thy ===== *)
theory Link_Linux_User
  imports Link_Linux Userspace
begin

text \<open>
  Linux without a kernel device, \<^verbatim>\<open>internal/wg/link_linux.go\<close>: where the kernel has no WireGuard, or the
  other device is asked for, the device runs in the agent's process on a tun interface and the stack
  is still driven over netlink. The two together are an instance of the locale \<open>platform\<close>, with the
  control socket opened as \<^verbatim>\<open>uapi_unix.go\<close> does.
\<close>

section \<open>The platform\<close>

definition linux_user_lib ::
  "('k \<Rightarrow> string \<Rightarrow> 'k \<times> nat option) \<Rightarrow> ('k \<Rightarrow> string \<Rightarrow> nat \<Rightarrow> 'k \<times> nat option) \<Rightarrow> 'k tun_lib \<Rightarrow> 'k tun_lib" where
  "linux_user_lib uapi_open uapi_listen L =
     L\<lparr>tl_tunName := tunName_other, tl_uapiListen := uapiListen_unix uapi_open uapi_listen, tl_published := published_other,
       tl_unpublished := unpublished_other\<rparr>"

definition linux_user_ops :: "'k netlink \<Rightarrow> 'k tun_lib \<Rightarrow> 'k us_world platform_ops" where
  "linux_user_ops N L =
     \<lparr>dev_Create = us_world_Create L, dev_Delete = us_world_Delete L,
      ConfigureDevice = (\<lambda>w iface cfg. on_os (\<lambda>k. wgctrl_Configure N k iface cfg) w),
      lk_SetAddr = (\<lambda>w os p. on_os (\<lambda>k. nl_SetAddr N k os p) w), lk_SetMTU = (\<lambda>w os m. on_os (\<lambda>k. nl_SetMTU N k os m) w),
      lk_Up = (\<lambda>w os. on_os (\<lambda>k. nl_Up N k os) w), lk_Addrs = (\<lambda>w. nl_Addrs N (bw_os w)), lk_Routes = (\<lambda>w. nl_Routes N (bw_os w)),
      lk_AddRoute = (\<lambda>w os d. on_os (\<lambda>k. nl_AddRoute N k os d) w), lk_DelRoute = (\<lambda>w os d. on_os (\<lambda>k. nl_DelRoute N k os d) w)\<rparr>"

section \<open>An instance of the interface\<close>

text \<open>What the libraries do to the routing table: devices, tun interfaces and sockets bring no routes.\<close>

definition fewer_routes :: "('k \<Rightarrow> string \<Rightarrow> nl_route set) \<Rightarrow> 'k \<Rightarrow> 'k \<Rightarrow> bool" where
  "fewer_routes table k k' \<longleftrightarrow> (\<forall>name. table k' name \<subseteq> table k name)"

lemma fewer_elsewhere: "fewer_routes table k k' \<Longrightarrow> routed_elsewhere table k' os d \<Longrightarrow> routed_elsewhere table k os d"
  by (fastforce simp: fewer_routes_def routed_elsewhere_def destinations_def)

locale linux_user = linux_kernel N table peers
  for N :: "'k netlink" and table :: "'k \<Rightarrow> string \<Rightarrow> nl_route set" and peers :: "'k \<Rightarrow> string \<Rightarrow> peer_config list" +
  fixes L :: "'k tun_lib" and uapi_open :: "'k \<Rightarrow> string \<Rightarrow> 'k \<times> nat option" and uapi_listen :: "'k \<Rightarrow> string \<Rightarrow> nat \<Rightarrow> 'k \<times> nat option"
  assumes tun_routes: "fewer_routes table k (fst (tl_CreateTUN L k n m))" "fewer_routes table k (tl_CloseTUN L k t)"
    and device_routes: "fewer_routes table k (fst (tl_NewDevice L k t))" "fewer_routes table k (tl_CloseDevice L k t)"
    and socket_routes: "fewer_routes table k (tl_CloseListener L k l)" "fewer_routes table k (fst (uapi_open k n))"
      "fewer_routes table k (fst (uapi_listen k n f))"
begin

abbreviation user_lib :: "'k tun_lib" where
  "user_lib \<equiv> linux_user_lib uapi_open uapi_listen L"

lemma fewer_trans: "fewer_routes table k k' \<Longrightarrow> fewer_routes table k' k'' \<Longrightarrow> fewer_routes table k k''"
  unfolding fewer_routes_def by blast

lemma create_routes: "fewer_routes table (bw_os w) (bw_os (fst (us_world_Create user_lib w name mtu)))"
proof -
  have listen: "fewer_routes table k (fst (uapiListen_unix uapi_open uapi_listen k n))" for k n
    using socket_routes(2) [of k n] fewer_trans [OF socket_routes(2) socket_routes(3), of k n n]
    by (auto simp: uapiListen_unix_def split: prod.splits option.splits)
  have "fewer_routes table k (fst (us_Create user_lib k u name mtu))" for k u
    by (rule us_Create_frame [of "fewer_routes table"])
      (use tun_routes device_routes socket_routes(1) listen in \<open>simp_all add: linux_user_lib_def published_other_def fewer_routes_def\<close>,
       blast intro: order_trans)
  then show ?thesis by (simp add: us_world_Create_def case_prod_beta)
qed

lemma on_kernel:
  "lk_SetAddr (linux_user_ops N user_lib) w os p = on_os (\<lambda>k. lk_SetAddr (linux_ops N) k os p) w"
  "lk_SetMTU (linux_user_ops N user_lib) w os m = on_os (\<lambda>k. lk_SetMTU (linux_ops N) k os m) w"
  "lk_Up (linux_user_ops N user_lib) w os = on_os (\<lambda>k. lk_Up (linux_ops N) k os) w"
  "lk_AddRoute (linux_user_ops N user_lib) w os p = on_os (\<lambda>k. lk_AddRoute (linux_ops N) k os p) w"
  "lk_DelRoute (linux_user_ops N user_lib) w os p = on_os (\<lambda>k. lk_DelRoute (linux_ops N) k os p) w"
  "lk_Routes (linux_user_ops N user_lib) w os = lk_Routes (linux_ops N) (bw_os w) os"
  "ConfigureDevice (linux_user_ops N user_lib) w iface cfg = on_os (\<lambda>k. ConfigureDevice (linux_ops N) k iface cfg) w"
  by (simp_all add: linux_user_ops_def linux_ops_def)

lemma user_platform:
  "platform (linux_user_ops N user_lib) (\<lambda>w. destinations table (bw_os w)) (\<lambda>w. peers (bw_os w)) routable (\<lambda>_. True) (\<lambda>_. True)
    (\<lambda>w. routed_elsewhere table (bw_os w))"
proof
  fix w os d w'
  show "True \<Longrightarrow> lk_AddRoute (linux_user_ops N user_lib) w os d = (w', True) \<Longrightarrow> routable d \<Longrightarrow> \<not> routed_elsewhere table (bw_os w) os d \<Longrightarrow>
      destinations table (bw_os w') os = insert d (destinations table (bw_os w) os)"
    using added [where os = os and w = "bw_os w"] by (auto simp: on_kernel on_os_def split: prod.splits)
  show "True \<Longrightarrow> lk_DelRoute (linux_user_ops N user_lib) w os d = (w', True) \<Longrightarrow> True \<Longrightarrow>
      destinations table (bw_os w') os = destinations table (bw_os w) os - {d}"
    using deleted [where os = os and w = "bw_os w"] by (auto simp: on_kernel on_os_def split: prod.splits)
next
  fix w os rs
  show "True \<Longrightarrow> lk_Routes (linux_user_ops N user_lib) w os = Some rs \<Longrightarrow> destinations table (bw_os w) os \<subseteq> set rs \<and> (\<forall>d \<in> set rs. True)"
    using listed [where os = os and w = "bw_os w"] by (simp add: on_kernel)
next
  fix w iface cfg w'
  show "ConfigureDevice (linux_user_ops N user_lib) w iface cfg = (w', True) \<Longrightarrow> dcf_ReplacePeers cfg \<Longrightarrow> peers (bw_os w') iface = dcf_Peers cfg"
    using configured [where w = "bw_os w"] by (auto simp: on_kernel on_os_def split: prod.splits)
next
  fix w os p m
  let ?P = "linux_user_ops N user_lib"
  show "peers (bw_os (fst (lk_SetAddr ?P w os p))) = peers (bw_os w)" "peers (bw_os (fst (lk_SetMTU ?P w os m))) = peers (bw_os w)"
    "peers (bw_os (fst (lk_Up ?P w os))) = peers (bw_os w)" "peers (bw_os (fst (lk_AddRoute ?P w os p))) = peers (bw_os w)"
    "peers (bw_os (fst (lk_DelRoute ?P w os p))) = peers (bw_os w)"
    by (simp_all add: on_kernel on_os_def case_prod_beta peers_kept)
next
  fix w os p m d w' iface cfg a
  let ?P = "linux_user_ops N user_lib" and ?away = "\<lambda>w. routed_elsewhere table (bw_os w) os d"
  have "fewer_routes table (bw_os w) (bw_os (fst (dev_Create ?P w iface m)))" using create_routes by (simp add: linux_user_ops_def)
  then show "dev_Create ?P w iface m = (w', Some os) \<Longrightarrow> ?away w' \<Longrightarrow> ?away w" using fewer_elsewhere by fastforce
  show "?away (fst (ConfigureDevice ?P w iface cfg)) \<Longrightarrow> ?away w"
    using not_elsewhere(2) [where w = "bw_os w"] by (simp add: on_kernel on_os_def case_prod_beta)
  show "?away (fst (lk_SetAddr ?P w os (hostPrefix a))) \<Longrightarrow> a \<noteq> NoAddr \<Longrightarrow> routable d \<Longrightarrow> d \<noteq> hostPrefix a \<Longrightarrow> ?away w"
    using not_elsewhere(3) [where w = "bw_os w"] by (simp add: on_kernel on_os_def case_prod_beta)
  show "?away (fst (lk_SetMTU ?P w os m)) \<Longrightarrow> routable d \<Longrightarrow> ?away w"
    using not_elsewhere(4) [where w = "bw_os w"] by (simp add: on_kernel on_os_def case_prod_beta)
  show "?away (fst (lk_Up ?P w os)) \<Longrightarrow> routable d \<Longrightarrow> ?away w"
    using not_elsewhere(5) [where w = "bw_os w"] by (simp add: on_kernel on_os_def case_prod_beta)
  show "?away (fst (lk_AddRoute ?P w os p)) \<Longrightarrow> ?away w"
    using not_elsewhere(6) [where w = "bw_os w"] by (simp add: on_kernel on_os_def case_prod_beta)
qed

lemma user_removable: "removable (linux_user_ops N user_lib) device_closed"
  by unfold_locales (simp add: linux_user_ops_def us_world_Delete_closed)

text \<open>So setting the interface up leaves exactly the cluster with this device too.\<close>

lemmas user_installed_exactly = platform.setup_exact [OF user_platform]

end

section \<open>A concrete system\<close>

text \<open>The kernel of the other device next to what the process has open.\<close>

type_synonym demo_user_kernel = "resource list \<times> demo_kernel"

definition beside :: "(demo_kernel \<Rightarrow> demo_kernel \<times> 'r) \<Rightarrow> demo_user_kernel \<Rightarrow> demo_user_kernel \<times> 'r" where
  "beside f k = (case f (snd k) of (k', r) \<Rightarrow> ((fst k, k'), r))"

definition demo_user_netlink :: "demo_user_kernel netlink" where
  "demo_user_netlink =
     \<lparr>nl_LinkByName = (\<lambda>k. nl_LinkByName demo_netlink (snd k)), nl_LinkAdd = (\<lambda>k n. beside (\<lambda>k. nl_LinkAdd demo_netlink k n) k),
      nl_LinkDel = (\<lambda>k i. beside (\<lambda>k. nl_LinkDel demo_netlink k i) k), nl_AddrReplace = (\<lambda>k i n. beside (\<lambda>k. nl_AddrReplace demo_netlink k i n) k),
      nl_LinkSetMTU = (\<lambda>k i m. beside (\<lambda>k. nl_LinkSetMTU demo_netlink k i m) k), nl_LinkSetUp = (\<lambda>k i. beside (\<lambda>k. nl_LinkSetUp demo_netlink k i) k),
      nl_AddrList = (\<lambda>k. nl_AddrList demo_netlink (snd k)), nl_RouteList = (\<lambda>k. nl_RouteList demo_netlink (snd k)),
      nl_RouteAdd = (\<lambda>k i n. beside (\<lambda>k. nl_RouteAdd demo_netlink k i n) k), nl_RouteDel = (\<lambda>k r. beside (\<lambda>k. nl_RouteDel demo_netlink k r) k),
      wgctrl_Configure = (\<lambda>k n c. beside (\<lambda>k. wgctrl_Configure demo_netlink k n c) k)\<rparr>"

lemma beside_eq: "beside f k = (k', r) \<longleftrightarrow> f (snd k) = (snd k', r) \<and> fst k' = fst k"
  by (cases k') (auto simp: beside_def split: prod.split)

lemma beside_snd [simp]: "snd (fst (beside f k)) = fst (f (snd k))"
  by (simp add: beside_def case_prod_beta)

lemma demo_user_calls:
  "nl_LinkByName demo_user_netlink k n = demo_link n" "nl_RouteList demo_user_netlink k = nl_RouteList demo_netlink (snd k)"
  "nl_RouteAdd demo_user_netlink k i net = beside (\<lambda>k. nl_RouteAdd demo_netlink k i net) k"
  "nl_RouteDel demo_user_netlink k r = beside (\<lambda>k. nl_RouteDel demo_netlink k r) k"
  "wgctrl_Configure demo_user_netlink k n c = beside (\<lambda>k. wgctrl_Configure demo_netlink k n c) k"
  "nl_LinkAdd demo_user_netlink k n = beside (\<lambda>k. nl_LinkAdd demo_netlink k n) k"
  "nl_AddrReplace demo_user_netlink k i net = beside (\<lambda>k. nl_AddrReplace demo_netlink k i net) k"
  "nl_LinkSetMTU demo_user_netlink k i m = beside (\<lambda>k. nl_LinkSetMTU demo_netlink k i m) k"
  "nl_LinkSetUp demo_user_netlink k i = beside (\<lambda>k. nl_LinkSetUp demo_netlink k i) k"
  by (simp_all add: demo_user_netlink_def, simp add: demo_netlink_def)

lemma demo_user_netlink_ok: "netlink_ok demo_user_netlink (\<lambda>k. demo_table (snd k)) (\<lambda>k. demo_wg_peers (snd k))"
proof -
  note ok = demo_netlink_ok
  have link: "nl_LinkByName demo_netlink k n = demo_link n" for k n by (simp add: demo_netlink_def)
  note others = netlink_others [OF ok, unfolded link]
  show ?thesis
    unfolding netlink_ok_def demo_user_calls beside_eq beside_snd
  proof (intro conjI)
    show "\<forall>k name i n k' r. demo_link name = NlLink i \<longrightarrow> nl_RouteAdd demo_netlink (snd k) i n = (snd k', r) \<and> fst k' = fst k \<longrightarrow>
        (\<forall>other. other \<noteq> name \<longrightarrow> demo_table (snd k') other = demo_table (snd k) other) \<and>
        (r = NlOk \<longrightarrow> (\<exists>x. prefixFromIPNet (rt_Dst x) = prefixFromIPNet (Some n) \<and> demo_table (snd k') name = insert x (demo_table (snd k) name))) \<and>
        (r = NlExist \<longrightarrow> (\<exists>any. \<exists>x \<in> demo_table (snd k) any. prefixFromIPNet (rt_Dst x) = prefixFromIPNet (Some n)) \<and>
          demo_table (snd k') name = demo_table (snd k) name)"
      using demo_RouteAdd by blast
    show "\<forall>k name i rs. demo_link name = NlLink i \<longrightarrow> nl_RouteList demo_netlink (snd k) i = Some rs \<longrightarrow> set rs = demo_table (snd k) name"
      using netlink_list [OF ok, unfolded link] by blast
    show "\<forall>k x k' r name. nl_RouteDel demo_netlink (snd k) x = (snd k', r) \<and> fst k' = fst k \<longrightarrow> r = NlOk \<or> r = NlNotExist \<longrightarrow>
        demo_table (snd k') name = demo_table (snd k) name - {x}"
      using netlink_del [OF ok] by blast
  qed (simp_all add: others netlink_keeps [OF ok], simp add: demo_netlink_def demo_wg_peers_def)
qed

lemma demo_user_routes: "snd (fst k') = snd k \<Longrightarrow> fewer_routes (\<lambda>k. demo_table (snd k)) k (fst k')"
  by (simp add: fewer_routes_def)

definition demo_user_open :: "demo_user_kernel \<Rightarrow> string \<Rightarrow> demo_user_kernel \<times> nat option" where
  "demo_user_open k n = (k, Some 1)"

definition demo_user_listen :: "demo_user_kernel \<Rightarrow> string \<Rightarrow> nat \<Rightarrow> demo_user_kernel \<times> nat option" where
  "demo_user_listen k n f = ((OpenSocket (unused (fst k)) # fst k, snd k), Some (unused (fst k)))"

interpretation demo_user: linux_user demo_user_netlink "\<lambda>k. demo_table (snd k)" "\<lambda>k. demo_wg_peers (snd k)" "demo_tun ''wg0'' {} True"
  demo_user_open demo_user_listen
proof (intro linux_user.intro linux_kernel.intro linux_user_axioms.intro)
  show "netlink_ok demo_user_netlink (\<lambda>k. demo_table (snd k)) (\<lambda>k. demo_wg_peers (snd k))" by (rule demo_user_netlink_ok)
qed (simp_all add: fewer_routes_def demo_tun_def demo_user_open_def demo_user_listen_def)

end
