(* ===== verification/Go_Text.thy ===== *)
theory Go_Text
  imports Prelude "HOL-Library.Sublist"
begin

text \<open>
  What the program uses of Go's \<^verbatim>\<open>strings\<close> and \<^verbatim>\<open>bufio\<close> on text: white space as \<^verbatim>\<open>unicode.IsSpace\<close> has
  it, in UTF-8, and trimming, splitting into fields and into lines. A string is its bytes. The
  encodings of the white space runes start with a byte that occurs in no other position of a valid
  encoding, so looking for them byte by byte finds what decoding rune by rune finds.
\<close>

section \<open>White space\<close>

definition space_runes :: "string list" where
  "space_runes =
     [[CHR 0x09], [CHR 0x0A], [CHR 0x0B], [CHR 0x0C], [CHR 0x0D], [CHR 0x20],
      [CHR 0xC2, CHR 0x85], [CHR 0xC2, CHR 0xA0], [CHR 0xE1, CHR 0x9A, CHR 0x80],
      [CHR 0xE2, CHR 0x80, CHR 0x80], [CHR 0xE2, CHR 0x80, CHR 0x81], [CHR 0xE2, CHR 0x80, CHR 0x82], [CHR 0xE2, CHR 0x80, CHR 0x83],
      [CHR 0xE2, CHR 0x80, CHR 0x84], [CHR 0xE2, CHR 0x80, CHR 0x85], [CHR 0xE2, CHR 0x80, CHR 0x86], [CHR 0xE2, CHR 0x80, CHR 0x87],
      [CHR 0xE2, CHR 0x80, CHR 0x88], [CHR 0xE2, CHR 0x80, CHR 0x89], [CHR 0xE2, CHR 0x80, CHR 0x8A],
      [CHR 0xE2, CHR 0x80, CHR 0xA8], [CHR 0xE2, CHR 0x80, CHR 0xA9], [CHR 0xE2, CHR 0x80, CHR 0xAF],
      [CHR 0xE2, CHR 0x81, CHR 0x9F], [CHR 0xE3, CHR 0x80, CHR 0x80]]"

text \<open>The length of the white space rune a string starts with, 0 if there is none.\<close>

definition space_at :: "string list \<Rightarrow> string \<Rightarrow> nat" where
  "space_at runes s = (case List.find (\<lambda>r. prefix r s) runes of None \<Rightarrow> 0 | Some r \<Rightarrow> length r)"

function trim_with :: "string list \<Rightarrow> string \<Rightarrow> string" where
  "trim_with runes s = (if space_at runes s = 0 then s else trim_with runes (drop (space_at runes s) s))"
  by auto
termination
proof (relation "measure (length \<circ> snd)")
  fix runes s
  assume "space_at runes s \<noteq> 0"
  moreover from this have "s \<noteq> []"
    by (auto simp: space_at_def find_Some_iff split: option.splits)
  ultimately show "((runes, drop (space_at runes s) s), runes, s) \<in> measure (length \<circ> snd)" by simp
qed simp

declare trim_with.simps [simp del]

definition TrimLeft :: "string \<Rightarrow> string" where
  "TrimLeft s = trim_with space_runes s"

definition TrimRight :: "string \<Rightarrow> string" where
  "TrimRight s = rev (trim_with (map rev space_runes) (rev s))"

definition TrimSpace :: "string \<Rightarrow> string" where
  "TrimSpace s = TrimRight (TrimLeft s)"

text \<open>\<^verbatim>\<open>strings.Fields\<close>: \<open>fields_from\<close> has the bytes of the current field, in reverse.\<close>

function fields_from :: "string \<Rightarrow> string \<Rightarrow> string list" where
  "fields_from acc [] = (if acc = [] then [] else [rev acc])"
| "fields_from acc (c # cs) =
     (let n = space_at space_runes (c # cs) in
      if n = 0 then fields_from (c # acc) cs
      else (if acc = [] then [] else [rev acc]) @ fields_from [] (drop n (c # cs)))"
  by pat_completeness auto
termination
  by (relation "measure (length \<circ> snd)") auto

definition Fields :: "string \<Rightarrow> string list" where
  "Fields s = fields_from [] s"

definition HasSuffix :: "string \<Rightarrow> string \<Rightarrow> bool" where
  "HasSuffix s t \<longleftrightarrow> suffix t s"

fun Join_strings :: "string list \<Rightarrow> string \<Rightarrow> string" where
  "Join_strings [] sep = ''''"
| "Join_strings [s] sep = s"
| "Join_strings (s # t # ss) sep = s @ sep @ Join_strings (t # ss) sep"

section \<open>Lines\<close>

text \<open>
  \<^verbatim>\<open>bufio.Scanner\<close> with its default split function: the lines without their newline, each without
  one carriage return at its end, a last line without newline included; \<open>None\<close> if a line does not
  fit in the buffer.
\<close>

definition dropCR :: "string \<Rightarrow> string" where
  "dropCR line = (if line \<noteq> [] \<and> last line = CHR 0x0D then butlast line else line)"

definition MaxScanTokenSize :: nat where
  "MaxScanTokenSize = 64 * 1024"

fun split_lines :: "string \<Rightarrow> string \<Rightarrow> string list" where
  "split_lines acc [] = (if acc = [] then [] else [rev acc])"
| "split_lines acc (c # cs) = (if c = CHR 0x0A then rev acc # split_lines [] cs else split_lines (c # acc) cs)"

definition scan_lines :: "string \<Rightarrow> string list option" where
  "scan_lines text =
     (let raw = split_lines [] text in
      if \<exists>l \<in> set raw. MaxScanTokenSize \<le> length l then None else Some (map dropCR raw))"

section \<open>Laws\<close>

lemma space_runes_nonempty: "\<forall>r \<in> set space_runes. r \<noteq> []"
  by (simp add: space_runes_def)

lemma split_lines_unterminated: "CHR 0x0A \<notin> set l \<Longrightarrow> split_lines acc (l @ CHR 0x0A # rest) = (rev acc @ l) # split_lines [] rest"
  by (induction l arbitrary: acc) auto

text \<open>Printing lines and scanning them again.\<close>

definition print_lines :: "string list \<Rightarrow> string" where
  "print_lines ls = concat (map (\<lambda>l. l @ [CHR 0x0A]) ls)"

lemma split_print_lines: "\<forall>l \<in> set ls. CHR 0x0A \<notin> set l \<Longrightarrow> split_lines [] (print_lines ls) = ls"
  by (induction ls) (simp_all add: print_lines_def split_lines_unterminated)

lemma split_lines_no_newline: "CHR 0x0A \<notin> set acc \<Longrightarrow> l \<in> set (split_lines acc t) \<Longrightarrow> CHR 0x0A \<notin> set l"
  by (induction acc t arbitrary: l rule: split_lines.induct) (auto split: if_splits)

lemma set_dropCR: "set (dropCR l) \<subseteq> set l"
  by (auto simp: dropCR_def dest: in_set_butlastD)

lemma length_dropCR: "length (dropCR l) \<le> length l"
  by (simp add: dropCR_def)

end
