(* ===== verification/Link_Darwin.thy ===== *)
theory Link_Darwin
  imports Userspace Go_Text
begin

text \<open>
  The macOS platform, \<^verbatim>\<open>internal/wg/link_darwin.go\<close>, \<^verbatim>\<open>platform_darwin.go\<close> and \<^verbatim>\<open>tunname_darwin.go\<close>: the
  linker over socket ioctls and the routing socket, the device in the process on a utun interface,
  and the record of the name macOS gave that interface. The system calls and the \<^verbatim>\<open>x/net/route\<close>
  library are a record of operations on a kernel state; what the code relies on of them is \<open>bsd_ok\<close>.
  A fixed-size array of bytes is a list of that length. The linker and the device together are an
  instance of the locale \<open>platform\<close>.
\<close>

section \<open>Requests and messages\<close>

definition IFNAMSIZ :: nat where "IFNAMSIZ = 16"

definition AF_INET :: byte where "AF_INET = 2"

definition AF_INET6 :: byte where "AF_INET6 = 30"

definition AF_ROUTE :: byte where "AF_ROUTE = 17"

definition IFF_UP :: "16 word" where "IFF_UP = 1"

definition RTF_UP :: int64 where "RTF_UP = 1"

definition RTF_HOST :: int64 where "RTF_HOST = 4"

definition RTF_STATIC :: int64 where "RTF_STATIC = 0x800"

definition RTM_ADD :: nat where "RTM_ADD = 1"

definition RTM_DELETE :: nat where "RTM_DELETE = 2"

definition RTM_VERSION :: nat where "RTM_VERSION = 5"

definition RTAX_DST :: nat where "RTAX_DST = 0"

definition RTAX_GATEWAY :: nat where "RTAX_GATEWAY = 1"

definition RTAX_NETMASK :: nat where "RTAX_NETMASK = 2"

definition RTAX_MAX :: nat where "RTAX_MAX = 8"

record ifreq =
  ifr_Name :: bytes
  ifr_Flags :: "16 word"

record raw_sockaddr =
  sa_Len :: byte
  sa_Family :: byte
  sa_Addr :: bytes

record ifAliasReq =
  ifa_Name :: bytes
  ifa_Addr :: raw_sockaddr
  ifa_BroadAddr :: raw_sockaddr
  ifa_Mask :: raw_sockaddr

record in6AliasReq =
  in6_Name :: bytes
  in6_Addr :: raw_sockaddr
  in6_DstAddr :: raw_sockaddr
  in6_Mask :: raw_sockaddr
  in6_Flags :: "32 word"
  in6_Expire :: int64
  in6_Preferred :: int64
  in6_Vltime :: "32 word"
  in6_Pltime :: "32 word"

datatype ioctl_req = AIFADDR ifAliasReq | AIFADDR_IN6 in6AliasReq | GIFFLAGS ifreq | SIFFLAGS ifreq | SIFMTU bytes "32 word"

datatype route_addr = Inet4Addr bytes | Inet6Addr bytes | LinkAddr nat | OtherRouteAddr

record route_message =
  rm_Version :: nat
  rm_Type :: nat
  rm_Flags :: int64
  rm_Index :: nat
  rm_ID :: nat
  rm_Seq :: int
  rm_Addrs :: "route_addr option list"

text \<open>What a dump of the routing table holds: route messages and others.\<close>

datatype rib_message = RouteMsg route_message | OtherMsg

datatype rt_result = RtOk | RtExist | RtMissing | RtError

datatype rm_result = RmOk | RmNotExist | RmError

text \<open>
  What the routing socket is sent and what a dump of the table is made of, bytes the code passes on
  from one call to the next without looking at them, is the type \<open>'raw\<close>.
\<close>

record ('k, 'raw) bsd =
  bsd_InterfaceByName :: "'k \<Rightarrow> string \<Rightarrow> nat option"
  bsd_InterfaceAddrs :: "'k \<Rightarrow> nat \<Rightarrow> iface_addr list option"
  bsd_Socket :: "'k \<Rightarrow> byte \<Rightarrow> bool"
  bsd_Ioctl :: "'k \<Rightarrow> ioctl_req \<Rightarrow> 'k \<times> ioctl_req option"
  bsd_FetchRIB :: "'k \<Rightarrow> 'raw option"
  bsd_ParseRIB :: "'raw \<Rightarrow> rib_message list option"
  bsd_Marshal :: "route_message \<Rightarrow> 'raw option"
  bsd_WriteRoute :: "'k \<Rightarrow> 'raw \<Rightarrow> 'k \<times> rt_result"
  bsd_MkdirAll :: "'k \<Rightarrow> string \<Rightarrow> 'k \<times> bool"
  bsd_WriteFile :: "'k \<Rightarrow> string \<Rightarrow> string \<Rightarrow> 'k \<times> bool"
  bsd_ReadFile :: "'k \<Rightarrow> string \<Rightarrow> string option"
  bsd_RemoveFile :: "'k \<Rightarrow> string \<Rightarrow> 'k \<times> rm_result"
  bsd_Getpid :: nat
  bsd_Configure :: "'k \<Rightarrow> string \<Rightarrow> device_config \<Rightarrow> 'k \<times> bool"

section \<open>Addresses and masks\<close>

text \<open>\<^verbatim>\<open>copy\<close> into an array of \<open>n\<close> zero bytes.\<close>

definition copy_into :: "nat \<Rightarrow> bytes \<Rightarrow> bytes" where
  "copy_into n src = take n src @ replicate (n - length src) 0"

definition AddrFrom4 :: "bytes \<Rightarrow> addr" where
  "AddrFrom4 bs = Addr4 (of_nat (be_nat bs))"

definition AddrFrom16 :: "bytes \<Rightarrow> addr" where
  "AddrFrom16 bs = Addr6 (of_nat (be_nat bs)) ''''"

definition As4 :: "addr \<Rightarrow> bytes" where
  "As4 a = as_slice (unmap a)"

definition As16 :: "addr \<Rightarrow> bytes" where
  "As16 a = be_bytes 16 (unat (as16 a))"

definition ifName :: "string \<Rightarrow> bytes option" where
  "ifName iface = (if length iface \<ge> IFNAMSIZ then None else Some (copy_into IFNAMSIZ (string_bytes iface)))"

definition sockaddr4 :: "addr \<Rightarrow> raw_sockaddr" where
  "sockaddr4 a = \<lparr>sa_Len = 16, sa_Family = AF_INET, sa_Addr = As4 a\<rparr>"

definition sockaddr6 :: "addr \<Rightarrow> raw_sockaddr" where
  "sockaddr6 a = \<lparr>sa_Len = 28, sa_Family = AF_INET6, sa_Addr = As16 a\<rparr>"

definition mask4 :: "prefix \<Rightarrow> addr" where
  "mask4 p = AddrFrom4 (copy_into 4 (CIDRMask (pfx_bits p) 32))"

definition mask6 :: "prefix \<Rightarrow> addr" where
  "mask6 p = AddrFrom16 (copy_into 16 (CIDRMask (pfx_bits p) 128))"

section \<open>The linker\<close>

text \<open>\<^verbatim>\<open>ioctl\<close>: one request on a fresh socket; the answer is the request as the kernel leaves it.\<close>

definition bsd_ioctl :: "('k, 'raw) bsd \<Rightarrow> 'k \<Rightarrow> byte \<Rightarrow> ioctl_req \<Rightarrow> 'k \<times> ioctl_req option" where
  "bsd_ioctl B k family req = (if \<not> bsd_Socket B k family then (k, None) else bsd_Ioctl B k req)"

definition bsd_SetAddr :: "('k, 'raw) bsd \<Rightarrow> 'k \<Rightarrow> string \<Rightarrow> prefix \<Rightarrow> 'k \<times> bool" where
  "bsd_SetAddr B k iface a =
     (case ifName iface of
        None \<Rightarrow> (k, False)
      | Some name \<Rightarrow>
          (case (if is4 (pfx_addr a) then
                   bsd_ioctl B k AF_INET (AIFADDR
                     \<lparr>ifa_Name = name, ifa_Addr = sockaddr4 (pfx_addr a), ifa_BroadAddr = sockaddr4 (pfx_addr a), ifa_Mask = sockaddr4 (mask4 a)\<rparr>)
                 else
                   bsd_ioctl B k AF_INET6 (AIFADDR_IN6
                     \<lparr>in6_Name = name, in6_Addr = sockaddr6 (pfx_addr a), in6_DstAddr = \<lparr>sa_Len = 0, sa_Family = 0, sa_Addr = replicate 16 0\<rparr>,
                      in6_Mask = sockaddr6 (mask6 a), in6_Flags = 0, in6_Expire = 0, in6_Preferred = 0, in6_Vltime = 0xFFFFFFFF, in6_Pltime = 0xFFFFFFFF\<rparr>)) of
             (k', r) \<Rightarrow> (k', r \<noteq> None)))"

definition bsd_SetMTU :: "('k, 'raw) bsd \<Rightarrow> 'k \<Rightarrow> string \<Rightarrow> int \<Rightarrow> 'k \<times> bool" where
  "bsd_SetMTU B k iface mtu =
     (case ifName iface of
        None \<Rightarrow> (k, False)
      | Some name \<Rightarrow> (case bsd_ioctl B k AF_INET (SIFMTU name (word_of_int mtu)) of (k', r) \<Rightarrow> (k', r \<noteq> None)))"

definition bsd_Up :: "('k, 'raw) bsd \<Rightarrow> 'k \<Rightarrow> string \<Rightarrow> 'k \<times> bool" where
  "bsd_Up B k iface =
     (case ifName iface of
        None \<Rightarrow> (k, False)
      | Some name \<Rightarrow>
          (case bsd_ioctl B k AF_INET (GIFFLAGS \<lparr>ifr_Name = name, ifr_Flags = 0\<rparr>) of
             (k1, Some (GIFFLAGS req)) \<Rightarrow>
               if ifr_Flags req AND IFF_UP \<noteq> 0 then (k1, True)
               else (case bsd_ioctl B k1 AF_INET (SIFFLAGS (req\<lparr>ifr_Flags := ifr_Flags req OR IFF_UP\<rparr>)) of (k2, r) \<Rightarrow> (k2, r \<noteq> None))
           | (k1, _) \<Rightarrow> (k1, False)))"

definition bsd_Addrs :: "('k, 'raw) bsd \<Rightarrow> 'k \<Rightarrow> string \<Rightarrow> prefix list option" where
  "bsd_Addrs B k iface =
     (case bsd_InterfaceByName B k iface of
        None \<Rightarrow> None
      | Some i \<Rightarrow> (case bsd_InterfaceAddrs B k i of None \<Rightarrow> None | Some as \<Rightarrow> Some (List.map_filter iface_prefix as)))"

definition destination :: "route_message \<Rightarrow> prefix option" where
  "destination m =
     (if length (rm_Addrs m) \<le> RTAX_DST then None
      else
        (case rm_Addrs m ! RTAX_DST of
           None \<Rightarrow> None
         | Some dst \<Rightarrow>
             (let mask = (if length (rm_Addrs m) > RTAX_NETMASK then rm_Addrs m ! RTAX_NETMASK else None) in
              case dst of
                Inet4Addr ip \<Rightarrow>
                  Some (prefix_from (AddrFrom4 ip)
                    (case mask of Some (Inet4Addr nm) \<Rightarrow> if rm_Flags m AND RTF_HOST = 0 then fst (mask_size nm) else 32 | _ \<Rightarrow> 32))
              | Inet6Addr ip \<Rightarrow>
                  Some (prefix_from (AddrFrom16 ip)
                    (case mask of Some (Inet6Addr nm) \<Rightarrow> if rm_Flags m AND RTF_HOST = 0 then fst (mask_size nm) else 128 | _ \<Rightarrow> 128))
              | _ \<Rightarrow> None)))"

definition static_route :: "nat \<Rightarrow> rib_message \<Rightarrow> prefix option" where
  "static_route index msg =
     (case msg of
        OtherMsg \<Rightarrow> None
      | RouteMsg rm \<Rightarrow>
          if rm_Index rm \<noteq> index \<or> rm_Flags rm AND RTF_STATIC = 0 then None
          else
            (case destination rm of
               Some dst \<Rightarrow> if \<not> is_multicast (pfx_addr dst) \<and> \<not> is_link_local_unicast (pfx_addr dst) then Some dst else None
             | None \<Rightarrow> None))"

definition staticRoutes :: "rib_message list \<Rightarrow> nat \<Rightarrow> prefix list" where
  "staticRoutes msgs index = List.map_filter (static_route index) msgs"

definition bsd_Routes :: "('k, 'raw) bsd \<Rightarrow> 'k \<Rightarrow> string \<Rightarrow> prefix list option" where
  "bsd_Routes B k iface =
     (case bsd_InterfaceByName B k iface of
        None \<Rightarrow> None
      | Some i \<Rightarrow>
          (case bsd_FetchRIB B k of
             None \<Rightarrow> None
           | Some rib \<Rightarrow> (case bsd_ParseRIB B rib of None \<Rightarrow> None | Some msgs \<Rightarrow> Some (staticRoutes msgs i))))"

definition routeMessage :: "nat \<Rightarrow> nat \<Rightarrow> nat \<Rightarrow> 32 word \<Rightarrow> prefix \<Rightarrow> route_message" where
  "routeMessage pid typ index seqno dst =
     (let none = replicate RTAX_MAX None;
          addrs = (if is4 (pfx_addr dst)
                   then none[RTAX_DST := Some (Inet4Addr (As4 (pfx_addr dst))), RTAX_NETMASK := Some (Inet4Addr (As4 (mask4 dst)))]
                   else none[RTAX_DST := Some (Inet6Addr (As16 (pfx_addr dst))), RTAX_NETMASK := Some (Inet6Addr (As16 (mask6 dst)))])
      in \<lparr>rm_Version = RTM_VERSION, rm_Type = typ, rm_Flags = RTF_UP OR RTF_STATIC, rm_Index = index, rm_ID = pid, rm_Seq = sint seqno,
          rm_Addrs = addrs[RTAX_GATEWAY := Some (LinkAddr index)]\<rparr>)"

definition sendRoute :: "('k, 'raw) bsd \<Rightarrow> 'k \<Rightarrow> route_message \<Rightarrow> 'k \<times> rt_result" where
  "sendRoute B k m =
     (case bsd_Marshal B m of
        None \<Rightarrow> (k, RtError)
      | Some b \<Rightarrow> if \<not> bsd_Socket B k AF_ROUTE then (k, RtError) else bsd_WriteRoute B k b)"

text \<open>The agent's side of the system: the kernel, the counter \<^verbatim>\<open>routeSeq\<close> and the device.\<close>

record 'k bsd_world = "'k us_world" +
  bw_routeSeq :: "32 word"

definition change_route :: "('k, 'raw) bsd \<Rightarrow> nat \<Rightarrow> rt_result \<Rightarrow> 'k bsd_world \<Rightarrow> string \<Rightarrow> prefix \<Rightarrow> 'k bsd_world \<times> bool" where
  "change_route B typ fine w iface dst =
     (case bsd_InterfaceByName B (bw_os w) iface of
        None \<Rightarrow> (w, False)
      | Some i \<Rightarrow>
          (let s = bw_routeSeq w + 1 in
           case sendRoute B (bw_os w) (routeMessage (bsd_Getpid B) typ i s dst) of
             (k', r) \<Rightarrow> (w\<lparr>bw_os := k', bw_routeSeq := s\<rparr>, r = RtOk \<or> r = fine)))"

definition bsd_AddRoute :: "('k, 'raw) bsd \<Rightarrow> 'k bsd_world \<Rightarrow> string \<Rightarrow> prefix \<Rightarrow> 'k bsd_world \<times> bool" where
  "bsd_AddRoute B = change_route B RTM_ADD RtExist"

definition bsd_DelRoute :: "('k, 'raw) bsd \<Rightarrow> 'k bsd_world \<Rightarrow> string \<Rightarrow> prefix \<Rightarrow> 'k bsd_world \<times> bool" where
  "bsd_DelRoute B = change_route B RTM_DELETE RtMissing"

section \<open>The name of the interface\<close>

text \<open>\<open>join\<close> is \<^verbatim>\<open>filepath.Join\<close>.\<close>

definition nameDir :: string where
  "nameDir = ''/var/run/wireguard''"

definition darwin_tunName :: "string \<Rightarrow> string" where
  "darwin_tunName name = ''utun''"

definition nameFile :: "(string \<Rightarrow> string \<Rightarrow> string) \<Rightarrow> string \<Rightarrow> string" where
  "nameFile join name = join nameDir (name @ ''.name'')"

definition darwin_published :: "('k, 'raw) bsd \<Rightarrow> (string \<Rightarrow> string \<Rightarrow> string) \<Rightarrow> 'k \<Rightarrow> string \<Rightarrow> string \<Rightarrow> 'k \<times> bool" where
  "darwin_published B join k name os =
     (case bsd_MkdirAll B k nameDir of
        (k1, False) \<Rightarrow> (k1, False)
      | (k1, True) \<Rightarrow> bsd_WriteFile B k1 (nameFile join name) (os @ [CHR 0x0A]))"

definition darwin_unpublished :: "('k, 'raw) bsd \<Rightarrow> (string \<Rightarrow> string \<Rightarrow> string) \<Rightarrow> 'k \<Rightarrow> string \<Rightarrow> 'k \<times> bool" where
  "darwin_unpublished B join k name = (case bsd_RemoveFile B k (nameFile join name) of (k', r) \<Rightarrow> (k', r \<noteq> RmError))"

definition osNameOf :: "('k, 'raw) bsd \<Rightarrow> (string \<Rightarrow> string \<Rightarrow> string) \<Rightarrow> 'k \<Rightarrow> string \<Rightarrow> string option" where
  "osNameOf B join k name = map_option TrimSpace (bsd_ReadFile B k (nameFile join name))"

text \<open>\<^verbatim>\<open>lookup\<close>; \<^verbatim>\<open>remove\<close> has nothing to do.\<close>

definition darwin_lookup :: "('k, 'raw) bsd \<Rightarrow> (string \<Rightarrow> string \<Rightarrow> string) \<Rightarrow> 'k \<Rightarrow> string \<Rightarrow> string option" where
  "darwin_lookup B join k iface =
     (case osNameOf B join k iface of
        None \<Rightarrow> None
      | Some os \<Rightarrow> if bsd_InterfaceByName B k os = None then None else Some os)"

definition darwin_remove :: "'k \<Rightarrow> string \<Rightarrow> 'k \<times> wg_error option" where
  "darwin_remove k iface = (k, None)"

section \<open>The platform\<close>

definition darwin_lib :: "('k, 'raw) bsd \<Rightarrow> (string \<Rightarrow> string \<Rightarrow> string) \<Rightarrow> 'k tun_lib \<Rightarrow> 'k tun_lib" where
  "darwin_lib B join L =
     L\<lparr>tl_tunName := darwin_tunName, tl_published := darwin_published B join, tl_unpublished := darwin_unpublished B join\<rparr>"

text \<open>\<^verbatim>\<open>platform\<close> chooses the device in the process and the linker above.\<close>

definition darwin_ops :: "('k, 'raw) bsd \<Rightarrow> (string \<Rightarrow> string \<Rightarrow> string) \<Rightarrow> 'k tun_lib \<Rightarrow> 'k bsd_world platform_ops" where
  "darwin_ops B join L =
     \<lparr>dev_Create = us_world_Create (darwin_lib B join L), dev_Delete = us_world_Delete (darwin_lib B join L),
      ConfigureDevice = (\<lambda>w iface cfg. on_os (\<lambda>k. bsd_Configure B k iface cfg) w),
      lk_SetAddr = (\<lambda>w os p. on_os (\<lambda>k. bsd_SetAddr B k os p) w), lk_SetMTU = (\<lambda>w os m. on_os (\<lambda>k. bsd_SetMTU B k os m) w),
      lk_Up = (\<lambda>w os. on_os (\<lambda>k. bsd_Up B k os) w), lk_Addrs = (\<lambda>w. bsd_Addrs B (bw_os w)), lk_Routes = (\<lambda>w. bsd_Routes B (bw_os w)),
      lk_AddRoute = bsd_AddRoute B, lk_DelRoute = bsd_DelRoute B\<rparr>"

section \<open>Route messages say what they are about\<close>

lemma be_nat_bound: "be_nat bs < 256 ^ length bs"
proof (induction bs rule: rev_induct)
  case Nil
  then show ?case by (simp add: be_nat_def)
next
  case (snoc b bs)
  have "be_nat bs * 256 + unat b < Suc (be_nat bs) * 256" using unat_byte_bound [of b] by simp
  also have "\<dots> \<le> 256 ^ length bs * 256" using snoc by (intro mult_le_mono1) simp
  finally show ?case by (simp add: be_nat_snoc)
qed

lemma be_nat_inject: "length xs = length ys \<Longrightarrow> be_nat xs = be_nat ys \<Longrightarrow> xs = ys"
proof (induction xs ys rule: list_induct2)
  case (Cons x xs y ys)
  let ?n = "256 ^ length xs :: nat"
  have eq: "be_nat xs + unat x * ?n = be_nat ys + unat y * ?n" using Cons by (simp add: be_nat_Cons)
  have less: "be_nat xs < ?n" "be_nat ys < ?n" using be_nat_bound [of xs] be_nat_bound [of ys] Cons.hyps by simp_all
  have "unat x = unat y" using arg_cong [OF eq, of "\<lambda>v. v div ?n"] less by simp
  then show ?case using eq Cons.IH by (simp add: word_unat_eq_iff)
qed simp

lemma be_bytes_be_nat: "length bs = n \<Longrightarrow> be_bytes n (be_nat bs) = bs"
  using be_nat_bound [of bs] by (intro be_nat_inject) (auto simp: be_nat_be_bytes)

lemma array_addresses:
  "length bs = 4 \<Longrightarrow> As4 (AddrFrom4 bs) = bs" "length bs = 16 \<Longrightarrow> As16 (AddrFrom16 bs) = bs"
  "AddrFrom4 (As4 (Addr4 v)) = Addr4 v" "AddrFrom16 (As16 (Addr6 w z)) = Addr6 w []"
proof -
  show "length bs = 4 \<Longrightarrow> As4 (AddrFrom4 bs) = bs"
    using be_nat_bound [of bs] be_bytes_be_nat [of bs 4] by (simp add: As4_def AddrFrom4_def unat_of_nat del: be_bytes_numeral)
  show "length bs = 16 \<Longrightarrow> As16 (AddrFrom16 bs) = bs"
    using be_nat_bound [of bs] be_bytes_be_nat [of bs 16] by (simp add: As16_def AddrFrom16_def unat_of_nat del: be_bytes_numeral)
  show "AddrFrom4 (As4 (Addr4 v)) = Addr4 v"
    using unat_addr_bounds(1) [of v] by (simp add: As4_def AddrFrom4_def be_nat_be_bytes del: be_bytes_numeral)
  show "AddrFrom16 (As16 (Addr6 w z)) = Addr6 w []"
    using unat_addr_bounds(2) [of w] by (simp add: As16_def AddrFrom16_def be_nat_be_bytes del: be_bytes_numeral)
qed

lemma mask_addresses:
  "0 \<le> pfx_bits p \<Longrightarrow> pfx_bits p \<le> 32 \<Longrightarrow> As4 (mask4 p) = CIDRMask (pfx_bits p) 32"
  "0 \<le> pfx_bits p \<Longrightarrow> pfx_bits p \<le> 128 \<Longrightarrow> As16 (mask6 p) = CIDRMask (pfx_bits p) 128"
  by (simp_all add: mask4_def mask6_def array_addresses copy_into_def CIDRMask_def)

lemma destination_routeMessage:
  assumes "wf_prefix dst" and "prefix_is_valid dst"
  shows "destination (routeMessage pid typ i s dst) = Some dst"
proof -
  have flags: "(RTF_UP OR RTF_STATIC) AND RTF_HOST = 0" by (simp add: RTF_UP_def RTF_STATIC_def RTF_HOST_def)
  from assms(1) show ?thesis
  proof (cases rule: wf_prefix_cases)
    case invalid
    with assms(2) show ?thesis by (simp add: prefix_is_valid_def)
  next
    case (v4 w)
    then show ?thesis
      using flags mask_size_CIDRMask [of 32 "pfx_bits dst"]
      by (cases dst) (simp add: destination_def routeMessage_def RTAX_DST_def RTAX_NETMASK_def RTAX_GATEWAY_def RTAX_MAX_def
          array_addresses mask_addresses prefix_from_def)
  next
    case (v6 w)
    then show ?thesis
      using flags mask_size_CIDRMask [of 128 "pfx_bits dst"]
      by (cases dst) (simp add: destination_def routeMessage_def RTAX_DST_def RTAX_NETMASK_def RTAX_GATEWAY_def RTAX_MAX_def
          array_addresses mask_addresses prefix_from_def)
  qed
qed

section \<open>What the system documents\<close>

text \<open>The destinations the agent can route and list: masked ones that are neither multicast nor link-local.\<close>

definition darwin_fits :: "prefix \<Rightarrow> bool" where
  "darwin_fits d \<longleftrightarrow> wf_prefix d \<and> prefix_is_valid d \<and> masked d = d \<and>
     \<not> is_multicast (pfx_addr d) \<and> \<not> is_link_local_unicast (pfx_addr d)"

definition static_through :: "('k, 'raw) bsd \<Rightarrow> 'k \<Rightarrow> string \<Rightarrow> route_message \<Rightarrow> bool" where
  "static_through B k os x \<longleftrightarrow> bsd_InterfaceByName B k os = Some (rm_Index x) \<and> rm_Flags x AND RTF_STATIC \<noteq> 0"

definition darwin_routes :: "('k, 'raw) bsd \<Rightarrow> ('k \<Rightarrow> rib_message set) \<Rightarrow> 'k \<Rightarrow> string \<Rightarrow> prefix set" where
  "darwin_routes B rib k os =
     {d. \<exists>x. RouteMsg x \<in> rib k \<and> static_through B k os x \<and> destination x = Some d \<and>
        \<not> is_multicast (pfx_addr d) \<and> \<not> is_link_local_unicast (pfx_addr d)}"

definition darwin_elsewhere :: "('k, 'raw) bsd \<Rightarrow> ('k \<Rightarrow> rib_message set) \<Rightarrow> 'k \<Rightarrow> string \<Rightarrow> prefix \<Rightarrow> bool" where
  "darwin_elsewhere B rib k os d \<longleftrightarrow> (\<exists>x. RouteMsg x \<in> rib k \<and> destination x = Some d \<and> \<not> static_through B k os x)"

text \<open>
  From \<open>k\<close> to \<open>k'\<close> routes may go, those to destinations in \<open>D\<close> may come, and an interface that still
  carries another route keeps its name.
\<close>

definition settles :: "('k, 'raw) bsd \<Rightarrow> ('k \<Rightarrow> rib_message set) \<Rightarrow> prefix set \<Rightarrow> 'k \<Rightarrow> 'k \<Rightarrow> bool" where
  "settles B rib D k k' \<longleftrightarrow>
     (\<forall>x d. RouteMsg x \<in> rib k' \<longrightarrow> destination x = Some d \<longrightarrow> d \<notin> D \<longrightarrow>
        RouteMsg x \<in> rib k \<and> (\<forall>os. bsd_InterfaceByName B k os = Some (rm_Index x) \<longrightarrow> bsd_InterfaceByName B k' os = Some (rm_Index x)))"

text \<open>The destinations the kernel routes on its own when an address is set.\<close>

definition req_routes :: "ioctl_req \<Rightarrow> prefix set" where
  "req_routes req =
     (case req of
        AIFADDR r \<Rightarrow> {hostPrefix (AddrFrom4 (sa_Addr (ifa_Addr r))), hostPrefix (AddrFrom4 (sa_Addr (ifa_BroadAddr r))),
          masked (prefix_from (AddrFrom4 (sa_Addr (ifa_Addr r))) (fst (mask_size (sa_Addr (ifa_Mask r)))))}
      | AIFADDR_IN6 r \<Rightarrow> {hostPrefix (AddrFrom16 (sa_Addr (in6_Addr r))),
          masked (prefix_from (AddrFrom16 (sa_Addr (in6_Addr r))) (fst (mask_size (sa_Addr (in6_Mask r)))))}
      | _ \<Rightarrow> {})"

text \<open>
  The routing table: a dump holds it, its destinations are masked; adding a route puts one to the
  masked destination there or finds one to that destination, through whichever interface; deleting
  one leaves none to that destination. The last is an idealisation: it holds of a table with at most
  one entry to a destination; a real one may hold an entry scoped to an interface, or a host route,
  beside it, which a deletion by destination and mask does not reach.
\<close>

definition routing_ok :: "('k, 'raw) bsd \<Rightarrow> ('k \<Rightarrow> rib_message set) \<Rightarrow> bool" where
  "routing_ok B rib \<longleftrightarrow>
     (\<forall>k b ms. bsd_FetchRIB B k = Some b \<longrightarrow> bsd_ParseRIB B b = Some ms \<longrightarrow> set ms = rib k) \<and>
     (\<forall>k x d. RouteMsg x \<in> rib k \<longrightarrow> destination x = Some d \<longrightarrow> prefix_is_valid d \<and> masked d = d) \<and>
     (\<forall>k m b k' r. bsd_Marshal B m = Some b \<longrightarrow> bsd_WriteRoute B k b = (k', r) \<longrightarrow> rm_Type m = RTM_ADD \<longrightarrow>
        (if r = RtOk then \<exists>x. rib k' = insert (RouteMsg x) (rib k) \<and> rm_Index x = rm_Index m \<and>
             rm_Flags x AND RTF_STATIC = rm_Flags m AND RTF_STATIC \<and> destination x = map_option masked (destination m)
         else rib k' = rib k \<and> (r = RtExist \<longrightarrow> (\<exists>x. RouteMsg x \<in> rib k \<and> destination x = map_option masked (destination m))))) \<and>
     (\<forall>k m b k' r. bsd_Marshal B m = Some b \<longrightarrow> bsd_WriteRoute B k b = (k', r) \<longrightarrow> rm_Type m = RTM_DELETE \<longrightarrow> r = RtOk \<or> r = RtMissing \<longrightarrow>
        rib k' = {y \<in> rib k. \<forall>x. y = RouteMsg x \<longrightarrow> destination x \<noteq> map_option masked (destination m)}) \<and>
     (\<forall>k b. bsd_InterfaceByName B (fst (bsd_WriteRoute B k b)) = bsd_InterfaceByName B k)"

text \<open>
  Everything else: setting addresses and flags brings routes to destinations the agent does not
  route and to the address itself; devices, sockets and files bring none; configuring with
  \<^verbatim>\<open>ReplacePeers\<close> sets the peers and nothing else does.
\<close>

definition bsd_ok :: "('k, 'raw) bsd \<Rightarrow> 'k tun_lib \<Rightarrow> ('k \<Rightarrow> rib_message set) \<Rightarrow> ('k \<Rightarrow> string \<Rightarrow> peer_config list) \<Rightarrow> bool" where
  "bsd_ok B L rib peers \<longleftrightarrow> routing_ok B rib \<and>
     (\<forall>k req. settles B rib (req_routes req \<union> {d. \<not> darwin_fits d}) k (fst (bsd_Ioctl B k req)) \<and> peers (fst (bsd_Ioctl B k req)) = peers k) \<and>
     (\<forall>k b. peers (fst (bsd_WriteRoute B k b)) = peers k) \<and>
     (\<forall>k name cfg. settles B rib {} k (fst (bsd_Configure B k name cfg))) \<and>
     (\<forall>k name cfg k'. bsd_Configure B k name cfg = (k', True) \<longrightarrow> dcf_ReplacePeers cfg \<longrightarrow> peers k' name = dcf_Peers cfg) \<and>
     (\<forall>k n m t d l. settles B rib {} k (fst (tl_CreateTUN L k n m)) \<and> settles B rib {} k (tl_CloseTUN L k t) \<and>
        settles B rib {} k (fst (tl_NewDevice L k t)) \<and> settles B rib {} k (tl_CloseDevice L k d) \<and>
        settles B rib {} k (tl_CloseListener L k l) \<and> settles B rib {} k (fst (tl_uapiListen L k n))) \<and>
     (\<forall>k p t. settles B rib {} k (fst (bsd_MkdirAll B k p)) \<and> settles B rib {} k (fst (bsd_WriteFile B k p t)) \<and>
        settles B rib {} k (fst (bsd_RemoveFile B k p)))"

lemma settles_refl [simp]: "settles B rib D k k"
  by (simp add: settles_def)

lemma settles_trans: "settles B rib D k k1 \<Longrightarrow> settles B rib D k1 k2 \<Longrightarrow> settles B rib D k k2"
  unfolding settles_def by blast

lemma settles_mono: "settles B rib D k k' \<Longrightarrow> D \<subseteq> D' \<Longrightarrow> settles B rib D' k k'"
  unfolding settles_def by blast

lemma settles_elsewhere: "settles B rib D k k' \<Longrightarrow> darwin_elsewhere B rib k' os d \<Longrightarrow> d \<notin> D \<Longrightarrow> darwin_elsewhere B rib k os d"
  unfolding settles_def darwin_elsewhere_def static_through_def by blast

lemma routing_facts:
  assumes "routing_ok B rib"
  shows "bsd_FetchRIB B k = Some b \<Longrightarrow> bsd_ParseRIB B b = Some ms \<Longrightarrow> set ms = rib k"
    and "RouteMsg x \<in> rib k \<Longrightarrow> destination x = Some d \<Longrightarrow> prefix_is_valid d \<and> masked d = d"
    and "bsd_InterfaceByName B (fst (bsd_WriteRoute B k b)) = bsd_InterfaceByName B k"
  using assms by (simp_all add: routing_ok_def)

lemma route_added:
  assumes "routing_ok B rib" and "bsd_Marshal B m = Some b" and "bsd_WriteRoute B k b = (k', r)" and "rm_Type m = RTM_ADD"
  shows "if r = RtOk then \<exists>x. rib k' = insert (RouteMsg x) (rib k) \<and> rm_Index x = rm_Index m \<and>
      rm_Flags x AND RTF_STATIC = rm_Flags m AND RTF_STATIC \<and> destination x = map_option masked (destination m)
    else rib k' = rib k \<and> (r = RtExist \<longrightarrow> (\<exists>x. RouteMsg x \<in> rib k \<and> destination x = map_option masked (destination m)))"
  using assms(1) unfolding routing_ok_def by (elim conjE allE) (erule impE, rule assms, erule impE, rule assms, erule mp [OF _ assms(4)])

lemma route_deleted:
  assumes "routing_ok B rib" and "bsd_Marshal B m = Some b" and "bsd_WriteRoute B k b = (k', r)" and "rm_Type m = RTM_DELETE" and "r = RtOk \<or> r = RtMissing"
  shows "rib k' = {y \<in> rib k. \<forall>x. y = RouteMsg x \<longrightarrow> destination x \<noteq> map_option masked (destination m)}"
  using assms by (cases r) (simp_all add: routing_ok_def)

lemma change_route_steps:
  assumes "change_route B typ fine w os d = (w', True)" and "fine \<noteq> RtError" and "darwin_fits d"
  obtains i b r m where "bsd_InterfaceByName B (bw_os w) os = Some i" "bsd_Marshal B m = Some b" "bsd_WriteRoute B (bw_os w) b = (bw_os w', r)"
    "r = RtOk \<or> r = fine" "rm_Type m = typ" "rm_Index m = i" "rm_Flags m AND RTF_STATIC \<noteq> 0" "map_option masked (destination m) = Some d"
proof -
  have d: "map_option masked (destination (routeMessage (bsd_Getpid B) typ i s d)) = Some d" for i s
    using assms(3) destination_routeMessage [of d] by (simp add: darwin_fits_def)
  have "(RTF_UP OR RTF_STATIC) AND RTF_STATIC \<noteq> 0" by (simp add: RTF_UP_def RTF_STATIC_def)
  then have m: "rm_Type (routeMessage p typ i s d) = typ" "rm_Index (routeMessage p typ i s d) = i"
    "rm_Flags (routeMessage p typ i s d) AND RTF_STATIC \<noteq> 0" for p i s
    by (simp_all add: routeMessage_def Let_def)
  obtain i k' r where i: "bsd_InterfaceByName B (bw_os w) os = Some i"
    "sendRoute B (bw_os w) (routeMessage (bsd_Getpid B) typ i (bw_routeSeq w + 1) d) = (k', r)" "bw_os w' = k'" "r = RtOk \<or> r = fine"
    using assms(1) by (auto simp: change_route_def Let_def split: option.splits prod.splits)
  obtain b where "bsd_Marshal B (routeMessage (bsd_Getpid B) typ i (bw_routeSeq w + 1) d) = Some b" "bsd_WriteRoute B (bw_os w) b = (k', r)"
    using i(2,4) assms(2) by (auto simp: sendRoute_def split: option.splits if_splits)
  then show thesis using that [OF i(1) _ _ i(4), of "routeMessage (bsd_Getpid B) typ i (bw_routeSeq w + 1) d"] i(3) m d by blast
qed

lemma darwin_routes_iff:
  "d \<in> darwin_routes B rib k os \<longleftrightarrow> (\<exists>x. RouteMsg x \<in> rib k \<and> static_through B k os x \<and> destination x = Some d) \<and>
     \<not> is_multicast (pfx_addr d) \<and> \<not> is_link_local_unicast (pfx_addr d)"
  by (auto simp: darwin_routes_def)

lemma destination_wf: "destination x = Some d \<Longrightarrow> wf_prefix d"
  by (auto simp: destination_def Let_def split: option.splits if_splits route_addr.splits)

lemma darwin_listed:
  assumes "routing_ok B rib" and "bsd_Routes B k os = Some rs"
  shows "set rs = darwin_routes B rib k os" and "\<forall>d \<in> set rs. darwin_fits d"
proof -
  obtain i b ms where i: "bsd_InterfaceByName B k os = Some i" "bsd_FetchRIB B k = Some b" "bsd_ParseRIB B b = Some ms" "rs = staticRoutes ms i"
    using assms(2) by (auto simp: bsd_Routes_def split: option.splits)
  have rib: "set ms = rib k" by (rule routing_facts(1) [OF assms(1) i(2,3)])
  have one: "static_route i y = Some d \<longleftrightarrow> (\<exists>x. y = RouteMsg x \<and> static_through B k os x \<and> destination x = Some d) \<and>
      \<not> is_multicast (pfx_addr d) \<and> \<not> is_link_local_unicast (pfx_addr d)" for y d
    using i(1) by (auto simp: static_route_def static_through_def split: rib_message.splits option.splits if_splits)
  have "d \<in> set (staticRoutes ms i) \<longleftrightarrow> (\<exists>y \<in> set ms. static_route i y = Some d)" for d
    by (force simp: staticRoutes_def List.map_filter_def)
  then show "set rs = darwin_routes B rib k os" unfolding i(4) rib one by (intro set_eqI) (simp only: darwin_routes_iff, blast)
  then show "\<forall>d \<in> set rs. darwin_fits d"
    using routing_facts(2) [OF assms(1)] destination_wf by (auto simp: darwin_fits_def darwin_routes_iff)
qed

lemma through_kept: "routing_ok B rib \<Longrightarrow> bsd_WriteRoute B k b = (k', r) \<Longrightarrow> static_through B k' os x = static_through B k os x"
  using routing_facts(3) [of B rib k b] by (simp add: static_through_def)

lemma darwin_added:
  assumes "routing_ok B rib" and "bsd_AddRoute B w os d = (w', True)" and "darwin_fits d" and "\<not> darwin_elsewhere B rib (bw_os w) os d"
  shows "darwin_routes B rib (bw_os w') os = insert d (darwin_routes B rib (bw_os w) os)"
proof -
  obtain i b r m where i: "bsd_InterfaceByName B (bw_os w) os = Some i" and m: "bsd_Marshal B m = Some b" "bsd_WriteRoute B (bw_os w) b = (bw_os w', r)"
    "rm_Type m = RTM_ADD" and r: "r = RtOk \<or> r = RtExist" and x: "rm_Index m = i" "rm_Flags m AND RTF_STATIC \<noteq> 0" "map_option masked (destination m) = Some d"
    using change_route_steps [OF assms(2) [unfolded bsd_AddRoute_def] _ assms(3)] by (metis rt_result.distinct(9))
  note added = route_added [OF assms(1) m, unfolded x(3)] and kept = through_kept [OF assms(1) m(2)]
  have vis: "\<not> is_multicast (pfx_addr d)" "\<not> is_link_local_unicast (pfx_addr d)" using assms(3) by (simp_all add: darwin_fits_def)
  show ?thesis
  proof (cases "r = RtOk")
    case True
    then obtain y where y: "rib (bw_os w') = insert (RouteMsg y) (rib (bw_os w))" "rm_Index y = i" "rm_Flags y AND RTF_STATIC \<noteq> 0" "destination y = Some d"
      using added x by auto
    then have "static_through B (bw_os w) os y" using i by (simp add: static_through_def)
    then show ?thesis using y(1,4) vis by (auto simp: darwin_routes_def kept)
  next
    case False
    then have "rib (bw_os w') = rib (bw_os w)" "\<exists>y. RouteMsg y \<in> rib (bw_os w) \<and> destination y = Some d" using added r by auto
    then show ?thesis using assms(4) vis by (auto simp: darwin_routes_def darwin_elsewhere_def kept)
  qed
qed

lemma AddRoute_elsewhere:
  assumes "routing_ok B rib" and "darwin_elsewhere B rib (bw_os (fst (bsd_AddRoute B w os p))) os d"
  shows "darwin_elsewhere B rib (bw_os w) os d"
proof (cases "bsd_InterfaceByName B (bw_os w) os")
  case None
  then show ?thesis using assms(2) by (simp add: bsd_AddRoute_def change_route_def)
next
  case (Some i)
  let ?m = "routeMessage (bsd_Getpid B) RTM_ADD i (bw_routeSeq w + 1) p"
  have m: "rm_Type ?m = RTM_ADD" "rm_Index ?m = i" "rm_Flags ?m AND RTF_STATIC \<noteq> 0"
    by (simp_all add: routeMessage_def Let_def RTF_UP_def RTF_STATIC_def)
  obtain k' r where sent: "sendRoute B (bw_os w) ?m = (k', r)" by (cases "sendRoute B (bw_os w) ?m")
  then have away: "darwin_elsewhere B rib k' os d" using assms(2) Some by (simp add: bsd_AddRoute_def change_route_def Let_def)
  show ?thesis
  proof (cases "\<exists>b. bsd_Marshal B ?m = Some b \<and> bsd_WriteRoute B (bw_os w) b = (k', r)")
    case False
    then have "k' = bw_os w" using sent by (auto simp: sendRoute_def split: option.splits if_splits)
    then show ?thesis using away by simp
  next
    case True
    then obtain b where b: "bsd_Marshal B ?m = Some b" "bsd_WriteRoute B (bw_os w) b = (k', r)" by blast
    from route_added [OF assms(1) b m(1)] have "rib k' = rib (bw_os w) \<or> (\<exists>x. rib k' = insert (RouteMsg x) (rib (bw_os w)) \<and> static_through B (bw_os w) os x)"
      using m Some by (auto simp: static_through_def split: if_splits)
    then show ?thesis using away through_kept [OF assms(1) b(2)] by (auto simp: darwin_elsewhere_def)
  qed
qed

lemma darwin_deleted:
  assumes "routing_ok B rib" and "bsd_DelRoute B w os d = (w', True)" and "darwin_fits d"
  shows "darwin_routes B rib (bw_os w') os = darwin_routes B rib (bw_os w) os - {d}"
proof -
  obtain b r m where m: "bsd_Marshal B m = Some b" "bsd_WriteRoute B (bw_os w) b = (bw_os w', r)" "rm_Type m = RTM_DELETE"
    and r: "r = RtOk \<or> r = RtMissing" and x: "map_option masked (destination m) = Some d"
    using change_route_steps [OF assms(2) [unfolded bsd_DelRoute_def] _ assms(3)] by (metis rt_result.distinct(11))
  note route_deleted [OF assms(1) m r, unfolded x] and kept = through_kept [OF assms(1) m(2)]
  then show ?thesis by (auto simp: darwin_routes_def kept)
qed

abbreviation unfit :: "prefix set" where
  "unfit \<equiv> {d. \<not> darwin_fits d}"

lemma bsd_facts:
  assumes "bsd_ok B L rib peers"
  shows "routing_ok B rib"
    and "settles B rib (req_routes req \<union> unfit) k (fst (bsd_ioctl B k family req))" "peers (fst (bsd_ioctl B k family req)) = peers k"
    and "peers (fst (bsd_WriteRoute B k b)) = peers k" and "settles B rib {} k (fst (bsd_Configure B k name cfg))"
    and "bsd_Configure B k name cfg = (k', True) \<Longrightarrow> dcf_ReplacePeers cfg \<Longrightarrow> peers k' name = dcf_Peers cfg"
  using assms by (simp_all add: bsd_ok_def bsd_ioctl_def)

lemma device_settles:
  assumes "bsd_ok B L rib peers"
  shows "settles B rib {} k (fst (tl_CreateTUN L k n mtu))" "settles B rib {} k (tl_CloseTUN L k t)"
    "settles B rib {} k (fst (tl_NewDevice L k t))" "settles B rib {} k (tl_CloseDevice L k d)"
    "settles B rib {} k (tl_CloseListener L k l)" "settles B rib {} k (fst (tl_uapiListen L k n))"
    "settles B rib {} k (fst (darwin_published B join k n os))"
  using assms settles_trans [of B rib "{}" k "fst (bsd_MkdirAll B k nameDir)"]
  by (auto simp: bsd_ok_def darwin_published_def case_prod_beta split: prod.splits bool.splits)

lemma create_settles:
  assumes "bsd_ok B L rib peers"
  shows "settles B rib {} k (fst (us_Create (darwin_lib B join L) k u name mtu))"
  by (rule us_Create_frame) (simp_all add: darwin_lib_def device_settles [OF assms], erule (1) settles_trans)

lemma SetAddr_settles:
  assumes "bsd_ok B L rib peers" and "a \<noteq> NoAddr"
  shows "settles B rib (insert (hostPrefix a) unfit) k (fst (bsd_SetAddr B k os (hostPrefix a)))"
proof (cases "ifName os")
  case None
  then show ?thesis by (simp add: bsd_SetAddr_def)
next
  case (Some name)
  have sub: "req_routes req = {hostPrefix a} \<Longrightarrow> settles B rib (insert (hostPrefix a) unfit) k (fst (bsd_ioctl B k family req))" for req family
    using bsd_facts(2) [OF assms(1), of req k family] by simp
  have host: "pfx_bits (hostPrefix (Addr4 v)) = 32" "pfx_bits (hostPrefix (Addr6 w z)) = 128" "pfx_addr (hostPrefix (Addr4 v)) = Addr4 v"
    "pfx_addr (hostPrefix (Addr6 w z)) = Addr6 w []" for v w z
    by (simp_all add: hostPrefix_def prefix_from_def)
  have mask: "As4 (mask4 (hostPrefix (Addr4 v))) = CIDRMask 32 32" "As16 (mask6 (hostPrefix (Addr6 w z))) = CIDRMask 128 128" for v w z
    using mask_addresses [of "hostPrefix (Addr4 v)"] mask_addresses [of "hostPrefix (Addr6 w z)"] by (simp_all add: host)
  have alone: "masked (prefix_from (Addr4 v) 32) = hostPrefix (Addr4 v)" "masked (prefix_from (Addr6 w []) 128) = hostPrefix (Addr6 w z)"
    "hostPrefix (Addr6 w []) = hostPrefix (Addr6 w z)" for v w z
    by (simp_all add: masked_def hostPrefix_def prefix_from_def clear_low_def)
  show ?thesis
  proof (cases a)
    case NoAddr
    with assms(2) show ?thesis by simp
  next
    case (Addr4 v)
    then show ?thesis using Some
      by (auto simp: bsd_SetAddr_def case_prod_beta host sockaddr4_def intro!: sub [unfolded Addr4])
        (simp_all add: req_routes_def array_addresses mask mask_size_CIDRMask alone)
  next
    case (Addr6 w z)
    then show ?thesis using Some
      by (auto simp: bsd_SetAddr_def case_prod_beta host sockaddr6_def intro!: sub [unfolded Addr6])
        (simp_all add: req_routes_def array_addresses mask mask_size_CIDRMask alone(2,3) [of w z])
  qed
qed

lemma link_settles:
  assumes "bsd_ok B L rib peers"
  shows "settles B rib unfit k (fst (bsd_SetMTU B k os m))" "settles B rib unfit k (fst (bsd_Up B k os))"
    "peers (fst (bsd_SetAddr B k os p)) = peers k" "peers (fst (bsd_SetMTU B k os m)) = peers k" "peers (fst (bsd_Up B k os)) = peers k"
proof -
  have plain: "settles B rib unfit k (fst (bsd_ioctl B k AF_INET (SIFMTU n mtu)))" "settles B rib unfit k (fst (bsd_ioctl B k AF_INET (GIFFLAGS r)))"
    "settles B rib unfit k (fst (bsd_ioctl B k AF_INET (SIFFLAGS r)))" for k n mtu r
    using bsd_facts(2) [OF assms, of "SIFMTU n mtu"] bsd_facts(2) [OF assms, of "GIFFLAGS r"] bsd_facts(2) [OF assms, of "SIFFLAGS r"]
    by (simp_all add: req_routes_def)
  note keep = bsd_facts(3) [OF assms]
  show "settles B rib unfit k (fst (bsd_SetMTU B k os m))" "peers (fst (bsd_SetMTU B k os m)) = peers k"
    using plain(1) keep by (simp_all add: bsd_SetMTU_def case_prod_beta split: option.split)
  show "peers (fst (bsd_SetAddr B k os p)) = peers k"
    using keep by (simp add: bsd_SetAddr_def case_prod_beta split: option.split)
  obtain k1 ans where k1: "bsd_ioctl B k AF_INET (GIFFLAGS \<lparr>ifr_Name = the (ifName os), ifr_Flags = 0\<rparr>) = (k1, ans)"
    by (cases "bsd_ioctl B k AF_INET (GIFFLAGS \<lparr>ifr_Name = the (ifName os), ifr_Flags = 0\<rparr>)")
  have "settles B rib unfit k k1" "peers k1 = peers k"
    using plain(2) [of k "\<lparr>ifr_Name = the (ifName os), ifr_Flags = 0\<rparr>"] keep [of k AF_INET "GIFFLAGS \<lparr>ifr_Name = the (ifName os), ifr_Flags = 0\<rparr>"] k1
    by simp_all
  then show "settles B rib unfit k (fst (bsd_Up B k os))" "peers (fst (bsd_Up B k os)) = peers k"
    using k1 plain(3) [of k1] keep [of k1] settles_trans [of B rib unfit k k1]
    by (auto simp: bsd_Up_def case_prod_beta split: option.split ioctl_req.split)
qed

text \<open>The macOS linker and the device in the process keep what the platform's interface promises.\<close>

lemma bsd_platform:
  assumes "bsd_ok B L rib peers"
  shows "platform (darwin_ops B join L) (\<lambda>w. darwin_routes B rib (bw_os w)) (\<lambda>w. peers (bw_os w)) darwin_fits darwin_fits (\<lambda>_. True)
    (\<lambda>w. darwin_elsewhere B rib (bw_os w))"
proof
  note routing = bsd_facts(1) [OF assms]
  fix w os d w'
  show "True \<Longrightarrow> lk_AddRoute (darwin_ops B join L) w os d = (w', True) \<Longrightarrow> darwin_fits d \<Longrightarrow> \<not> darwin_elsewhere B rib (bw_os w) os d \<Longrightarrow>
      darwin_routes B rib (bw_os w') os = insert d (darwin_routes B rib (bw_os w) os)"
    using darwin_added [OF routing] by (simp add: darwin_ops_def)
  show "True \<Longrightarrow> lk_DelRoute (darwin_ops B join L) w os d = (w', True) \<Longrightarrow> darwin_fits d \<Longrightarrow>
      darwin_routes B rib (bw_os w') os = darwin_routes B rib (bw_os w) os - {d}"
    using darwin_deleted [OF routing] by (simp add: darwin_ops_def)
next
  fix w os rs
  show "True \<Longrightarrow> lk_Routes (darwin_ops B join L) w os = Some rs \<Longrightarrow> darwin_routes B rib (bw_os w) os \<subseteq> set rs \<and> (\<forall>d \<in> set rs. darwin_fits d)"
    using darwin_listed [OF bsd_facts(1) [OF assms]] by (simp add: darwin_ops_def)
next
  fix w iface cfg w'
  show "ConfigureDevice (darwin_ops B join L) w iface cfg = (w', True) \<Longrightarrow> dcf_ReplacePeers cfg \<Longrightarrow> peers (bw_os w') iface = dcf_Peers cfg"
    using bsd_facts(6) [OF assms] by (auto simp: darwin_ops_def on_os_def split: prod.splits)
next
  fix w os p m
  show "peers (bw_os (fst (lk_SetAddr (darwin_ops B join L) w os p))) = peers (bw_os w)"
    "peers (bw_os (fst (lk_SetMTU (darwin_ops B join L) w os m))) = peers (bw_os w)"
    "peers (bw_os (fst (lk_Up (darwin_ops B join L) w os))) = peers (bw_os w)"
    using link_settles [OF assms] by (simp_all add: darwin_ops_def on_os_def case_prod_beta)
  have "peers (fst (sendRoute B k r)) = peers k" for k r
    using bsd_facts(4) [OF assms] by (simp add: sendRoute_def split: option.split)
  then show "peers (bw_os (fst (lk_AddRoute (darwin_ops B join L) w os p))) = peers (bw_os w)"
    "peers (bw_os (fst (lk_DelRoute (darwin_ops B join L) w os p))) = peers (bw_os w)"
    by (simp_all add: darwin_ops_def bsd_AddRoute_def bsd_DelRoute_def change_route_def Let_def case_prod_beta split: option.split)
next
  fix w iface m w' os d cfg a p
  let ?P = "darwin_ops B join L" and ?away = "\<lambda>w. darwin_elsewhere B rib (bw_os w) os d"
  have "settles B rib {} (bw_os w) (bw_os (fst (dev_Create ?P w iface m)))"
    using create_settles [OF assms] by (simp add: darwin_ops_def us_world_Create_def case_prod_beta)
  then show "dev_Create ?P w iface m = (w', Some os) \<Longrightarrow> ?away w' \<Longrightarrow> ?away w"
    using settles_elsewhere [of B rib "{}"] by fastforce
  show "?away (fst (ConfigureDevice ?P w iface cfg)) \<Longrightarrow> ?away w"
    using settles_elsewhere [OF bsd_facts(5) [OF assms]] by (simp add: darwin_ops_def on_os_def case_prod_beta)
  show "?away (fst (lk_SetAddr ?P w os (hostPrefix a))) \<Longrightarrow> a \<noteq> NoAddr \<Longrightarrow> darwin_fits d \<Longrightarrow> d \<noteq> hostPrefix a \<Longrightarrow> ?away w"
    using settles_elsewhere [OF SetAddr_settles [OF assms]] by (simp add: darwin_ops_def on_os_def case_prod_beta)
  show "?away (fst (lk_SetMTU ?P w os m)) \<Longrightarrow> darwin_fits d \<Longrightarrow> ?away w"
    using settles_elsewhere [OF link_settles(1) [OF assms]] by (simp add: darwin_ops_def on_os_def case_prod_beta)
  show "?away (fst (lk_Up ?P w os)) \<Longrightarrow> darwin_fits d \<Longrightarrow> ?away w"
    using settles_elsewhere [OF link_settles(2) [OF assms]] by (simp add: darwin_ops_def on_os_def case_prod_beta)
  show "?away (fst (lk_AddRoute ?P w os p)) \<Longrightarrow> ?away w"
    using AddRoute_elsewhere [OF bsd_facts(1) [OF assms]] by (simp add: darwin_ops_def)
qed

text \<open>
  What \<^verbatim>\<open>status\<close> looks up is what the agent published: where a file that was written can be read, a
  name with no white space in it comes back.
\<close>

lemma osNameOf_published:
  assumes "darwin_published B join k name os = (k', True)"
    and "\<And>k p t k'. bsd_WriteFile B k p t = (k', True) \<Longrightarrow> bsd_ReadFile B k' p = Some t"
    and "TrimSpace (os @ [CHR 0x0A]) = os"
  shows "osNameOf B join k' name = Some os"
  using assms by (auto simp: darwin_published_def osNameOf_def split: prod.splits bool.splits)

section \<open>A concrete system\<close>

text \<open>Two interfaces, a routing table, the peers of a device and the files, next to what is open.\<close>

type_synonym demo_bsd_kernel = "resource list \<times> (rib_message list \<times> peer_config list \<times> (string \<rightharpoonup> string))"

definition demo_names :: "string \<Rightarrow> nat option" where
  "demo_names name = (if name = ''utun4'' then Some 4 else if name = ''en0'' then Some 1 else None)"

definition in_form :: "rib_message \<Rightarrow> bool" where
  "in_form y = (case y of OtherMsg \<Rightarrow> True | RouteMsg x \<Rightarrow> (case destination x of None \<Rightarrow> True | Some d \<Rightarrow> prefix_is_valid d \<and> masked d = d))"

definition demo_rib :: "demo_bsd_kernel \<Rightarrow> rib_message set" where
  "demo_rib k = set (filter in_form (fst (snd k)))"

definition about :: "prefix option \<Rightarrow> rib_message \<Rightarrow> bool" where
  "about d y = (case y of OtherMsg \<Rightarrow> False | RouteMsg x \<Rightarrow> destination x = d)"

fun demo_write :: "demo_bsd_kernel \<Rightarrow> rib_message list \<Rightarrow> demo_bsd_kernel \<times> rt_result" where
  "demo_write (rs, table, rest) [RouteMsg m] =
     (if rm_Type m = RTM_ADD then
        if \<exists>y \<in> set (filter in_form table). about (destination m) y then ((rs, table, rest), RtExist)
        else ((rs, RouteMsg m # table, rest), RtOk)
      else if rm_Type m = RTM_DELETE then ((rs, filter (\<lambda>y. \<not> about (destination m) y) table, rest), RtOk)
      else ((rs, table, rest), RtError))"
| "demo_write k _ = (k, RtError)"

definition demo_bsd :: "(demo_bsd_kernel, rib_message list) bsd" where
  "demo_bsd =
     \<lparr>bsd_InterfaceByName = (\<lambda>k. demo_names), bsd_InterfaceAddrs = (\<lambda>k i. Some []), bsd_Socket = (\<lambda>k f. True),
      bsd_Ioctl = (\<lambda>k req. (k, Some req)), bsd_FetchRIB = (\<lambda>k. Some (filter in_form (fst (snd k)))), bsd_ParseRIB = Some,
      bsd_Marshal = (\<lambda>m. case destination m of None \<Rightarrow> None | Some d \<Rightarrow> if darwin_fits d then Some [RouteMsg m] else None),
      bsd_WriteRoute = demo_write, bsd_MkdirAll = (\<lambda>k p. (k, True)),
      bsd_WriteFile = (\<lambda>(rs, table, peers, files) p t. ((rs, table, peers, files(p \<mapsto> t)), True)),
      bsd_ReadFile = (\<lambda>(rs, table, peers, files) p. files p),
      bsd_RemoveFile = (\<lambda>(rs, table, peers, files) p. ((rs, table, peers, files(p := None)), RmOk)), bsd_Getpid = 1,
      bsd_Configure = (\<lambda>(rs, table, peers, files) name cfg. ((rs, table, dcf_Peers cfg, files), True))\<rparr>"

definition demo_bsd_peers :: "demo_bsd_kernel \<Rightarrow> string \<Rightarrow> peer_config list" where
  "demo_bsd_peers k name = fst (snd (snd k))"

lemma about_iff: "about d y \<longleftrightarrow> (\<exists>x. y = RouteMsg x \<and> destination x = d)"
  by (cases y) (auto simp: about_def)

lemma demo_marshal: "bsd_Marshal demo_bsd m = Some b \<longleftrightarrow> b = [RouteMsg m] \<and> (\<exists>d. destination m = Some d \<and> darwin_fits d)"
  by (auto simp: demo_bsd_def split: option.splits)

lemma demo_added:
  assumes "bsd_Marshal demo_bsd m = Some b" and "demo_write k b = (k', r)" and "rm_Type m = RTM_ADD"
  shows "if r = RtOk then \<exists>x. demo_rib k' = insert (RouteMsg x) (demo_rib k) \<and> rm_Index x = rm_Index m \<and>
      rm_Flags x AND RTF_STATIC = rm_Flags m AND RTF_STATIC \<and> destination x = map_option masked (destination m)
    else demo_rib k' = demo_rib k \<and> (r = RtExist \<longrightarrow> (\<exists>x. RouteMsg x \<in> demo_rib k \<and> destination x = map_option masked (destination m)))"
proof -
  obtain rs table rest where k: "k = (rs, table, rest)" by (cases k)
  obtain d where d: "b = [RouteMsg m]" "destination m = Some d" "darwin_fits d" using assms(1) by (auto simp: demo_marshal)
  then have form: "in_form (RouteMsg m)" "map_option masked (destination m) = destination m" by (simp_all add: in_form_def darwin_fits_def)
  show ?thesis
  proof (cases "\<exists>y \<in> set (filter in_form table). about (destination m) y")
    case True
    then obtain x where "RouteMsg x \<in> demo_rib k" "destination x = destination m"
      by (auto simp: about_iff demo_rib_def k)
    moreover have "k' = k" "r = RtExist" using assms(2,3) True by (simp_all add: k d(1) split: if_splits)
    ultimately show ?thesis using form(2) by auto
  next
    case False
    then have "r = RtOk" "demo_rib k' = insert (RouteMsg m) (demo_rib k)"
      using assms(2,3) form(1) by (auto simp: k d(1) demo_rib_def split: if_splits)
    then show ?thesis using form(2) by auto
  qed
qed

lemma demo_routing: "routing_ok demo_bsd demo_rib"
  unfolding routing_ok_def
proof (intro conjI)
  show "\<forall>k m b k' r. bsd_Marshal demo_bsd m = Some b \<longrightarrow> bsd_WriteRoute demo_bsd k b = (k', r) \<longrightarrow> rm_Type m = RTM_ADD \<longrightarrow>
        (if r = RtOk then \<exists>x. demo_rib k' = insert (RouteMsg x) (demo_rib k) \<and> rm_Index x = rm_Index m \<and>
             rm_Flags x AND RTF_STATIC = rm_Flags m AND RTF_STATIC \<and> destination x = map_option masked (destination m)
         else demo_rib k' = demo_rib k \<and> (r = RtExist \<longrightarrow> (\<exists>x. RouteMsg x \<in> demo_rib k \<and> destination x = map_option masked (destination m))))"
    using demo_added by (simp add: demo_bsd_def)
  show "\<forall>k m b k' r. bsd_Marshal demo_bsd m = Some b \<longrightarrow> bsd_WriteRoute demo_bsd k b = (k', r) \<longrightarrow> rm_Type m = RTM_DELETE \<longrightarrow> r = RtOk \<or> r = RtMissing \<longrightarrow>
        demo_rib k' = {y \<in> demo_rib k. \<forall>x. y = RouteMsg x \<longrightarrow> destination x \<noteq> map_option masked (destination m)}"
  proof (intro allI impI)
    fix k :: demo_bsd_kernel and m b k' r
    assume a: "bsd_Marshal demo_bsd m = Some b" "bsd_WriteRoute demo_bsd k b = (k', r)" "rm_Type m = RTM_DELETE"
    obtain rs table rest where k: "k = (rs, table, rest)" by (cases k)
    obtain d where d: "b = [RouteMsg m]" "destination m = Some d" "masked d = d" using a(1) by (auto simp: demo_marshal darwin_fits_def)
    then have "k' = (rs, filter (\<lambda>y. \<not> about (destination m) y) table, rest)"
      using a(2,3) by (simp add: k demo_bsd_def RTM_ADD_def RTM_DELETE_def)
    then show "demo_rib k' = {y \<in> demo_rib k. \<forall>x. y = RouteMsg x \<longrightarrow> destination x \<noteq> map_option masked (destination m)}"
      using d by (auto simp: demo_rib_def k about_iff)
  qed
qed (auto simp: demo_bsd_def demo_rib_def in_form_def split: option.splits)

lemma demo_rib_only: "fst (snd k') = fst (snd k) \<Longrightarrow> settles demo_bsd demo_rib D k k'"
  by (simp add: settles_def demo_rib_def demo_bsd_def)

lemma demo_bsd_ok: "bsd_ok demo_bsd (demo_tun ''utun4'' {} True) demo_rib demo_bsd_peers"
proof -
  have "demo_bsd_peers (fst (bsd_WriteRoute demo_bsd k b)) = demo_bsd_peers k" for k b
    by (cases "(k, b)" rule: demo_write.cases) (simp_all add: demo_bsd_def demo_bsd_peers_def fun_eq_iff)
  then show ?thesis unfolding bsd_ok_def
    by (auto simp: demo_routing demo_bsd_peers_def intro!: demo_rib_only) (auto simp: demo_bsd_def demo_tun_def)
qed

text \<open>So the linker provides the interface \<open>platform\<close> on every kernel that keeps these promises.\<close>

locale macos_kernel =
  fixes B :: "('k, 'raw) bsd" and join :: "string \<Rightarrow> string \<Rightarrow> string" and L :: "'k tun_lib"
    and rib :: "'k \<Rightarrow> rib_message set" and peers :: "'k \<Rightarrow> string \<Rightarrow> peer_config list"
  assumes kernel: "bsd_ok B L rib peers"

sublocale macos_kernel \<subseteq> platform "darwin_ops B join L" "\<lambda>w. darwin_routes B rib (bw_os w)" "\<lambda>w. peers (bw_os w)" darwin_fits darwin_fits
  "\<lambda>_. True" "\<lambda>w. darwin_elsewhere B rib (bw_os w)"
  using kernel by (rule bsd_platform)

sublocale macos_kernel \<subseteq> removable "darwin_ops B join L" device_closed
  by unfold_locales (simp add: darwin_ops_def us_world_Delete_closed)

context macos_kernel
begin

lemmas installed_exactly = setup_exact

end

interpretation demo_darwin: macos_kernel demo_bsd "\<lambda>d n. d @ ''/'' @ n" "demo_tun ''utun4'' {} True" demo_rib demo_bsd_peers
  using demo_bsd_ok by (rule macos_kernel.intro)

section \<open>Properties\<close>

text \<open>
  C26. On macOS too, setting the interface up leaves exactly the cluster: if it succeeds, the device
  has one peer per node, in order, with its key, endpoint and networks and no other peer, and the
  static routes through its utun interface are the nodes' overlay addresses and advertised networks
  and nothing else, except possibly this node's own address. It holds for networks that are masked
  and neither multicast nor link-local, which the listing leaves out, as long as no other route to
  one of them exists, since adding a route then finds one that exists, and none is this node's
  own address.
\<close>

theorem macos_leaves_exactly_the_cluster:
  assumes "bsd_ok B L rib peers" and "SetUpInterface (darwin_ops B join L) parse s w nodes = (s', w', None)" and "ws_overlayAddr s \<noteq> NoAddr"
    and "\<forall>d \<in> set (concat (map peerPrefixes nodes)). darwin_fits d \<and> \<not> darwin_elsewhere B rib (bw_os w) (ws_osName s') d \<and>
      d \<noteq> hostPrefix (ws_overlayAddr s)"
  shows "nodesToPeerConfigs parse s nodes = Inr (peers (bw_os w') (ws_iface s)) \<and>
    set (concat (map peerPrefixes nodes)) \<subseteq> darwin_routes B rib (bw_os w') (ws_osName s') \<and>
    darwin_routes B rib (bw_os w') (ws_osName s') \<subseteq> insert (hostPrefix (ws_overlayAddr s)) (set (concat (map peerPrefixes nodes)))"
  using macos_kernel.installed_exactly [OF macos_kernel.intro [OF assms(1)] assms(2,3) TrueI assms(4)] .

abbreviation demo_mac :: "demo_bsd_kernel bsd_world platform_ops" where
  "demo_mac \<equiv> darwin_ops demo_bsd (\<lambda>d n. d @ ''/'' @ n) (demo_tun ''utun4'' {} True)"

definition demo_mac_state :: wg_state where
  "demo_mac_state = \<lparr>ws_iface = ''wg0'', ws_mtu = 1420, ws_keepalive = 0, ws_osName = [], ws_privKey = [1], ws_overlayAddr = Addr4 0x0A000001,
     ws_port = 51820, ws_PubKey = [2]\<rparr>"

definition demo_mac_node :: node where
  "demo_mac_node = \<lparr>meta_overlayAddr = Addr4 0x0A000002, meta_pubKey = ''k'', meta_allowedIPs = [], meta_identity = 2, meta_signature = [],
     node_name = ''b'', node_addr = Addr4 0xC0000202, node_port = 7946\<rparr>"

definition demo_stale :: route_message where
  "demo_stale = routeMessage 1 RTM_ADD 4 0 (hostPrefix (Addr4 0x0A000009))"

definition demo_mac_world :: "demo_bsd_kernel bsd_world" where
  "demo_mac_world = \<lparr>bw_os = ([], [RouteMsg demo_stale], [], Map.empty), bw_dev = no_device, bw_routeSeq = 0\<rparr>"

lemma demo_fields: "bsd_Getpid demo_bsd = 1" "bsd_InterfaceByName demo_bsd k ''utun4'' = Some 4" "bsd_Socket demo_bsd k f" "bsd_WriteRoute demo_bsd = demo_write"
  by (simp_all add: demo_bsd_def demo_names_def)

lemma demo_write_result: "rm_Type m = RTM_ADD \<Longrightarrow> snd (demo_write k [RouteMsg m]) \<in> {RtOk, RtExist}" "rm_Type m = RTM_DELETE \<Longrightarrow> snd (demo_write k [RouteMsg m]) = RtOk"
  by (cases k; simp add: RTM_ADD_def RTM_DELETE_def)+

lemma demo_change_route:
  assumes "darwin_fits d" and "typ = RTM_ADD \<and> fine = RtExist \<or> typ = RTM_DELETE \<and> fine = RtMissing"
  shows "snd (change_route demo_bsd typ fine w ''utun4'' d)"
proof -
  obtain m where m: "m = routeMessage 1 typ 4 (bw_routeSeq w + 1) d" by simp
  have "destination m = Some d" using assms(1) destination_routeMessage unfolding m by (simp add: darwin_fits_def)
  then have "bsd_Marshal demo_bsd m = Some [RouteMsg m]" using assms(1) by (simp add: demo_marshal)
  moreover have "rm_Type m = typ" by (simp add: m routeMessage_def Let_def)
  ultimately show ?thesis using assms(2) demo_write_result [of m "bw_os w"]
    by (auto simp: change_route_def sendRoute_def Let_def demo_fields m [symmetric] simp del: One_nat_def split: prod.splits)
qed

lemma demo_mac_add: "\<forall>d \<in> set ds. darwin_fits d \<Longrightarrow> snd (add_routes demo_mac ''utun4'' w ds) = None"
proof (induction ds arbitrary: w)
  case (Cons d ds)
  then have "snd (lk_AddRoute demo_mac w ''utun4'' d)" using demo_change_route by (simp add: darwin_ops_def bsd_AddRoute_def)
  then show ?case using Cons by (cases "lk_AddRoute demo_mac w ''utun4'' d") simp
qed simp

lemma demo_mac_del: "\<forall>d \<in> set ds. darwin_fits d \<Longrightarrow> snd (del_routes demo_mac ''utun4'' wanted w ds) = None"
proof (induction ds arbitrary: w)
  case (Cons d ds)
  then have "snd (lk_DelRoute demo_mac w ''utun4'' d)" using demo_change_route by (simp add: darwin_ops_def bsd_DelRoute_def)
  then show ?case using Cons by (cases "lk_DelRoute demo_mac w ''utun4'' d") simp
qed simp

lemma demo_mac_stale: "snd (removeStaleRoutes demo_mac s ''utun4'' wanted w) = None"
proof -
  obtain rs where rs: "lk_Routes demo_mac w ''utun4'' = Some rs"
    by (auto simp: darwin_ops_def bsd_Routes_def demo_bsd_def demo_names_def)
  then have "\<forall>d \<in> set rs. darwin_fits d" using demo_darwin.listed by blast
  then show ?thesis using rs demo_mac_del by (simp add: removeStaleRoutes_def)
qed

lemma demo_mac_ops:
  "bw_dev w = no_device \<Longrightarrow> \<exists>w1. dev_Create demo_mac w n m = (w1, Some ''utun4'')" "snd (ConfigureDevice demo_mac w n cfg)"
  "snd (lk_SetAddr demo_mac w ''utun4'' p)" "snd (lk_SetMTU demo_mac w ''utun4'' m)" "snd (lk_Up demo_mac w ''utun4'')"
proof -
  have name: "\<exists>x. ifName ''utun4'' = Some x" by (simp add: ifName_def IFNAMSIZ_def)
  show "bw_dev w = no_device \<Longrightarrow> \<exists>w1. dev_Create demo_mac w n m = (w1, Some ''utun4'')"
    by (simp add: darwin_ops_def us_world_Create_def us_Create_def us_start_def darwin_lib_def darwin_published_def demo_tun_def demo_bsd_def
        split: prod.split)
  show "snd (ConfigureDevice demo_mac w n cfg)" by (simp add: darwin_ops_def on_os_def demo_bsd_def split: prod.split)
  show "snd (lk_SetAddr demo_mac w ''utun4'' p)" "snd (lk_SetMTU demo_mac w ''utun4'' m)" "snd (lk_Up demo_mac w ''utun4'')"
    using name by (auto simp: darwin_ops_def on_os_def bsd_SetAddr_def bsd_SetMTU_def bsd_Up_def bsd_ioctl_def demo_bsd_def IFF_UP_def)
qed

lemma demo_mac_setup:
  assumes "bw_dev w = no_device" and "\<forall>d \<in> set (peerPrefixes n). darwin_fits d"
  shows "\<exists>s' w'. SetUpInterface demo_mac (\<lambda>_. Some key) s w [n] = (s', w', None) \<and> ws_osName s' = ''utun4''"
proof -
  have split: "snd (f :: demo_bsd_kernel bsd_world \<times> bool) \<Longrightarrow> \<exists>w. f = (w, True)" for f by (cases f) simp
  obtain w1 where w1: "dev_Create demo_mac w (ws_iface s) (ws_mtu s) = (w1, Some ''utun4'')" using demo_mac_ops(1) [OF assms(1)] by blast
  obtain w2 where w2: "ConfigureDevice demo_mac w1 (ws_iface s) \<lparr>dcf_PrivateKey = ws_privKey s, dcf_ListenPort = ws_port s, dcf_ReplacePeers = True,
      dcf_Peers = [peer_config_of (s\<lparr>ws_osName := ''utun4''\<rparr>) key n]\<rparr> = (w2, True)" using split [OF demo_mac_ops(2)] by blast
  obtain w3 where w3: "lk_SetAddr demo_mac w2 ''utun4'' (hostPrefix (ws_overlayAddr s)) = (w3, True)" using split [OF demo_mac_ops(3)] by blast
  obtain w4 where w4: "lk_SetMTU demo_mac w3 ''utun4'' (ws_mtu s) = (w4, True)" using split [OF demo_mac_ops(4)] by blast
  obtain w5 where w5: "lk_Up demo_mac w4 ''utun4'' = (w5, True)" using split [OF demo_mac_ops(5)] by blast
  obtain w6 where w6: "add_routes demo_mac ''utun4'' w5 (peerPrefixes n) = (w6, None)"
    using demo_mac_add [OF assms(2)] by (metis surjective_pairing)
  obtain w7 where "removeStaleRoutes demo_mac (s\<lparr>ws_osName := ''utun4''\<rparr>) ''utun4'' (peerPrefixes n) w6 = (w7, None)"
    using demo_mac_stale by (metis surjective_pairing)
  then show ?thesis using w1 w2 w3 w4 w5 w6 by (simp add: SetUpInterface_def Let_def)
qed

lemma demo_hosts_fit: "darwin_fits (hostPrefix (Addr4 0x0A000002))" "darwin_fits (hostPrefix (Addr4 0x0A000009))"
  unfolding darwin_fits_def by (simp_all add: hostPrefix_def prefix_is_valid_def) code_simp+

theorem macos_leaves_exactly_the_cluster_witness:
  "\<exists>s' w'. SetUpInterface demo_mac (\<lambda>_. Some [9]) demo_mac_state demo_mac_world [demo_mac_node] = (s', w', None) \<and>
     length (demo_bsd_peers (bw_os w') ''wg0'') = 1 \<and>
     hostPrefix (Addr4 0x0A000002) \<in> darwin_routes demo_bsd demo_rib (bw_os w') ''utun4'' \<and>
     hostPrefix (Addr4 0x0A000009) \<in> darwin_routes demo_bsd demo_rib (bw_os demo_mac_world) ''utun4'' \<and>
     hostPrefix (Addr4 0x0A000009) \<notin> darwin_routes demo_bsd demo_rib (bw_os w') ''utun4''"
proof -
  have prefixes: "peerPrefixes demo_mac_node = [hostPrefix (Addr4 0x0A000002)]" by (simp add: peerPrefixes_def demo_mac_node_def)
  have "bw_dev demo_mac_world = no_device" by (simp add: demo_mac_world_def)
  then obtain s' w' where run: "SetUpInterface demo_mac (\<lambda>_. Some [9]) demo_mac_state demo_mac_world [demo_mac_node] = (s', w', None)" "ws_osName s' = ''utun4''"
    using demo_mac_setup [of demo_mac_world demo_mac_node "[9]" demo_mac_state] demo_hosts_fit(1) unfolding prefixes by auto
  have stale: "destination demo_stale = Some (hostPrefix (Addr4 0x0A000009))" "static_through demo_bsd k ''utun4'' demo_stale" for k
    using demo_hosts_fit(2) destination_routeMessage unfolding demo_stale_def
    by (simp_all add: darwin_fits_def) (simp add: static_through_def routeMessage_def Let_def demo_fields RTF_UP_def RTF_STATIC_def)
  then have "demo_rib (bw_os demo_mac_world) = {RouteMsg demo_stale}"
    using demo_hosts_fit(2) by (simp add: demo_rib_def demo_mac_world_def in_form_def darwin_fits_def)
  then have before: "hostPrefix (Addr4 0x0A000009) \<in> darwin_routes demo_bsd demo_rib (bw_os demo_mac_world) ''utun4''"
    "\<not> darwin_elsewhere demo_bsd demo_rib (bw_os demo_mac_world) ''utun4'' d" for d
    using stale demo_hosts_fit(2) by (auto simp: darwin_routes_def darwin_elsewhere_def darwin_fits_def)
  have other: "hostPrefix (Addr4 0x0A000002) \<noteq> hostPrefix (Addr4 0x0A000001)" "hostPrefix (Addr4 0x0A000009) \<noteq> hostPrefix (Addr4 0x0A000002)"
    "hostPrefix (Addr4 0x0A000009) \<noteq> hostPrefix (Addr4 0x0A000001)"
    by (simp_all add: hostPrefix_def prefix_from_def)
  have s: "ws_overlayAddr demo_mac_state = Addr4 0x0A000001" "ws_iface demo_mac_state = ''wg0''" by (simp_all add: demo_mac_state_def)
  have "\<forall>d \<in> set (concat (map peerPrefixes [demo_mac_node])). darwin_fits d \<and>
      \<not> darwin_elsewhere demo_bsd demo_rib (bw_os demo_mac_world) (ws_osName s') d \<and> d \<noteq> hostPrefix (ws_overlayAddr demo_mac_state)"
    using before(2) demo_hosts_fit(1) other(1) by (simp add: prefixes run(2) s)
  from macos_leaves_exactly_the_cluster [OF demo_bsd_ok run(1) _ this]
  have "Inr (demo_bsd_peers (bw_os w') ''wg0'') = nodesToPeerConfigs (\<lambda>_. Some [9]) demo_mac_state [demo_mac_node] \<and>
      hostPrefix (Addr4 0x0A000002) \<in> darwin_routes demo_bsd demo_rib (bw_os w') ''utun4'' \<and>
      hostPrefix (Addr4 0x0A000009) \<notin> darwin_routes demo_bsd demo_rib (bw_os w') ''utun4''"
    using other by (auto simp: prefixes run(2) s)
  then show ?thesis using run(1) before(1) by (auto intro!: exI)
qed

end
