(* ===== verification/Link_Windows.thy ===== *)
theory Link_Windows
  imports Userspace
begin

text \<open>
  The Windows platform, \<^verbatim>\<open>internal/wg/link_windows.go\<close> and \<^verbatim>\<open>platform_windows.go\<close>: the linker over the IP
  helper API and the device in the process on a Wintun adapter. The \<^verbatim>\<open>winipcfg\<close> library is a record of
  operations on a kernel state; what the code relies on of it is \<open>winipcfg_ok\<close>. A LUID is a number.
  The linker and the device together are an instance of the locale \<open>platform\<close>.
\<close>

section \<open>winipcfg\<close>

datatype win_result = WinOk | WinExists | WinNotFound | WinError

datatype win_family = WinInet | WinInet6

text \<open>A row of the forwarding table; \<open>mib_Destination\<close> is what its \<^verbatim>\<open>DestinationPrefix.Prefix()\<close> answers.\<close>

record mib_row =
  mib_LUID :: nat
  mib_Protocol :: nat
  mib_Destination :: prefix
  mib_NextHop :: addr

definition RouteProtocolNetMgmt :: nat where "RouteProtocolNetMgmt = 3"

text \<open>
  \<open>wi_InterfaceByName\<close> answers the index and whether the interface is up; \<open>wi_IPInterface\<close> whether the
  adapter has a row for the family, which \<open>wi_SetMTU\<close> writes back with another MTU.
\<close>

record 'k winipcfg =
  wi_InterfaceByName :: "'k \<Rightarrow> string \<Rightarrow> (nat \<times> bool) option"
  wi_LUIDFromIndex :: "'k \<Rightarrow> 32 word \<Rightarrow> nat option"
  wi_InterfaceAddrs :: "'k \<Rightarrow> nat \<Rightarrow> iface_addr list option"
  wi_AddIPAddress :: "'k \<Rightarrow> nat \<Rightarrow> prefix \<Rightarrow> 'k \<times> win_result"
  wi_IPInterface :: "'k \<Rightarrow> nat \<Rightarrow> win_family \<Rightarrow> win_result"
  wi_SetMTU :: "'k \<Rightarrow> nat \<Rightarrow> win_family \<Rightarrow> 32 word \<Rightarrow> 'k \<times> bool"
  wi_GetIPForwardTable2 :: "'k \<Rightarrow> mib_row list option"
  wi_AddRoute :: "'k \<Rightarrow> nat \<Rightarrow> prefix \<Rightarrow> addr \<Rightarrow> nat \<Rightarrow> 'k \<times> win_result"
  wi_DeleteRoute :: "'k \<Rightarrow> nat \<Rightarrow> prefix \<Rightarrow> addr \<Rightarrow> 'k \<times> win_result"
  wi_Configure :: "'k \<Rightarrow> string \<Rightarrow> device_config \<Rightarrow> 'k \<times> bool"

section \<open>The linker\<close>

definition luidOf :: "'k winipcfg \<Rightarrow> 'k \<Rightarrow> string \<Rightarrow> nat option" where
  "luidOf W k iface =
     (case wi_InterfaceByName W k iface of
        None \<Rightarrow> None
      | Some (i, _) \<Rightarrow> wi_LUIDFromIndex W k (of_nat i))"

definition win_SetAddr :: "'k winipcfg \<Rightarrow> 'k \<Rightarrow> string \<Rightarrow> prefix \<Rightarrow> 'k \<times> bool" where
  "win_SetAddr W k iface a =
     (case luidOf W k iface of
        None \<Rightarrow> (k, False)
      | Some luid \<Rightarrow> (case wi_AddIPAddress W k luid a of (k', r) \<Rightarrow> (k', r = WinOk \<or> r = WinExists)))"

fun set_mtus :: "'k winipcfg \<Rightarrow> nat \<Rightarrow> int \<Rightarrow> 'k \<Rightarrow> win_family list \<Rightarrow> 'k \<times> bool" where
  "set_mtus W luid mtu k [] = (k, True)"
| "set_mtus W luid mtu k (family # families) =
     (case wi_IPInterface W k luid family of
        WinNotFound \<Rightarrow> set_mtus W luid mtu k families
      | WinOk \<Rightarrow>
          (case wi_SetMTU W k luid family (word_of_int mtu) of
             (k', False) \<Rightarrow> (k', False)
           | (k', True) \<Rightarrow> set_mtus W luid mtu k' families)
      | _ \<Rightarrow> (k, False))"

definition win_SetMTU :: "'k winipcfg \<Rightarrow> 'k \<Rightarrow> string \<Rightarrow> int \<Rightarrow> 'k \<times> bool" where
  "win_SetMTU W k iface mtu =
     (case luidOf W k iface of
        None \<Rightarrow> (k, False)
      | Some luid \<Rightarrow> set_mtus W luid mtu k [WinInet, WinInet6])"

definition win_Up :: "'k winipcfg \<Rightarrow> 'k \<Rightarrow> string \<Rightarrow> 'k \<times> bool" where
  "win_Up W k iface = (k, case wi_InterfaceByName W k iface of None \<Rightarrow> False | Some (_, up) \<Rightarrow> up)"

definition win_Addrs :: "'k winipcfg \<Rightarrow> 'k \<Rightarrow> string \<Rightarrow> prefix list option" where
  "win_Addrs W k iface =
     (case wi_InterfaceByName W k iface of
        None \<Rightarrow> None
      | Some (i, _) \<Rightarrow> (case wi_InterfaceAddrs W k i of None \<Rightarrow> None | Some as \<Rightarrow> Some (List.map_filter iface_prefix as)))"

definition managedRoutes :: "mib_row list \<Rightarrow> nat \<Rightarrow> prefix list" where
  "managedRoutes rows luid =
     List.map_filter (\<lambda>row.
       if mib_LUID row \<noteq> luid \<or> mib_Protocol row \<noteq> RouteProtocolNetMgmt then None
       else if prefix_is_valid (mib_Destination row) then Some (mib_Destination row) else None) rows"

definition win_Routes :: "'k winipcfg \<Rightarrow> 'k \<Rightarrow> string \<Rightarrow> prefix list option" where
  "win_Routes W k iface =
     (case luidOf W k iface of
        None \<Rightarrow> None
      | Some luid \<Rightarrow> (case wi_GetIPForwardTable2 W k of None \<Rightarrow> None | Some rows \<Rightarrow> Some (managedRoutes rows luid)))"

definition nextHop :: "prefix \<Rightarrow> addr" where
  "nextHop dst = (if is4 (pfx_addr dst) then Addr4 0 else Addr6 0 '''')"

definition win_AddRoute :: "'k winipcfg \<Rightarrow> 'k \<Rightarrow> string \<Rightarrow> prefix \<Rightarrow> 'k \<times> bool" where
  "win_AddRoute W k iface dst =
     (case luidOf W k iface of
        None \<Rightarrow> (k, False)
      | Some luid \<Rightarrow> (case wi_AddRoute W k luid dst (nextHop dst) 0 of (k', r) \<Rightarrow> (k', r = WinOk \<or> r = WinExists)))"

definition win_DelRoute :: "'k winipcfg \<Rightarrow> 'k \<Rightarrow> string \<Rightarrow> prefix \<Rightarrow> 'k \<times> bool" where
  "win_DelRoute W k iface dst =
     (case luidOf W k iface of
        None \<Rightarrow> (k, False)
      | Some luid \<Rightarrow> (case wi_DeleteRoute W k luid dst (nextHop dst) of (k', r) \<Rightarrow> (k', r = WinOk \<or> r = WinNotFound)))"

section \<open>The platform\<close>

text \<open>The adapter carries the agent's name, so there is nothing to record.\<close>

definition win_lib :: "'k tun_lib \<Rightarrow> 'k tun_lib" where
  "win_lib L = L\<lparr>tl_tunName := tunName_other, tl_published := published_other, tl_unpublished := unpublished_other\<rparr>"

definition win_ops :: "'k winipcfg \<Rightarrow> 'k tun_lib \<Rightarrow> 'k us_world platform_ops" where
  "win_ops W L =
     \<lparr>dev_Create = us_world_Create (win_lib L), dev_Delete = us_world_Delete (win_lib L),
      ConfigureDevice = (\<lambda>w iface cfg. on_os (\<lambda>k. wi_Configure W k iface cfg) w),
      lk_SetAddr = (\<lambda>w os p. on_os (\<lambda>k. win_SetAddr W k os p) w), lk_SetMTU = (\<lambda>w os m. on_os (\<lambda>k. win_SetMTU W k os m) w),
      lk_Up = (\<lambda>w os. on_os (\<lambda>k. win_Up W k os) w), lk_Addrs = (\<lambda>w. win_Addrs W (bw_os w)), lk_Routes = (\<lambda>w. win_Routes W (bw_os w)),
      lk_AddRoute = (\<lambda>w os d. on_os (\<lambda>k. win_AddRoute W k os d) w), lk_DelRoute = (\<lambda>w os d. on_os (\<lambda>k. win_DelRoute W k os d) w)\<rparr>"

definition win_lookup :: "'k winipcfg \<Rightarrow> 'k \<Rightarrow> string \<Rightarrow> string option" where
  "win_lookup W k iface = (if wi_InterfaceByName W k iface = None then None else Some iface)"

definition win_remove :: "'k \<Rightarrow> string \<Rightarrow> 'k \<times> wg_error option" where
  "win_remove k iface = (k, None)"

section \<open>What the library documents\<close>

text \<open>The destinations the agent can route: not those the stack keeps routes of its own for.\<close>

definition win_fits :: "prefix \<Rightarrow> bool" where
  "win_fits d \<longleftrightarrow> wf_prefix d \<and> prefix_is_valid d \<and> masked d = d \<and> pfx_addr d \<noteq> Addr4 0xFFFFFFFF \<and>
     \<not> is_multicast (pfx_addr d) \<and> \<not> is_link_local_unicast (pfx_addr d)"

definition row_of :: "'k winipcfg \<Rightarrow> 'k \<Rightarrow> string \<Rightarrow> mib_row \<Rightarrow> bool" where
  "row_of W k os x \<longleftrightarrow> luidOf W k os = Some (mib_LUID x)"

definition on_link_row :: "prefix \<Rightarrow> mib_row \<Rightarrow> bool" where
  "on_link_row d x \<longleftrightarrow> mib_Destination x = d \<and> mib_NextHop x = nextHop d"

text \<open>
  The destinations routed on link through an interface by network management. A route by way of a
  gateway, which the agent never adds, is not one of them: \<open>Routes\<close> lists it and \<open>DelRoute\<close> does not
  find it (\<open>gateway_route_stays\<close>).
\<close>

definition win_routes :: "'k winipcfg \<Rightarrow> ('k \<Rightarrow> mib_row set) \<Rightarrow> 'k \<Rightarrow> string \<Rightarrow> prefix set" where
  "win_routes W table k os =
     {d. prefix_is_valid d \<and> (\<exists>x \<in> table k. row_of W k os x \<and> mib_Protocol x = RouteProtocolNetMgmt \<and> on_link_row d x)}"

text \<open>An on-link route through the interface that is there, but not one network management added.\<close>

definition win_elsewhere :: "'k winipcfg \<Rightarrow> ('k \<Rightarrow> mib_row set) \<Rightarrow> 'k \<Rightarrow> string \<Rightarrow> prefix \<Rightarrow> bool" where
  "win_elsewhere W table k os d \<longleftrightarrow> (\<exists>x \<in> table k. row_of W k os x \<and> mib_Protocol x \<noteq> RouteProtocolNetMgmt \<and> on_link_row d x)"

text \<open>
  From \<open>k\<close> to \<open>k'\<close> no on-link route that another than network management made comes up through an interface,
  except to destinations in \<open>D\<close>.
\<close>

definition win_settles :: "'k winipcfg \<Rightarrow> ('k \<Rightarrow> mib_row set) \<Rightarrow> prefix set \<Rightarrow> 'k \<Rightarrow> 'k \<Rightarrow> bool" where
  "win_settles W table D k k' \<longleftrightarrow> (\<forall>os d. win_elsewhere W table k' os d \<longrightarrow> d \<notin> D \<longrightarrow> win_elsewhere W table k os d)"

definition same_key :: "nat \<Rightarrow> prefix \<Rightarrow> addr \<Rightarrow> mib_row \<Rightarrow> bool" where
  "same_key luid d hop x \<longleftrightarrow> mib_LUID x = luid \<and> mib_Destination x = d \<and> mib_NextHop x = hop"

text \<open>
  The forwarding table is keyed by interface, destination and next hop: adding a row puts one of
  network management's there or finds the key taken, deleting one leaves none with the key. The
  stack adds rows for an address that is set and for the destinations that do not fit; devices and
  sockets bring none. Configuring with \<^verbatim>\<open>ReplacePeers\<close> sets the peers.
\<close>

definition winipcfg_ok ::
  "'k winipcfg \<Rightarrow> 'k tun_lib \<Rightarrow> ('k \<Rightarrow> mib_row set) \<Rightarrow> ('k \<Rightarrow> string \<Rightarrow> peer_config list) \<Rightarrow> bool" where
  "winipcfg_ok W L table peers \<longleftrightarrow>
     (\<forall>k rows. wi_GetIPForwardTable2 W k = Some rows \<longrightarrow> set rows = table k) \<and>
     (\<forall>k luid d hop m k' r. masked d = d \<longrightarrow> wi_AddRoute W k luid d hop m = (k', r) \<longrightarrow>
        (if r = WinOk then \<exists>x. table k' = insert x (table k) \<and> same_key luid d hop x \<and> mib_Protocol x = RouteProtocolNetMgmt
         else table k' = table k \<and> (r = WinExists \<longrightarrow> (\<exists>x \<in> table k. same_key luid d hop x)))) \<and>
     (\<forall>k luid d hop k' r. wi_DeleteRoute W k luid d hop = (k', r) \<longrightarrow> r = WinOk \<or> r = WinNotFound \<longrightarrow>
        table k' = {x \<in> table k. \<not> same_key luid d hop x}) \<and>
     (\<forall>k luid d hop m os. luidOf W (fst (wi_AddRoute W k luid d hop m)) os = luidOf W k os \<and> luidOf W (fst (wi_DeleteRoute W k luid d hop)) os = luidOf W k os) \<and>
     (\<forall>k luid d hop m. win_settles W table {} k (fst (wi_AddRoute W k luid d hop m))) \<and>
     (\<forall>k luid p. win_settles W table (insert p {d. \<not> win_fits d}) k (fst (wi_AddIPAddress W k luid p))) \<and>
     (\<forall>k luid f m. win_settles W table {d. \<not> win_fits d} k (fst (wi_SetMTU W k luid f m))) \<and>
     (\<forall>k name cfg. win_settles W table {} k (fst (wi_Configure W k name cfg))) \<and>
     (\<forall>k name cfg k'. wi_Configure W k name cfg = (k', True) \<longrightarrow> dcf_ReplacePeers cfg \<longrightarrow> peers k' name = dcf_Peers cfg) \<and>
     (\<forall>k luid d hop m f v p. peers (fst (wi_AddRoute W k luid d hop m)) = peers k \<and> peers (fst (wi_DeleteRoute W k luid d hop)) = peers k \<and>
        peers (fst (wi_AddIPAddress W k luid p)) = peers k \<and> peers (fst (wi_SetMTU W k luid f v)) = peers k) \<and>
     (\<forall>k n m t d l. win_settles W table {} k (fst (tl_CreateTUN L k n m)) \<and> win_settles W table {} k (tl_CloseTUN L k t) \<and>
        win_settles W table {} k (fst (tl_NewDevice L k t)) \<and> win_settles W table {} k (tl_CloseDevice L k d) \<and>
        win_settles W table {} k (tl_CloseListener L k l) \<and> win_settles W table {} k (fst (tl_uapiListen L k n)))"

lemma win_settles_refl [simp]: "win_settles W table D k k"
  by (simp add: win_settles_def)

lemma win_settles_trans: "win_settles W table D k k1 \<Longrightarrow> win_settles W table D k1 k2 \<Longrightarrow> win_settles W table D k k2"
  unfolding win_settles_def by blast

lemma win_settlesD: "win_settles W table D k k' \<Longrightarrow> win_elsewhere W table k' os d \<Longrightarrow> d \<notin> D \<Longrightarrow> win_elsewhere W table k os d"
  unfolding win_settles_def by blast

lemma win_facts:
  assumes "winipcfg_ok W L table peers"
  shows "wi_GetIPForwardTable2 W k = Some rows \<Longrightarrow> set rows = table k"
    and "luidOf W (fst (wi_AddRoute W k luid d hop m)) os = luidOf W k os" "luidOf W (fst (wi_DeleteRoute W k luid d hop)) os = luidOf W k os"
    and "win_settles W table {} k (fst (wi_AddRoute W k luid d hop m))"
    and "win_settles W table (insert p {d. \<not> win_fits d}) k (fst (wi_AddIPAddress W k luid p))"
    and "win_settles W table {d. \<not> win_fits d} k (fst (wi_SetMTU W k luid f v))"
    and "win_settles W table {} k (fst (wi_Configure W k name cfg))"
    and "wi_Configure W k name cfg = (k', True) \<Longrightarrow> dcf_ReplacePeers cfg \<Longrightarrow> peers k' name = dcf_Peers cfg"
  using assms by (simp_all add: winipcfg_ok_def)

lemma win_peers:
  assumes "winipcfg_ok W L table peers"
  shows "peers (fst (wi_AddRoute W k luid d hop m)) = peers k" "peers (fst (wi_DeleteRoute W k luid d hop)) = peers k"
    "peers (fst (wi_AddIPAddress W k luid p)) = peers k" "peers (fst (wi_SetMTU W k luid f v)) = peers k"
  using assms by (simp_all add: winipcfg_ok_def)

lemma row_added:
  assumes "winipcfg_ok W L table peers" and "masked d = d" and "wi_AddRoute W k luid d hop m = (k', r)"
  shows "if r = WinOk then \<exists>x. table k' = insert x (table k) \<and> same_key luid d hop x \<and> mib_Protocol x = RouteProtocolNetMgmt
    else table k' = table k \<and> (r = WinExists \<longrightarrow> (\<exists>x \<in> table k. same_key luid d hop x))"
proof -
  have "\<forall>k luid d hop m k' r. masked d = d \<longrightarrow> wi_AddRoute W k luid d hop m = (k', r) \<longrightarrow>
        (if r = WinOk then \<exists>x. table k' = insert x (table k) \<and> same_key luid d hop x \<and> mib_Protocol x = RouteProtocolNetMgmt
         else table k' = table k \<and> (r = WinExists \<longrightarrow> (\<exists>x \<in> table k. same_key luid d hop x)))"
    using assms(1) unfolding winipcfg_ok_def by (elim conjE)
  then show ?thesis using assms(2,3) by blast
qed

lemma row_deleted:
  assumes "winipcfg_ok W L table peers" and "wi_DeleteRoute W k luid d hop = (k', r)" and "r = WinOk \<or> r = WinNotFound"
  shows "table k' = {x \<in> table k. \<not> same_key luid d hop x}"
  using assms by (cases r) (simp_all add: winipcfg_ok_def)

lemma win_listed:
  assumes "winipcfg_ok W L table peers" and "win_Routes W k os = Some rs"
  shows "win_routes W table k os \<subseteq> set rs"
proof -
  obtain luid rows where luid: "luidOf W k os = Some luid" "wi_GetIPForwardTable2 W k = Some rows" "rs = managedRoutes rows luid"
    using assms(2) by (auto simp: win_Routes_def split: option.splits)
  have rows: "set rows = table k" by (rule win_facts(1) [OF assms(1) luid(2)])
  show ?thesis unfolding luid(3) managedRoutes_def List.map_filter_def win_routes_def row_of_def luid(1) rows [symmetric] on_link_row_def
    by (force split: if_splits)
qed

lemma win_added:
  assumes "winipcfg_ok W L table peers" and "win_AddRoute W k os d = (k', True)" and "win_fits d" and "\<not> win_elsewhere W table k os d"
  shows "win_routes W table k' os = insert d (win_routes W table k os)"
proof -
  obtain luid r where luid: "luidOf W k os = Some luid" "wi_AddRoute W k luid d (nextHop d) 0 = (k', r)" "r = WinOk \<or> r = WinExists"
    using assms(2) by (auto simp: win_AddRoute_def split: option.splits prod.splits)
  have fits: "prefix_is_valid d" "masked d = d" using assms(3) by (simp_all add: win_fits_def)
  note added = row_added [OF assms(1) fits(2) luid(2)]
  have kept: "row_of W k' os x = row_of W k os x" for x
    using win_facts(2) [OF assms(1), of k luid d "nextHop d" 0 os] luid(2) by (simp add: row_of_def)
  show ?thesis
  proof (cases "r = WinOk")
    case True
    then obtain x where x: "table k' = insert x (table k)" "same_key luid d (nextHop d) x" "mib_Protocol x = RouteProtocolNetMgmt" using added by auto
    then have "row_of W k os x" "on_link_row d x" using luid(1) by (simp_all add: row_of_def same_key_def on_link_row_def)
    then show ?thesis using x fits(1) by (auto simp: win_routes_def kept on_link_row_def)
  next
    case False
    then obtain x where x: "table k' = table k" "x \<in> table k" "same_key luid d (nextHop d) x" using added luid(3) by auto
    then have "row_of W k os x" "on_link_row d x" using luid(1) by (simp_all add: row_of_def same_key_def on_link_row_def)
    moreover from this have "mib_Protocol x = RouteProtocolNetMgmt" using assms(4) x(2) by (auto simp: win_elsewhere_def)
    ultimately show ?thesis using x fits(1) by (auto simp: win_routes_def kept on_link_row_def)
  qed
qed

lemma DelRoute_rows:
  assumes "winipcfg_ok W L table peers" and "win_DelRoute W k os d = (k', True)"
  shows "table k' = {x \<in> table k. \<not> (row_of W k os x \<and> on_link_row d x)} \<and> luidOf W k' os = luidOf W k os"
proof -
  obtain luid r where luid: "luidOf W k os = Some luid" "wi_DeleteRoute W k luid d (nextHop d) = (k', r)" "r = WinOk \<or> r = WinNotFound"
    using assms(2) by (auto simp: win_DelRoute_def split: option.splits prod.splits)
  have "same_key luid d (nextHop d) x \<longleftrightarrow> row_of W k os x \<and> on_link_row d x" for x
    using luid(1) by (auto simp: same_key_def row_of_def on_link_row_def)
  then show ?thesis
    using row_deleted [OF assms(1) luid(2,3)] win_facts(3) [OF assms(1), of k luid d "nextHop d" os] luid(2) by simp
qed

lemma win_deleted:
  assumes "winipcfg_ok W L table peers" and "win_DelRoute W k os d = (k', True)"
  shows "win_routes W table k' os = win_routes W table k os - {d}"
  using DelRoute_rows [OF assms] by (auto simp: win_routes_def row_of_def on_link_row_def)

text \<open>A listed route by way of a gateway is still there after it has been deleted successfully.\<close>

lemma gateway_route_stays:
  assumes "winipcfg_ok W L table peers" and "win_DelRoute W k os d = (k', True)"
    and "x \<in> table k" and "row_of W k os x" and "mib_Protocol x = RouteProtocolNetMgmt" and "mib_Destination x = d"
    and "mib_NextHop x \<noteq> nextHop d" and "prefix_is_valid d"
  shows "(\<forall>rs. win_Routes W k' os = Some rs \<longrightarrow> d \<in> set rs) \<and> x \<in> table k'"
proof -
  have kept: "x \<in> table k'" "luidOf W k' os = luidOf W k os"
    using DelRoute_rows [OF assms(1,2)] assms(3,7) by (auto simp: on_link_row_def)
  have "d \<in> set rs" if "win_Routes W k' os = Some rs" for rs
  proof -
    obtain luid rows where luid: "luidOf W k' os = Some luid" "wi_GetIPForwardTable2 W k' = Some rows" "rs = managedRoutes rows luid"
      using \<open>win_Routes W k' os = Some rs\<close> by (auto simp: win_Routes_def split: option.splits)
    have "x \<in> set rows" using win_facts(1) [OF assms(1) luid(2)] kept(1) by simp
    moreover have "mib_LUID x = luid" using assms(4) luid(1) kept(2) by (simp add: row_of_def)
    ultimately show ?thesis unfolding luid(3) managedRoutes_def List.map_filter_def using assms(5,6,8) by force
  qed
  with kept(1) show ?thesis by blast
qed

lemma set_mtus_settles:
  assumes "winipcfg_ok W L table peers"
  shows "win_settles W table {d. \<not> win_fits d} k (fst (set_mtus W luid mtu k fs)) \<and> peers (fst (set_mtus W luid mtu k fs)) = peers k"
proof (induction fs arbitrary: k)
  case (Cons f fs)
  obtain k1 ok where k1: "wi_SetMTU W k luid f (word_of_int mtu) = (k1, ok)" by (cases "wi_SetMTU W k luid f (word_of_int mtu)")
  then have "win_settles W table {d. \<not> win_fits d} k k1" "peers k1 = peers k"
    using win_facts(6) [OF assms, of k luid f "word_of_int mtu"] win_peers(4) [OF assms, of k luid f "word_of_int mtu"] by simp_all
  then show ?case using Cons.IH [of k] Cons.IH [of k1] k1 win_settles_trans [of W table "{d. \<not> win_fits d}" k k1]
    by (auto split: win_result.split bool.split)
qed simp

lemma win_create_settles:
  assumes "winipcfg_ok W L table peers"
  shows "win_settles W table {} k (fst (us_Create (win_lib L) k u name mtu))"
  by (rule us_Create_frame) (use assms in \<open>simp_all add: win_lib_def published_other_def winipcfg_ok_def\<close>, erule (1) win_settles_trans)

text \<open>The Windows linker and the device in the process keep what the platform's interface promises.\<close>

lemma win_platform:
  assumes "winipcfg_ok W L table peers"
  shows "platform (win_ops W L) (\<lambda>w. win_routes W table (bw_os w)) (\<lambda>w. peers (bw_os w)) win_fits (\<lambda>_. True) (\<lambda>_. True)
    (\<lambda>w. win_elsewhere W table (bw_os w))"
proof
  fix w os d w'
  show "True \<Longrightarrow> lk_AddRoute (win_ops W L) w os d = (w', True) \<Longrightarrow> win_fits d \<Longrightarrow> \<not> win_elsewhere W table (bw_os w) os d \<Longrightarrow>
      win_routes W table (bw_os w') os = insert d (win_routes W table (bw_os w) os)"
    using win_added [OF assms] by (auto simp: win_ops_def on_os_def split: prod.splits)
  show "True \<Longrightarrow> lk_DelRoute (win_ops W L) w os d = (w', True) \<Longrightarrow> True \<Longrightarrow>
      win_routes W table (bw_os w') os = win_routes W table (bw_os w) os - {d}"
    using win_deleted [OF assms] by (auto simp: win_ops_def on_os_def split: prod.splits)
next
  fix w os rs
  show "True \<Longrightarrow> lk_Routes (win_ops W L) w os = Some rs \<Longrightarrow> win_routes W table (bw_os w) os \<subseteq> set rs \<and> (\<forall>d \<in> set rs. True)"
    using win_listed [OF assms] by (simp add: win_ops_def)
next
  fix w iface cfg w'
  show "ConfigureDevice (win_ops W L) w iface cfg = (w', True) \<Longrightarrow> dcf_ReplacePeers cfg \<Longrightarrow> peers (bw_os w') iface = dcf_Peers cfg"
    using win_facts(8) [OF assms] by (auto simp: win_ops_def on_os_def split: prod.splits)
next
  fix w os p m
  show "peers (bw_os (fst (lk_SetAddr (win_ops W L) w os p))) = peers (bw_os w)" "peers (bw_os (fst (lk_SetMTU (win_ops W L) w os m))) = peers (bw_os w)"
    "peers (bw_os (fst (lk_Up (win_ops W L) w os))) = peers (bw_os w)"
    "peers (bw_os (fst (lk_AddRoute (win_ops W L) w os p))) = peers (bw_os w)" "peers (bw_os (fst (lk_DelRoute (win_ops W L) w os p))) = peers (bw_os w)"
    using win_peers [OF assms] set_mtus_settles [OF assms]
    by (simp_all add: win_ops_def on_os_def win_SetAddr_def win_SetMTU_def win_Up_def win_AddRoute_def win_DelRoute_def case_prod_beta
        del: set_mtus.simps split: option.split)
next
  fix w iface m w' os d cfg a p
  let ?P = "win_ops W L" and ?away = "\<lambda>w. win_elsewhere W table (bw_os w) os d"
  have "win_settles W table {} (bw_os w) (bw_os (fst (dev_Create ?P w iface m)))"
    using win_create_settles [OF assms] by (simp add: win_ops_def us_world_Create_def case_prod_beta)
  then show "dev_Create ?P w iface m = (w', Some os) \<Longrightarrow> ?away w' \<Longrightarrow> ?away w"
    using win_settlesD [of W table "{}"] by fastforce
  show "?away (fst (ConfigureDevice ?P w iface cfg)) \<Longrightarrow> ?away w"
    using win_settlesD [OF win_facts(7) [OF assms]] by (simp add: win_ops_def on_os_def case_prod_beta)
  show "?away (fst (lk_SetAddr ?P w os (hostPrefix a))) \<Longrightarrow> a \<noteq> NoAddr \<Longrightarrow> win_fits d \<Longrightarrow> d \<noteq> hostPrefix a \<Longrightarrow> ?away w"
    using win_settlesD [OF win_facts(5) [OF assms]]
    by (auto simp: win_ops_def on_os_def win_SetAddr_def case_prod_beta split: option.splits)
  show "?away (fst (lk_SetMTU ?P w os m)) \<Longrightarrow> win_fits d \<Longrightarrow> ?away w"
    using win_settlesD [OF set_mtus_settles [OF assms, THEN conjunct1]]
    by (auto simp: win_ops_def on_os_def win_SetMTU_def case_prod_beta simp del: set_mtus.simps split: option.splits)
  show "?away (fst (lk_Up ?P w os)) \<Longrightarrow> win_fits d \<Longrightarrow> ?away w"
    by (simp add: win_ops_def on_os_def win_Up_def)
  show "?away (fst (lk_AddRoute ?P w os p)) \<Longrightarrow> ?away w"
    using win_settlesD [OF win_facts(4) [OF assms]]
    by (auto simp: win_ops_def on_os_def win_AddRoute_def case_prod_beta split: option.splits)
qed

section \<open>A concrete system\<close>

text \<open>One adapter with LUID 70, a forwarding table and the peers of a device, next to what is open.\<close>

type_synonym demo_win_kernel = "resource list \<times> (mib_row list \<times> peer_config list)"

definition demo_fwd :: "demo_win_kernel \<Rightarrow> mib_row set" where
  "demo_fwd k = set (fst (snd k))"

definition demo_win_add :: "demo_win_kernel \<Rightarrow> nat \<Rightarrow> prefix \<Rightarrow> addr \<Rightarrow> demo_win_kernel \<times> win_result" where
  "demo_win_add k luid d hop =
     (if \<exists>x \<in> demo_fwd k. same_key luid d hop x then (k, WinExists)
      else ((fst k, \<lparr>mib_LUID = luid, mib_Protocol = RouteProtocolNetMgmt, mib_Destination = d, mib_NextHop = hop\<rparr> # fst (snd k), snd (snd k)), WinOk))"

definition demo_win :: "demo_win_kernel winipcfg" where
  "demo_win =
     \<lparr>wi_InterfaceByName = (\<lambda>k name. if name = ''wg0'' then Some (7, True) else None), wi_LUIDFromIndex = (\<lambda>k i. if i = 7 then Some 70 else None),
      wi_InterfaceAddrs = (\<lambda>k i. Some []), wi_AddIPAddress = (\<lambda>k luid p. (k, WinOk)), wi_IPInterface = (\<lambda>k luid f. if f = WinInet then WinOk else WinNotFound),
      wi_SetMTU = (\<lambda>k luid f m. (k, True)), wi_GetIPForwardTable2 = (\<lambda>k. Some (fst (snd k))),
      wi_AddRoute = (\<lambda>k luid d hop m. demo_win_add k luid d hop),
      wi_DeleteRoute = (\<lambda>k luid d hop. ((fst k, filter (\<lambda>x. \<not> same_key luid d hop x) (fst (snd k)), snd (snd k)), WinOk)),
      wi_Configure = (\<lambda>k name cfg. ((fst k, fst (snd k), dcf_Peers cfg), True))\<rparr>"

definition demo_win_peers :: "demo_win_kernel \<Rightarrow> string \<Rightarrow> peer_config list" where
  "demo_win_peers k name = snd (snd k)"

abbreviation demo_wintun :: "demo_win_kernel tun_lib" where
  "demo_wintun \<equiv> demo_tun ''wg0'' {} True"

lemma demo_luid: "luidOf demo_win k os = (if os = ''wg0'' then Some 70 else None)"
  by (simp add: luidOf_def demo_win_def)

lemma demo_win_away:
  "(\<And>x. x \<in> set (fst (snd k')) \<Longrightarrow> mib_Protocol x \<noteq> RouteProtocolNetMgmt \<Longrightarrow> x \<in> set (fst (snd k))) \<Longrightarrow> win_settles demo_win demo_fwd D k k'"
  by (auto simp: win_settles_def win_elsewhere_def row_of_def demo_luid demo_fwd_def split: if_splits)

lemma demo_win_added:
  assumes "demo_win_add k luid d hop = (k', r)"
  shows "if r = WinOk then \<exists>x. demo_fwd k' = insert x (demo_fwd k) \<and> same_key luid d hop x \<and> mib_Protocol x = RouteProtocolNetMgmt
    else demo_fwd k' = demo_fwd k \<and> (r = WinExists \<longrightarrow> (\<exists>x \<in> demo_fwd k. same_key luid d hop x))"
  using assms by (auto simp: demo_win_add_def demo_fwd_def same_key_def split: if_splits)

lemma demo_win_ok: "winipcfg_ok demo_win demo_wintun demo_fwd demo_win_peers"
proof -
  have add: "masked d = d \<longrightarrow> wi_AddRoute demo_win k luid d hop m = (k', r) \<longrightarrow>
        (if r = WinOk then \<exists>x. demo_fwd k' = insert x (demo_fwd k) \<and> same_key luid d hop x \<and> mib_Protocol x = RouteProtocolNetMgmt
         else demo_fwd k' = demo_fwd k \<and> (r = WinExists \<longrightarrow> (\<exists>x \<in> demo_fwd k. same_key luid d hop x)))" for k luid d hop m k' r
    using demo_win_added [of k luid d hop k' r] by (simp add: demo_win_def)
  show ?thesis unfolding winipcfg_ok_def
    by (intro conjI allI add) ((simp add: demo_luid; fail) | (rule demo_win_away, fastforce simp: demo_win_def demo_tun_def demo_win_add_def split: if_splits) |
      (fastforce simp: demo_win_def demo_tun_def demo_win_add_def demo_fwd_def demo_win_peers_def fun_eq_iff split: if_splits))+
qed

text \<open>So the linker provides the interface \<open>platform\<close> for its adapter wherever the library keeps these promises.\<close>

locale windows_stack =
  fixes W :: "'k winipcfg" and L :: "'k tun_lib" and table :: "'k \<Rightarrow> mib_row set" and peers :: "'k \<Rightarrow> string \<Rightarrow> peer_config list"
  assumes stack: "winipcfg_ok W L table peers"

sublocale windows_stack \<subseteq> platform "win_ops W L" "\<lambda>w. win_routes W table (bw_os w)" "\<lambda>w. peers (bw_os w)" win_fits "\<lambda>_. True" "\<lambda>_. True"
  "\<lambda>w. win_elsewhere W table (bw_os w)"
  using stack by (rule win_platform)

sublocale windows_stack \<subseteq> removable "win_ops W L" device_closed
  by unfold_locales (simp add: win_ops_def us_world_Delete_closed)

context windows_stack
begin

lemmas installed_exactly = setup_exact

end

interpretation demo_windows: windows_stack demo_win demo_wintun demo_fwd demo_win_peers
  using demo_win_ok by (rule windows_stack.intro)

section \<open>Properties\<close>

text \<open>
  C27. On Windows too, setting the interface up leaves exactly the cluster: if it succeeds, the device
  has one peer per node, in order, with its key, endpoint and networks and no other peer, and the
  on-link routes that network management keeps through the adapter are to the nodes' overlay addresses
  and advertised networks and nothing else, except possibly this node's own address; routes through
  the adapter by way of a gateway, which another program made, stay. The networks are masked ones the
  stack keeps no route of its own for, and none of them is this node's address.
\<close>

theorem windows_leaves_exactly_the_cluster:
  assumes "winipcfg_ok W L table peers" and "SetUpInterface (win_ops W L) parse s w nodes = (s', w', None)"
    and "ws_overlayAddr s \<noteq> NoAddr"
    and "\<forall>d \<in> set (concat (map peerPrefixes nodes)). win_fits d \<and> \<not> win_elsewhere W table (bw_os w) (ws_osName s') d \<and>
      d \<noteq> hostPrefix (ws_overlayAddr s)"
  shows "nodesToPeerConfigs parse s nodes = Inr (peers (bw_os w') (ws_iface s)) \<and>
    set (concat (map peerPrefixes nodes)) \<subseteq> win_routes W table (bw_os w') (ws_osName s') \<and>
    win_routes W table (bw_os w') (ws_osName s') \<subseteq> insert (hostPrefix (ws_overlayAddr s)) (set (concat (map peerPrefixes nodes)))"
  using windows_stack.installed_exactly [OF windows_stack.intro [OF assms(1)] assms(2,3) TrueI assms(4)] .

abbreviation demo_pc :: "demo_win_kernel us_world platform_ops" where
  "demo_pc \<equiv> win_ops demo_win demo_wintun"

definition demo_pc_state :: wg_state where
  "demo_pc_state = \<lparr>ws_iface = ''wg0'', ws_mtu = 1420, ws_keepalive = 0, ws_osName = [], ws_privKey = [1], ws_overlayAddr = Addr4 0x0A000001,
     ws_port = 51820, ws_PubKey = [2]\<rparr>"

definition demo_pc_node :: node where
  "demo_pc_node = \<lparr>meta_overlayAddr = Addr4 0x0A000002, meta_pubKey = ''k'', meta_allowedIPs = [], meta_identity = 2, meta_signature = [],
     node_name = ''b'', node_addr = Addr4 0xC0000202, node_port = 7946\<rparr>"

definition demo_pc_world :: "demo_win_kernel us_world" where
  "demo_pc_world = \<lparr>bw_os = ([], [\<lparr>mib_LUID = 70, mib_Protocol = RouteProtocolNetMgmt, mib_Destination = hostPrefix (Addr4 0x0A000009),
     mib_NextHop = Addr4 0\<rparr>], []), bw_dev = no_device\<rparr>"

lemma demo_pc_ops:
  "bw_dev w = no_device \<Longrightarrow> \<exists>w1. dev_Create demo_pc w n m = (w1, Some ''wg0'')" "snd (ConfigureDevice demo_pc w n cfg)"
  "snd (lk_SetAddr demo_pc w ''wg0'' p)" "snd (lk_SetMTU demo_pc w ''wg0'' mtu)" "snd (lk_Up demo_pc w ''wg0'')"
  "snd (lk_AddRoute demo_pc w ''wg0'' d)" "snd (lk_DelRoute demo_pc w ''wg0'' d)" "\<exists>rs. lk_Routes demo_pc w ''wg0'' = Some rs"
proof -
  show "bw_dev w = no_device \<Longrightarrow> \<exists>w1. dev_Create demo_pc w n m = (w1, Some ''wg0'')"
    by (simp add: win_ops_def us_world_Create_def us_Create_def us_start_def win_lib_def published_other_def demo_tun_def)
  show "snd (ConfigureDevice demo_pc w n cfg)" "snd (lk_SetAddr demo_pc w ''wg0'' p)" "snd (lk_SetMTU demo_pc w ''wg0'' mtu)" "snd (lk_Up demo_pc w ''wg0'')"
    "snd (lk_DelRoute demo_pc w ''wg0'' d)" "\<exists>rs. lk_Routes demo_pc w ''wg0'' = Some rs"
    by (simp_all add: win_ops_def on_os_def win_SetAddr_def win_SetMTU_def win_Up_def win_DelRoute_def win_Routes_def demo_luid case_prod_beta)
      (simp_all add: demo_win_def)
  show "snd (lk_AddRoute demo_pc w ''wg0'' d)"
    by (simp add: win_ops_def on_os_def win_AddRoute_def demo_luid case_prod_beta) (simp add: demo_win_def demo_win_add_def)
qed

lemma demo_pc_routes: "snd (add_routes demo_pc ''wg0'' w ds) = None" "snd (del_routes demo_pc ''wg0'' wanted w ds) = None"
proof -
  show "snd (add_routes demo_pc ''wg0'' w ds) = None"
  proof (induction ds arbitrary: w)
    case (Cons d ds)
    then show ?case using demo_pc_ops(6) [of w d] by (cases "lk_AddRoute demo_pc w ''wg0'' d") simp
  qed simp
  show "snd (del_routes demo_pc ''wg0'' wanted w ds) = None"
  proof (induction ds arbitrary: w)
    case (Cons d ds)
    then show ?case using demo_pc_ops(7) [of w d] by (cases "lk_DelRoute demo_pc w ''wg0'' d") simp
  qed simp
qed

lemma demo_pc_setup:
  assumes "bw_dev w = no_device"
  shows "\<exists>s' w'. SetUpInterface demo_pc (\<lambda>_. Some key) s w [n] = (s', w', None) \<and> ws_osName s' = ''wg0''"
proof -
  have split: "snd (f :: demo_win_kernel us_world \<times> bool) \<Longrightarrow> \<exists>w. f = (w, True)" for f by (cases f) simp
  obtain w1 where w1: "dev_Create demo_pc w (ws_iface s) (ws_mtu s) = (w1, Some ''wg0'')" using demo_pc_ops(1) [OF assms] by blast
  obtain w2 where w2: "ConfigureDevice demo_pc w1 (ws_iface s) \<lparr>dcf_PrivateKey = ws_privKey s, dcf_ListenPort = ws_port s, dcf_ReplacePeers = True,
      dcf_Peers = [peer_config_of (s\<lparr>ws_osName := ''wg0''\<rparr>) key n]\<rparr> = (w2, True)" using split [OF demo_pc_ops(2)] by blast
  obtain w3 where w3: "lk_SetAddr demo_pc w2 ''wg0'' (hostPrefix (ws_overlayAddr s)) = (w3, True)" using split [OF demo_pc_ops(3)] by blast
  obtain w4 where w4: "lk_SetMTU demo_pc w3 ''wg0'' (ws_mtu s) = (w4, True)" using split [OF demo_pc_ops(4)] by blast
  obtain w5 where w5: "lk_Up demo_pc w4 ''wg0'' = (w5, True)" using split [OF demo_pc_ops(5)] by blast
  obtain w6 where w6: "add_routes demo_pc ''wg0'' w5 (peerPrefixes n) = (w6, None)" using demo_pc_routes(1) by (metis surjective_pairing)
  obtain rs where "lk_Routes demo_pc w6 ''wg0'' = Some rs" using demo_pc_ops(8) by blast
  then have "snd (removeStaleRoutes demo_pc (s\<lparr>ws_osName := ''wg0''\<rparr>) ''wg0'' (peerPrefixes n) w6) = None"
    using demo_pc_routes(2) by (simp add: removeStaleRoutes_def)
  then obtain w7 where "removeStaleRoutes demo_pc (s\<lparr>ws_osName := ''wg0''\<rparr>) ''wg0'' (peerPrefixes n) w6 = (w7, None)" by (metis surjective_pairing)
  then show ?thesis using w1 w2 w3 w4 w5 w6 by (simp add: SetUpInterface_def Let_def)
qed

lemma demo_pc_fits: "win_fits (hostPrefix (Addr4 0x0A000002))"
  unfolding win_fits_def by (simp add: hostPrefix_def prefix_is_valid_def) code_simp

theorem windows_leaves_exactly_the_cluster_witness:
  "\<exists>s' w'. SetUpInterface demo_pc (\<lambda>_. Some [9]) demo_pc_state demo_pc_world [demo_pc_node] = (s', w', None) \<and>
     length (demo_win_peers (bw_os w') ''wg0'') = 1 \<and>
     hostPrefix (Addr4 0x0A000002) \<in> win_routes demo_win demo_fwd (bw_os w') ''wg0'' \<and>
     hostPrefix (Addr4 0x0A000009) \<notin> win_routes demo_win demo_fwd (bw_os w') ''wg0''"
proof -
  have prefixes: "peerPrefixes demo_pc_node = [hostPrefix (Addr4 0x0A000002)]" by (simp add: peerPrefixes_def demo_pc_node_def)
  have "bw_dev demo_pc_world = no_device" by (simp add: demo_pc_world_def)
  then obtain s' w' where run: "SetUpInterface demo_pc (\<lambda>_. Some [9]) demo_pc_state demo_pc_world [demo_pc_node] = (s', w', None)" "ws_osName s' = ''wg0''"
    using demo_pc_setup [of demo_pc_world "[9]" demo_pc_state demo_pc_node] by auto
  have away: "\<not> win_elsewhere demo_win demo_fwd (bw_os demo_pc_world) os d" for os d
    by (auto simp: win_elsewhere_def demo_fwd_def demo_pc_world_def)
  have other: "hostPrefix (Addr4 0x0A000002) \<noteq> hostPrefix (Addr4 0x0A000001)" "hostPrefix (Addr4 0x0A000009) \<noteq> hostPrefix (Addr4 0x0A000002)"
    "hostPrefix (Addr4 0x0A000009) \<noteq> hostPrefix (Addr4 0x0A000001)"
    by (simp_all add: hostPrefix_def prefix_from_def)
  have s: "ws_overlayAddr demo_pc_state = Addr4 0x0A000001" "ws_iface demo_pc_state = ''wg0''" by (simp_all add: demo_pc_state_def)
  have "\<forall>d \<in> set (concat (map peerPrefixes [demo_pc_node])). win_fits d \<and>
      \<not> win_elsewhere demo_win demo_fwd (bw_os demo_pc_world) (ws_osName s') d \<and> d \<noteq> hostPrefix (ws_overlayAddr demo_pc_state)"
    using away demo_pc_fits other(1) by (simp add: prefixes s)
  from windows_leaves_exactly_the_cluster [OF demo_win_ok run(1) _ this]
  have "Inr (demo_win_peers (bw_os w') ''wg0'') = nodesToPeerConfigs (\<lambda>_. Some [9]) demo_pc_state [demo_pc_node] \<and>
      hostPrefix (Addr4 0x0A000002) \<in> win_routes demo_win demo_fwd (bw_os w') ''wg0'' \<and>
      hostPrefix (Addr4 0x0A000009) \<notin> win_routes demo_win demo_fwd (bw_os w') ''wg0''"
    using other demo_win_ok by (auto simp: prefixes run(2) s)
  then show ?thesis using run(1) by (auto intro!: exI)
qed

end
