(* ===== verification/Etc_Hosts.thy ===== *)
theory Etc_Hosts
  imports Go_Text
begin

text \<open>
  The block of managed entries in the hosts file, \<^verbatim>\<open>internal/etchosts/etchosts.go\<close>: rewriting the
  managed lines of a text (\<^verbatim>\<open>writeEntries\<close>) and replacing the file with it (\<^verbatim>\<open>WriteEntries\<close>,
  \<^verbatim>\<open>movePreservePerms\<close>). A Go map given to it is a list of its entries in the order an iteration
  yields them. The file system is the hosts file and the temporary files beside it, every call may fail,
  the removal of the temporary file included, and ownership and modes, which the code copies, are left out.
\<close>

section \<open>The text\<close>

definition defaultBanner :: string where
  "defaultBanner = ''# ! MANAGED AUTOMATICALLY !''"

definition hostsFor :: "string \<Rightarrow> string" where
  "hostsFor iface = ''# ! managed automatically by cheesecloth interface '' @ iface"

type_synonym host_entries = "(string \<times> string list) list"

definition managed_line :: "string \<Rightarrow> string \<Rightarrow> bool" where
  "managed_line banner line \<longleftrightarrow> HasSuffix (TrimSpace line) (TrimSpace banner)"

definition host_entry :: "string \<Rightarrow> string \<Rightarrow> string list \<Rightarrow> string" where
  "host_entry banner ip names = ip @ [CHR 0x09] @ Join_strings names '' '' @ [CHR 0x09] @ banner"

definition writeEntryWithBanner :: "string \<Rightarrow> string \<Rightarrow> string list \<Rightarrow> string list" where
  "writeEntryWithBanner banner ip names = (if ip = '''' \<or> names = [] then [] else [host_entry banner ip names])"

datatype hosts_error = HostsPanic | ReadingHosts | OpeningHosts | CreatingTemp | WritingHosts | SyncingTemp | StatHosts | ChmodTemp | CopyingHosts

text \<open>The loop over the lines; a managed line without a field would be an index out of range.\<close>

fun rewrite_lines :: "string \<Rightarrow> host_entries \<Rightarrow> string list \<Rightarrow> string list \<Rightarrow> (string list \<times> string list) option" where
  "rewrite_lines banner m written [] = Some (written, [])"
| "rewrite_lines banner m written (line # ls) =
     (if \<not> managed_line banner line then map_option (\<lambda>(w, out). (w, line # out)) (rewrite_lines banner m written ls)
      else
        (case Fields line of
           [] \<Rightarrow> None
         | ip # _ \<Rightarrow>
             (case map_of m ip of
                Some names \<Rightarrow>
                  if ip \<notin> set written
                  then map_option (\<lambda>(w, out). (w, writeEntryWithBanner banner ip names @ out)) (rewrite_lines banner m (ip # written) ls)
                  else rewrite_lines banner m written ls
              | None \<Rightarrow> rewrite_lines banner m written ls)))"

definition missing_entries :: "string \<Rightarrow> host_entries \<Rightarrow> string list \<Rightarrow> string list" where
  "missing_entries banner m written =
     concat (map (\<lambda>(ip, names). if ip \<in> set written then [] else writeEntryWithBanner banner ip names) m)"

definition writeEntries :: "string \<Rightarrow> string \<Rightarrow> host_entries \<Rightarrow> hosts_error + string" where
  "writeEntries banner0 orig m =
     (let banner = (if banner0 = '''' then defaultBanner else banner0) in
      case scan_lines orig of
        None \<Rightarrow> Inl ReadingHosts
      | Some lines \<Rightarrow>
          (case rewrite_lines banner m [] lines of
             None \<Rightarrow> Inl HostsPanic
           | Some (written, out) \<Rightarrow> Inr (print_lines (out @ missing_entries banner m written))))"

section \<open>The file\<close>

text \<open>
  What the calls on the two files answer; \<open>hf_partial\<close> is what a failed write has left in the temporary
  file, \<open>hf_copied\<close> how much of the copy got through.
\<close>

record hosts_faults =
  hf_temp :: bool
  hf_write :: bool
  hf_partial :: string
  hf_sync :: bool
  hf_stat :: bool
  hf_chmod :: bool
  hf_rename :: bool
  hf_seek_src :: bool
  hf_seek_dst :: bool
  hf_truncate :: bool
  hf_copied :: nat
  hf_copy :: bool
  hf_dst_sync :: bool
  hf_remove :: bool

text \<open>Temporary files are numbered; \<^verbatim>\<open>os.CreateTemp\<close> picks a name that is not taken.\<close>

record hosts_fs =
  hosts_file :: "string option"
  temp_files :: "(nat \<times> string) list"

definition fresh_temp :: "hosts_fs \<Rightarrow> nat" where
  "fresh_temp fs = Suc (sum_list (map fst (temp_files fs)))"

definition without_temp :: "nat \<Rightarrow> hosts_fs \<Rightarrow> hosts_fs" where
  "without_temp n fs = fs\<lparr>temp_files := filter (\<lambda>(i, _). i \<noteq> n) (temp_files fs)\<rparr>"

text \<open>The fallback of \<^verbatim>\<open>movePreservePerms\<close>: truncate the file and copy the new text into it.\<close>

definition copy_over :: "hosts_faults \<Rightarrow> string \<Rightarrow> hosts_fs \<Rightarrow> hosts_fs \<times> hosts_error option" where
  "copy_over f new fs =
     (if \<not> hf_seek_src f then (fs, Some CopyingHosts)
      else if \<not> hf_seek_dst f then (fs, Some CopyingHosts)
      else if \<not> hf_truncate f then (fs, Some CopyingHosts)
      else if \<not> hf_copy f then (fs\<lparr>hosts_file := Some (take (hf_copied f) new)\<rparr>, Some CopyingHosts)
      else (fs\<lparr>hosts_file := Some new\<rparr>, if hf_dst_sync f then None else Some CopyingHosts))"

definition movePreservePerms :: "hosts_faults \<Rightarrow> nat \<Rightarrow> string \<Rightarrow> hosts_fs \<Rightarrow> hosts_fs \<times> hosts_error option" where
  "movePreservePerms f tmp new fs =
     (if \<not> hf_sync f then (fs, Some SyncingTemp)
      else if \<not> hf_stat f then (fs, Some StatHosts)
      else if \<not> hf_chmod f then (fs, Some ChmodTemp)
      else if hf_rename f then ((without_temp tmp fs)\<lparr>hosts_file := map_of (temp_files fs) tmp\<rparr>, None)
      else copy_over f new fs)"

text \<open>The deferred removal of the temporary file, gone already once renamed; an error is only logged.\<close>

definition remove_temp :: "hosts_faults \<Rightarrow> nat \<Rightarrow> hosts_fs \<Rightarrow> hosts_fs" where
  "remove_temp f tmp fs = (if hf_remove f then without_temp tmp fs else fs)"

definition WriteEntries :: "hosts_faults \<Rightarrow> string \<Rightarrow> host_entries \<Rightarrow> hosts_fs \<Rightarrow> hosts_fs \<times> hosts_error option" where
  "WriteEntries f banner m fs =
     (case hosts_file fs of
        None \<Rightarrow> (fs, Some OpeningHosts)
      | Some orig \<Rightarrow>
          if \<not> hf_temp f then (fs, Some CreatingTemp)
          else
            (let tmp = fresh_temp fs;
                 holding = (\<lambda>text. fs\<lparr>temp_files := (tmp, text) # temp_files fs\<rparr>) in
             case writeEntries banner orig m of
               Inl e \<Rightarrow> (remove_temp f tmp (holding (hf_partial f)), Some e)
             | Inr new \<Rightarrow>
                 if \<not> hf_write f then (remove_temp f tmp (holding (hf_partial f)), Some WritingHosts)
                 else
                   (case movePreservePerms f tmp new (holding new) of
                      (fs', r) \<Rightarrow> (remove_temp f tmp fs', r))))"

lemma fresh_temp_new: "(fresh_temp fs, text) \<notin> set (temp_files fs)"
proof
  assume "(fresh_temp fs, text) \<in> set (temp_files fs)"
  then have "fresh_temp fs \<in> set (map fst (temp_files fs))" by force
  then show False using member_le_sum_list [of "fresh_temp fs" "map fst (temp_files fs)"] by (simp add: fresh_temp_def)
qed

lemma without_fresh [simp]:
  "filter (\<lambda>(i, _). i \<noteq> fresh_temp fs) (temp_files fs) = temp_files fs"
  using fresh_temp_new [of fs] by (auto simp: filter_id_conv)

section \<open>Trimming and fields of an entry\<close>

text \<open>A character that starts no white space.\<close>

definition plain :: "char \<Rightarrow> bool" where
  "plain c \<longleftrightarrow> c \<notin> set (map hd space_runes)"

text \<open>A comment without white space at its end and without a newline, as the package asks for.\<close>

definition banner_ok :: "string \<Rightarrow> bool" where
  "banner_ok b \<longleftrightarrow> take 1 b = ''#'' \<and> (\<forall>r \<in> set space_runes. \<not> suffix r b) \<and> CHR 0x0A \<notin> set b"

definition entries_ok :: "host_entries \<Rightarrow> bool" where
  "entries_ok m \<longleftrightarrow> go_map m \<and>
     (\<forall>(ip, names) \<in> set m. ip \<noteq> [] \<and> names \<noteq> [] \<and> list_all plain ip \<and> (\<forall>n \<in> set names. CHR 0x0A \<notin> set n))"

lemma space_at_plain: "plain c \<Longrightarrow> space_at space_runes (c # cs) = 0"
proof (cases "List.find (\<lambda>r. prefix r (c # cs)) space_runes")
  case (Some r)
  then have r: "r \<in> set space_runes" "prefix r (c # cs)"
    by (auto simp: find_Some_iff)
  have "r \<noteq> []" using r(1) space_runes_nonempty by blast
  then have "hd r = c" using r(2) by (auto simp: prefix_Cons)
  then have "\<not> plain c" using r(1) by (auto simp: plain_def)
  then show "plain c \<Longrightarrow> space_at space_runes (c # cs) = 0" by simp
qed (simp add: space_at_def)

lemma TrimLeft_plain: "plain c \<Longrightarrow> TrimLeft (c # cs) = c # cs"
  by (simp add: TrimLeft_def trim_with.simps space_at_plain)

lemma TrimRight_none:
  assumes "\<forall>r \<in> set space_runes. \<not> suffix r s"
  shows "TrimRight s = s"
proof -
  have "List.find (\<lambda>r. prefix r (rev s)) (map rev space_runes) = None"
    using assms by (auto simp: find_None_iff suffix_to_prefix)
  then show ?thesis by (simp add: TrimRight_def trim_with.simps space_at_def)
qed

lemma hash_plain: "plain (CHR ''#'')"
  by (simp add: plain_def space_runes_def)

lemma hash_in_no_rune: "\<forall>r \<in> set space_runes. CHR ''#'' \<notin> set r"
  by (simp add: space_runes_def)

lemma TrimSpace_banner: "banner_ok b \<Longrightarrow> TrimSpace b = b"
  by (cases b) (auto simp: banner_ok_def TrimSpace_def TrimLeft_plain hash_plain TrimRight_none)

lemma no_rune_suffix_append:
  assumes "banner_ok b" and "r \<in> set space_runes"
  shows "\<not> suffix r (x @ b)"
proof
  assume "suffix r (x @ b)"
  moreover have "suffix b (x @ b)" by (simp add: suffix_def)
  ultimately have "suffix r b \<or> suffix b r" using suffix_same_cases by blast
  moreover have "\<not> suffix r b" using assms by (auto simp: banner_ok_def)
  ultimately have "set b \<subseteq> set r" by (auto simp: suffix_def)
  moreover have "CHR ''#'' \<in> set b" using assms(1) by (cases b) (auto simp: banner_ok_def)
  ultimately show False using hash_in_no_rune assms(2) by blast
qed

lemma entry_managed:
  assumes "banner_ok b" and "ip \<noteq> []" and "list_all plain ip"
  shows "managed_line b (host_entry b ip names)"
proof -
  obtain c cs where ip: "ip = c # cs" "plain c" using assms(2,3) by (cases ip) auto
  have "TrimSpace (host_entry b ip names) = host_entry b ip names"
    using ip no_rune_suffix_append [OF assms(1), of _ "ip @ [CHR 0x09] @ Join_strings names '' '' @ [CHR 0x09]"]
    by (simp add: TrimSpace_def host_entry_def TrimLeft_plain TrimRight_none)
  then show ?thesis
    using TrimSpace_banner [OF assms(1)] by (auto simp: managed_line_def HasSuffix_def host_entry_def suffix_def)
qed

lemma fields_from_plain:
  "list_all plain s \<Longrightarrow> rev acc @ s \<noteq> [] \<Longrightarrow> fields_from acc (s @ CHR 0x09 # rest) = (rev acc @ s) # fields_from [] rest"
proof (induction s arbitrary: acc)
  case Nil
  have "space_at space_runes (CHR 0x09 # rest) = 1" by (simp add: space_at_def space_runes_def)
  with Nil show ?case by simp
next
  case (Cons c s)
  then show ?case by (simp add: space_at_plain)
qed

lemma Fields_entry: "ip \<noteq> [] \<Longrightarrow> list_all plain ip \<Longrightarrow> \<exists>rest. Fields (host_entry b ip names) = ip # rest"
  using fields_from_plain [of ip "[]"] by (simp add: Fields_def host_entry_def)

section \<open>The managed block\<close>

lemma fields_from_nonempty: "acc \<noteq> [] \<Longrightarrow> fields_from acc s \<noteq> []"
  by (induction acc s rule: fields_from.induct) (auto simp: Let_def)

lemma space_at_Nil: "\<forall>r \<in> set rs. r \<noteq> [] \<Longrightarrow> space_at rs [] = 0"
  by (auto simp: space_at_def find_Some_iff split: option.split)

lemma trim_with_Nil: "\<forall>r \<in> set rs. r \<noteq> [] \<Longrightarrow> trim_with rs [] = []"
  by (subst trim_with.simps) (simp add: space_at_Nil)

lemma trim_with_step: "space_at rs s \<noteq> 0 \<Longrightarrow> trim_with rs s = trim_with rs (drop (space_at rs s) s)"
  by (subst trim_with.simps) simp

lemma no_fields_blank:
  assumes "Fields s = []"
  shows "TrimLeft s = []"
proof -
  have "acc = [] \<longrightarrow> fields_from acc s = [] \<longrightarrow> trim_with space_runes s = []" for acc
  proof (induction acc s rule: fields_from.induct)
    case (1 acc)
    then show ?case by (simp add: trim_with_Nil space_runes_nonempty)
  next
    case (2 acc c cs)
    let ?n = "space_at space_runes (c # cs)"
    show ?case
    proof (cases "?n = 0")
      case True
      then show ?thesis using fields_from_nonempty [of "[c]" cs] by simp
    next
      case False
      then show ?thesis using 2(2) [OF refl False] trim_with_step [OF False] by (simp add: Let_def)
    qed
  qed
  then show ?thesis using assms by (simp add: Fields_def TrimLeft_def)
qed

lemma managed_has_fields:
  assumes "banner_ok b" and "managed_line b line"
  shows "Fields line \<noteq> []"
proof
  assume "Fields line = []"
  then have "TrimSpace line = []"
    using space_runes_nonempty by (simp add: TrimSpace_def no_fields_blank TrimRight_def trim_with_Nil)
  with assms show False by (simp add: managed_line_def HasSuffix_def TrimSpace_banner banner_ok_def)
qed

abbreviation unmanaged_lines :: "string \<Rightarrow> string list \<Rightarrow> string list" where
  "unmanaged_lines b \<equiv> filter (\<lambda>l. \<not> managed_line b l)"

abbreviation entry_of :: "string \<Rightarrow> host_entries \<Rightarrow> string \<Rightarrow> string" where
  "entry_of b m ip \<equiv> host_entry b ip (the (map_of m ip))"

lemma entries_ok_lookup:
  "entries_ok m \<Longrightarrow> map_of m ip = Some names \<Longrightarrow> ip \<noteq> [] \<and> names \<noteq> [] \<and> list_all plain ip"
  by (auto simp: entries_ok_def dest!: map_of_SomeD)

lemma rewrite_lines_block:
  assumes "banner_ok b" and "entries_ok m"
  shows "\<exists>ips out. rewrite_lines b m w ls = Some (rev ips @ w, out) \<and> distinct ips \<and> set ips \<inter> set w = {} \<and> set ips \<subseteq> dom (map_of m) \<and>
    filter (managed_line b) out = map (entry_of b m) ips \<and> unmanaged_lines b out = unmanaged_lines b ls"
proof (induction ls arbitrary: w)
  case (Cons line ls)
  show ?case
  proof (cases "managed_line b line")
    case False
    obtain ips out where "rewrite_lines b m w ls = Some (rev ips @ w, out)" "distinct ips" "set ips \<inter> set w = {}" "set ips \<subseteq> dom (map_of m)"
      "filter (managed_line b) out = map (entry_of b m) ips" "unmanaged_lines b out = unmanaged_lines b ls" using Cons [of w] by blast
    with False show ?thesis by (intro exI [of _ ips] exI [of _ "line # out"]) simp
  next
    case True
    obtain ip rest where ip: "Fields line = ip # rest" using managed_has_fields [OF assms(1) True] by (cases "Fields line") auto
    show ?thesis
    proof (cases "map_of m ip = None \<or> ip \<in> set w")
      case skip: True
      then have "rewrite_lines b m w (line # ls) = rewrite_lines b m w ls" using True ip by (auto split: option.split)
      then show ?thesis using Cons [of w] True by simp
    next
      case False
      then obtain names where names: "map_of m ip = Some names" "ip \<notin> set w" by auto
      have ok: "ip \<noteq> []" "names \<noteq> []" "list_all plain ip" using entries_ok_lookup [OF assms(2) names(1)] by auto
      obtain ips out where r: "rewrite_lines b m (ip # w) ls = Some (rev ips @ ip # w, out)" "distinct ips" "set ips \<inter> set (ip # w) = {}"
        "set ips \<subseteq> dom (map_of m)" "filter (managed_line b) out = map (entry_of b m) ips" "unmanaged_lines b out = unmanaged_lines b ls"
        using Cons [of "ip # w"] by blast
      have "managed_line b (host_entry b ip names)" using entry_managed [OF assms(1) ok(1,3)] .
      then show ?thesis
        using True ip names ok r
        by (intro exI [of _ "ip # ips"] exI [of _ "host_entry b ip names # out"]) (auto simp: writeEntryWithBanner_def)
    qed
  qed
qed simp

lemma missing_entries_eq:
  assumes "entries_ok m"
  shows "missing_entries b m w = map (entry_of b m) (filter (\<lambda>ip. ip \<notin> set w) (map fst m))"
proof -
  have eq: "writeEntryWithBanner b ip names = [entry_of b m ip]" if "(ip, names) \<in> set m" for ip names
    using that assms by (auto simp: entries_ok_def writeEntryWithBanner_def go_map_def)
  have "concat (map (\<lambda>(ip, names). if ip \<in> set w then [] else writeEntryWithBanner b ip names) xs)
      = map (entry_of b m) (filter (\<lambda>ip. ip \<notin> set w) (map fst xs))" if "set xs \<subseteq> set m" for xs
    using that by (induction xs) (auto simp: eq)
  then show ?thesis by (simp add: missing_entries_def)
qed

text \<open>The lines written: the unmanaged ones untouched, and one entry per address.\<close>

lemma written_lines:
  assumes "banner_ok b" and "entries_ok m" and "scan_lines orig = Some ls"
  obtains ips out where "writeEntries b orig m = Inr (print_lines out)" "distinct ips" "set ips = dom (map_of m)"
    "filter (managed_line b) out = map (entry_of b m) ips" "unmanaged_lines b out = unmanaged_lines b ls"
proof -
  obtain ips out where r: "rewrite_lines b m [] ls = Some (rev ips, out)" "distinct ips" "set ips \<subseteq> dom (map_of m)"
    "filter (managed_line b) out = map (entry_of b m) ips" "unmanaged_lines b out = unmanaged_lines b ls"
    using rewrite_lines_block [OF assms(1,2), of "[]" ls] by auto
  define rest where "rest = filter (\<lambda>ip. ip \<notin> set ips) (map fst m)"
  have all: "managed_line b (entry_of b m ip)" if "ip \<in> set rest" for ip
  proof -
    obtain names where "map_of m ip = Some names" using \<open>ip \<in> set rest\<close> by (auto simp: rest_def dest: weak_map_of_SomeI)
    then show ?thesis using entries_ok_lookup [OF assms(2)] entry_managed [OF assms(1)] by auto
  qed
  have "b \<noteq> []" using assms(1) by (auto simp: banner_ok_def)
  then have "writeEntries b orig m = Inr (print_lines (out @ map (entry_of b m) rest))"
    using assms(3) r(1) by (simp add: writeEntries_def missing_entries_eq [OF assms(2)] rest_def)
  moreover have "distinct (ips @ rest)" using r(2) assms(2) by (auto simp: entries_ok_def go_map_def rest_def)
  moreover have "set (ips @ rest) = dom (map_of m)" using r(3) by (auto simp: dom_map_of_conv_image_fst rest_def)
  moreover have "filter (managed_line b) (out @ map (entry_of b m) rest) = map (entry_of b m) (ips @ rest)"
    using r(4) all by (simp add: filter_map comp_def cong: filter_cong)
  moreover have "unmanaged_lines b (out @ map (entry_of b m) rest) = unmanaged_lines b ls"
    using r(5) all by (simp add: filter_map comp_def cong: filter_cong)
  ultimately show ?thesis using that by blast
qed


section \<open>Properties\<close>

lemma no_newline_entry: "entries_ok m \<Longrightarrow> banner_ok b \<Longrightarrow> map_of m ip = Some names \<Longrightarrow> CHR 0x0A \<notin> set (host_entry b ip names)"
proof -
  have join: "\<forall>n \<in> set ns. CHR 0x0A \<notin> set n \<Longrightarrow> CHR 0x0A \<notin> set (Join_strings ns '' '')" for ns
    by (induction ns "'' ''" rule: Join_strings.induct) auto
  have "\<not> plain (CHR 0x0A)" by (simp add: plain_def space_runes_def)
  then show "entries_ok m \<Longrightarrow> banner_ok b \<Longrightarrow> map_of m ip = Some names \<Longrightarrow> CHR 0x0A \<notin> set (host_entry b ip names)"
    using join [of names] by (fastforce simp: host_entry_def entries_ok_def banner_ok_def list_all_iff dest!: map_of_SomeD)
qed

lemma scanned_no_newline: "scan_lines t = Some ls \<Longrightarrow> l \<in> set ls \<Longrightarrow> CHR 0x0A \<notin> set l"
  using split_lines_no_newline [of "[]" _ t] set_dropCR by (fastforce simp: scan_lines_def Let_def split: if_splits)

lemma written_lines_readable:
  assumes "banner_ok b" and "entries_ok m" and "scan_lines orig = Some ls" and "set ips = dom (map_of m)"
    and "filter (managed_line b) out = map (entry_of b m) ips" and "unmanaged_lines b out = unmanaged_lines b ls"
  shows "split_lines [] (print_lines out) = out"
proof (rule split_print_lines, rule)
  fix l
  assume l: "l \<in> set out"
  show "CHR 0x0A \<notin> set l"
  proof (cases "managed_line b l")
    case True
    then have "l \<in> entry_of b m ` set ips" using l arg_cong [OF assms(5), of set] by auto
    then show ?thesis using no_newline_entry [OF assms(2,1)] assms(4) by auto
  next
    case False
    then have "l \<in> set ls" using l arg_cong [OF assms(6), of set] by auto
    then show ?thesis using scanned_no_newline [OF assms(3)] by blast
  qed
qed

lemma writeEntries_exact:
  assumes "banner_ok b" and "entries_ok m" and "scan_lines orig = Some ls"
  shows "\<exists>new. writeEntries b orig m = Inr new \<and> unmanaged_lines b (split_lines [] new) = unmanaged_lines b ls \<and>
    mset (filter (managed_line b) (split_lines [] new)) = mset (map (\<lambda>(ip, names). host_entry b ip names) m)"
proof -
  obtain ips out where w: "writeEntries b orig m = Inr (print_lines out)" "distinct ips" "set ips = dom (map_of m)"
    "filter (managed_line b) out = map (entry_of b m) ips" "unmanaged_lines b out = unmanaged_lines b ls"
    by (rule written_lines [OF assms])
  have "mset ips = mset (map fst m)"
    using w(2,3) assms(2) by (intro set_eq_iff_mset_eq_distinct [THEN iffD1]) (auto simp: dom_map_of_conv_image_fst entries_ok_def go_map_def)
  then have "mset (map (entry_of b m) ips) = mset (map (entry_of b m) (map fst m))" by (metis mset_map)
  also have "map (entry_of b m) (map fst m) = map (\<lambda>(ip, names). host_entry b ip names) m"
    using assms(2) by (auto simp: entries_ok_def go_map_def)
  finally show ?thesis
    using w written_lines_readable [OF assms w(3-5)] by (intro exI [of _ "print_lines out"]) simp
qed

text \<open>
  The managed block of the hosts file is exactly what was asked for and nothing else is
  touched: rewriting never fails on a readable file, the lines that are not this banner's are in
  the new text as they were read and in their order, and the managed lines are one entry for each
  address with its names, whatever managed lines there were before.
\<close>

theorem hosts_block_exact:
  assumes "banner_ok b" and "entries_ok m" and "scan_lines orig = Some ls"
  shows "\<exists>new. writeEntries b orig m = Inr new \<and> unmanaged_lines b (split_lines [] new) = unmanaged_lines b ls \<and>
    mset (filter (managed_line b) (split_lines [] new)) = mset (map (\<lambda>(ip, names). host_entry b ip names) m)"
  using writeEntries_exact [OF assms] .

lemma rewrite_lines_same:
  assumes "banner_ok b" and "entries_ok m"
  shows "filter (managed_line b) ls = map (entry_of b m) ips \<Longrightarrow> distinct ips \<Longrightarrow> set ips \<subseteq> dom (map_of m) \<Longrightarrow> set ips \<inter> set w = {} \<Longrightarrow>
    rewrite_lines b m w ls = Some (rev ips @ w, ls)"
proof (induction ls arbitrary: ips w)
  case (Cons line ls)
  show ?case
  proof (cases "managed_line b line")
    case False
    then show ?thesis using Cons by auto
  next
    case True
    then obtain ip ips' where ips: "ips = ip # ips'" "line = entry_of b m ip" "filter (managed_line b) ls = map (entry_of b m) ips'"
      using Cons.prems(1) by (cases ips) auto
    then obtain names where names: "map_of m ip = Some names" using Cons.prems(3) by auto
    have ok: "ip \<noteq> []" "names \<noteq> []" "list_all plain ip" using entries_ok_lookup [OF assms(2) names] by auto
    have "rewrite_lines b m (ip # w) ls = Some (rev ips' @ ip # w, ls)" using Cons.IH [OF ips(3), of "ip # w"] Cons.prems ips(1) by auto
    then show ?thesis
      using True names ok ips Fields_entry [OF ok(1,3), of b names] Cons.prems(4) by (auto simp: writeEntryWithBanner_def)
  qed
qed simp

text \<open>
  Writing the same entries again changes nothing: the text the first time leaves is the text
  the second time writes, as long as its lines fit the reader's buffer and end in no carriage
  return.
\<close>

theorem hosts_idempotent:
  assumes "banner_ok b" and "entries_ok m" and "writeEntries b orig m = Inr new" and "scan_lines new = Some (split_lines [] new)"
  shows "writeEntries b new m = Inr new"
proof -
  obtain ls where ls: "scan_lines orig = Some ls" using assms(3) by (auto simp: writeEntries_def Let_def split: option.splits)
  obtain ips out where w: "writeEntries b orig m = Inr (print_lines out)" "distinct ips" "set ips = dom (map_of m)"
    "filter (managed_line b) out = map (entry_of b m) ips" "unmanaged_lines b out = unmanaged_lines b ls"
    by (rule written_lines [OF assms(1,2) ls])
  have new: "new = print_lines out" "split_lines [] new = out"
    using assms(3) w(1) written_lines_readable [OF assms(1,2) ls w(3-5)] by simp_all
  have "rewrite_lines b m [] out = Some (rev ips, out)" using rewrite_lines_same [OF assms(1,2) w(4,2)] w(3) by simp
  moreover have "missing_entries b m (rev ips) = []" using w(3) by (simp add: missing_entries_eq [OF assms(2)] dom_map_of_conv_image_fst)
  moreover have "b \<noteq> []" using assms(1) by (auto simp: banner_ok_def)
  ultimately show ?thesis using assms(4) unfolding new(2) by (simp add: writeEntries_def new(1))
qed

definition copies_over :: "hosts_faults \<Rightarrow> bool" where
  "copies_over f \<longleftrightarrow> \<not> hf_rename f \<and> hf_seek_src f \<and> hf_seek_dst f \<and> hf_truncate f"

lemma WriteEntries_outcome:
  assumes "WriteEntries f b m fs = (fs', err)"
  shows "(err = None \<longrightarrow> (\<exists>orig new. hosts_file fs = Some orig \<and> writeEntries b orig m = Inr new \<and> hosts_file fs' = Some new)) \<and>
    (err \<noteq> None \<longrightarrow> hosts_file fs' = hosts_file fs \<or>
       copies_over f \<and> (\<exists>orig new n. hosts_file fs = Some orig \<and> writeEntries b orig m = Inr new \<and> hosts_file fs' = Some (take n new))) \<and>
    (temp_files fs' = temp_files fs \<or> \<not> hf_remove f \<and> (\<exists>text. temp_files fs' = (fresh_temp fs, text) # temp_files fs))"
proof (cases "hosts_file fs")
  case None
  then show ?thesis using assms by (auto simp: WriteEntries_def)
next
  case (Some orig)
  have gone: "temp_files (remove_temp f (fresh_temp fs) u) =
      (if hf_remove f then temp_files fs else (fresh_temp fs, body) # temp_files fs)"
    if "temp_files u = (fresh_temp fs, body) # temp_files fs" for u body
    using that by (simp add: remove_temp_def without_temp_def)
  have hosts [simp]: "hosts_file (remove_temp f n u) = hosts_file u" for n u by (simp add: remove_temp_def without_temp_def)
  show ?thesis
  proof (cases "hf_temp f \<and> hf_write f")
    case False
    then show ?thesis
      using assms Some gone [of "fs\<lparr>temp_files := (fresh_temp fs, hf_partial f) # temp_files fs\<rparr>" "hf_partial f"]
      by (auto simp: WriteEntries_def Let_def split: sum.splits if_splits)
  next
    case ok: True
    show ?thesis
    proof (cases "writeEntries b orig m")
      case (Inl e)
      then show ?thesis
        using assms Some ok gone [of "fs\<lparr>temp_files := (fresh_temp fs, hf_partial f) # temp_files fs\<rparr>" "hf_partial f"]
        by (auto simp: WriteEntries_def Let_def)
    next
      case (Inr new)
      let ?u = "fs\<lparr>temp_files := (fresh_temp fs, new) # temp_files fs\<rparr>"
      obtain v where v: "movePreservePerms f (fresh_temp fs) new ?u = (v, err)" "fs' = remove_temp f (fresh_temp fs) v"
        using assms Some ok Inr by (auto simp: WriteEntries_def Let_def split: prod.splits)
      have all: "\<exists>n. new = take n new" by (rule exI [of _ "length new"]) simp
      have "temp_files v = temp_files ?u \<or> temp_files v = temp_files fs"
        using v(1) by (auto simp: movePreservePerms_def copy_over_def without_temp_def split: if_splits)
      then have "temp_files fs' = temp_files fs \<or> \<not> hf_remove f \<and> (\<exists>text. temp_files fs' = (fresh_temp fs, text) # temp_files fs)"
        using gone [of v new] by (cases "hf_remove f") (auto simp: v(2), auto simp: remove_temp_def without_temp_def)
      then show ?thesis
        using v Some Inr all
        by (auto simp: movePreservePerms_def copy_over_def copies_over_def without_temp_def split: if_splits)
    qed
  qed
qed

text \<open>
  C29. Replacing the hosts file: success means that it holds the complete new text, and a missing file
  is never created. A failure leaves it as it was, except where the rename was refused and, once the
  file had been truncated, copying the new text over it failed: then it holds a part of the new
  text. At most the one temporary file stays behind, and only where removing it fails.
\<close>

theorem hosts_file_replaced:
  assumes "WriteEntries f b m fs = (fs', err)"
  shows "(err = None \<longrightarrow> (\<exists>orig new. hosts_file fs = Some orig \<and> writeEntries b orig m = Inr new \<and> hosts_file fs' = Some new)) \<and>
    (err \<noteq> None \<longrightarrow> hosts_file fs' = hosts_file fs \<or>
       copies_over f \<and> (\<exists>orig new n. hosts_file fs = Some orig \<and> writeEntries b orig m = Inr new \<and> hosts_file fs' = Some (take n new))) \<and>
    (hosts_file fs = None \<longrightarrow> hosts_file fs' = None) \<and>
    (temp_files fs' = temp_files fs \<or> \<not> hf_remove f \<and> (\<exists>text. temp_files fs' = (fresh_temp fs, text) # temp_files fs))"
  using WriteEntries_outcome [OF assms] by (cases err) auto

text \<open>A carriage return at the end of an unmanaged line is dropped.\<close>

theorem hosts_carriage_return_dropped:
  "writeEntries (hostsFor ''wg0'') (''::1 a'' @ [CHR 0x0D, CHR 0x0A]) [] = Inr (''::1 a'' @ [CHR 0x0A])"
proof -
  have "scan_lines (''::1 a'' @ [CHR 0x0D, CHR 0x0A]) = Some [''::1 a'']"
    by (simp add: scan_lines_def MaxScanTokenSize_def dropCR_def)
  moreover have "\<not> managed_line (hostsFor ''wg0'') ''::1 a''" "hostsFor ''wg0'' \<noteq> []" by code_simp+
  ultimately show ?thesis by (simp add: writeEntries_def missing_entries_def print_lines_def)
qed

section \<open>Witnesses\<close>

definition demo_hosts :: string where
  "demo_hosts = print_lines [''::1 a'', host_entry (hostsFor ''wg0'') ''10.0.0.9'' [''z'']]"

lemma demo_banner: "banner_ok (hostsFor ''wg0'')"
  unfolding banner_ok_def by code_simp

lemma demo_entries: "entries_ok [(''10.0.0.2'', [''b''])]"
  unfolding entries_ok_def go_map_def by code_simp

lemma scan_print_lines:
  "\<forall>l \<in> set ls. CHR 0x0A \<notin> set l \<and> length l < MaxScanTokenSize \<and> dropCR l = l \<Longrightarrow> scan_lines (print_lines ls) = Some ls"
  by (auto simp: scan_lines_def split_print_lines Let_def map_idI not_le)

lemma demo_lines: "\<forall>l \<in> set [''::1 a'', host_entry (hostsFor ''wg0'') ''10.0.0.9'' [''z''], host_entry (hostsFor ''wg0'') ''10.0.0.2'' [''b'']].
    CHR 0x0A \<notin> set l \<and> length l < MaxScanTokenSize \<and> dropCR l = l"
  by (simp add: host_entry_def hostsFor_def MaxScanTokenSize_def dropCR_def)

lemma demo_scan: "scan_lines demo_hosts = Some [''::1 a'', host_entry (hostsFor ''wg0'') ''10.0.0.9'' [''z'']]"
  unfolding demo_hosts_def using demo_lines by (intro scan_print_lines) simp

theorem hosts_block_exact_witness:
  "\<exists>new. writeEntries (hostsFor ''wg0'') demo_hosts [(''10.0.0.2'', [''b''])] = Inr new \<and>
     mset (filter (managed_line (hostsFor ''wg0'')) (split_lines [] new)) = {#host_entry (hostsFor ''wg0'') ''10.0.0.2'' [''b'']#}"
  using hosts_block_exact [OF demo_banner demo_entries demo_scan] by auto

theorem hosts_idempotent_witness:
  "let new = print_lines [''::1 a'', host_entry (hostsFor ''wg0'') ''10.0.0.2'' [''b'']] in
   writeEntries (hostsFor ''wg0'') new [(''10.0.0.2'', [''b''])] = Inr new"
proof -
  let ?new = "print_lines [''::1 a'', host_entry (hostsFor ''wg0'') ''10.0.0.2'' [''b'']]"
  have "rewrite_lines (hostsFor ''wg0'') [(''10.0.0.2'', [''b''])] [] [''::1 a'', host_entry (hostsFor ''wg0'') ''10.0.0.9'' [''z'']] =
      Some ([], [''::1 a''])" "hostsFor ''wg0'' \<noteq> []"
    by code_simp+
  then have "writeEntries (hostsFor ''wg0'') demo_hosts [(''10.0.0.2'', [''b''])] = Inr ?new"
    by (simp add: writeEntries_def demo_scan missing_entries_def writeEntryWithBanner_def)
  moreover have "scan_lines ?new = Some (split_lines [] ?new)"
    using demo_lines scan_print_lines by (subst split_print_lines) simp_all
  ultimately show ?thesis unfolding Let_def by (rule hosts_idempotent [OF demo_banner demo_entries])
qed

definition no_hosts_faults :: hosts_faults where
  "no_hosts_faults = \<lparr>hf_temp = True, hf_write = True, hf_partial = [], hf_sync = True, hf_stat = True, hf_chmod = True, hf_rename = True,
     hf_seek_src = True, hf_seek_dst = True, hf_truncate = True, hf_copied = 0, hf_copy = True, hf_dst_sync = True, hf_remove = True\<rparr>"

theorem hosts_file_replaced_witness:
  "let f = no_hosts_faults\<lparr>hf_sync := False, hf_remove := False\<rparr>; fs = \<lparr>hosts_file = Some demo_hosts, temp_files = []\<rparr>;
       fs' = fst (WriteEntries f (hostsFor ''wg0'') [] fs)
   in hosts_file fs' = Some demo_hosts \<and> length (temp_files fs') \<le> 1"
proof -
  let ?f = "no_hosts_faults\<lparr>hf_sync := False, hf_remove := False\<rparr>" and ?fs = "\<lparr>hosts_file = Some demo_hosts, temp_files = []\<rparr>"
  have "snd (WriteEntries ?f (hostsFor ''wg0'') [] ?fs) \<noteq> None"
    by (simp add: WriteEntries_def movePreservePerms_def Let_def no_hosts_faults_def split: sum.split)
  moreover have "\<not> copies_over ?f" by (simp add: copies_over_def no_hosts_faults_def)
  ultimately show ?thesis
    unfolding Let_def using hosts_file_replaced [of ?f "hostsFor ''wg0''" "[]" ?fs, OF surjective_pairing] by auto
qed

section \<open>Names of more than one line\<close>

text \<open>
  Nothing on the way from a member's announcement to the hosts file refuses a line break in its
  name: such a name puts a line of its choice into the file of every node, without the banner, so
  that it stays when all entries are removed.
\<close>

definition broken_name :: string where
  "broken_name = ''b'' @ [CHR 0x0A] @ ''192.0.2.1 bank'' @ [CHR 0x0A]"

theorem hosts_name_adds_line:
  "\<exists>new. writeEntries (hostsFor ''wg0'') '''' [(''10.0.0.2'', [broken_name])] = Inr new \<and>
     writeEntries (hostsFor ''wg0'') new [] = Inr (print_lines [''10.0.0.2'' @ [CHR 0x09] @ ''b'', ''192.0.2.1 bank''])"
proof -
  let ?b = "hostsFor ''wg0''" and ?l1 = "''10.0.0.2'' @ [CHR 0x09] @ ''b''" and ?l2 = "''192.0.2.1 bank''"
  let ?l3 = "[CHR 0x09] @ ?b"
  let ?new = "print_lines [?l1, ?l2, ?l3]"
  have b: "?b \<noteq> []" by code_simp
  have "scan_lines [] = Some []" by (simp add: scan_lines_def)
  moreover have "print_lines [host_entry ?b ''10.0.0.2'' [broken_name]] = ?new"
    by (simp add: print_lines_def host_entry_def broken_name_def)
  ultimately have first: "writeEntries ?b [] [(''10.0.0.2'', [broken_name])] = Inr ?new"
    using b by (simp add: writeEntries_def missing_entries_def writeEntryWithBanner_def)
  have "scan_lines ?new = Some [?l1, ?l2, ?l3]"
    by (rule scan_print_lines) (simp add: hostsFor_def MaxScanTokenSize_def dropCR_def)
  moreover have "rewrite_lines ?b [] [] [?l1, ?l2, ?l3] = Some ([], [?l1, ?l2])" by code_simp
  ultimately have "writeEntries ?b ?new [] = Inr (print_lines [?l1, ?l2])"
    using b by (simp add: writeEntries_def missing_entries_def del: rewrite_lines.simps)
  with first show ?thesis by blast
qed

end
