(* ===== verification/Hostport.thy ===== *)
theory Hostport
  imports Go_Text Overlay
begin

text \<open>
  Addresses as text: \<^verbatim>\<open>net.SplitHostPort\<close> and \<^verbatim>\<open>net.JoinHostPort\<close>, the text form of \<^verbatim>\<open>netip\<close> addresses,
  \<^verbatim>\<open>GossipAddr\<close> of \<^verbatim>\<open>internal/overlay/node.go\<close>, \<^verbatim>\<open>withPort\<close> and the addresses of \<^verbatim>\<open>Join\<close> in
  \<^verbatim>\<open>internal/cluster/cluster.go\<close>, and \<^verbatim>\<open>enrolAddrs\<close> of \<^verbatim>\<open>internal/cli/agent.go\<close>.
\<close>

section \<open>Host and port\<close>

datatype hostport_error = MissingPort | TooManyColons | MissingBracket | UnexpectedOpen | UnexpectedClose

fun index_byte :: "char \<Rightarrow> string \<Rightarrow> nat option" where
  "index_byte c [] = None"
| "index_byte c (d # ds) = (if d = c then Some 0 else map_option Suc (index_byte c ds))"

definition last_index_byte :: "char \<Rightarrow> string \<Rightarrow> nat option" where
  "last_index_byte c s = map_option (\<lambda>i. length s - 1 - i) (index_byte c (rev s))"

definition SplitHostPort :: "string \<Rightarrow> hostport_error + string \<times> string" where
  "SplitHostPort hp =
     (case last_index_byte CHR '':'' hp of
        None \<Rightarrow> Inl MissingPort
      | Some i \<Rightarrow>
          (let rest = (\<lambda>host j k.
             if CHR ''['' \<in> set (drop j hp) then Inl UnexpectedOpen
             else if CHR '']'' \<in> set (drop k hp) then Inl UnexpectedClose
             else Inr (host, drop (i + 1) hp))
           in
             if hp ! 0 = CHR ''['' then
               (case index_byte CHR '']'' hp of
                  None \<Rightarrow> Inl MissingBracket
                | Some e \<Rightarrow>
                    if e + 1 = length hp then Inl MissingPort
                    else if e + 1 = i then rest (take (e - 1) (drop 1 hp)) 1 (e + 1)
                    else if hp ! (e + 1) = CHR '':'' then Inl TooManyColons
                    else Inl MissingPort)
             else if CHR '':'' \<in> set (take i hp) then Inl TooManyColons
             else rest (take i hp) 0 0))"

definition JoinHostPort :: "string \<Rightarrow> string \<Rightarrow> string" where
  "JoinHostPort host port = (if CHR '':'' \<in> set host then ''['' @ host @ '']:'' @ port else host @ '':'' @ port)"

text \<open>\<^verbatim>\<open>strings.Trim(a, "[]")\<close>.\<close>

definition trim_brackets :: "string \<Rightarrow> string" where
  "trim_brackets s = rev (dropWhile (\<lambda>c. c \<in> {CHR ''['', CHR '']''}) (rev (dropWhile (\<lambda>c. c \<in> {CHR ''['', CHR '']''}) s)))"

text \<open>\<^verbatim>\<open>strconv.Itoa\<close>.\<close>

definition Itoa :: "int \<Rightarrow> string" where
  "Itoa n = (if n < 0 then ''-'' @ decimal (nat (- n)) else decimal (nat n))"

definition withPort :: "string list \<Rightarrow> int \<Rightarrow> string list" where
  "withPort addrs port =
     map (\<lambda>a. case SplitHostPort a of Inl _ \<Rightarrow> JoinHostPort (trim_brackets a) (Itoa port) | Inr _ \<Rightarrow> a) addrs"

definition enrolAddrs :: "string list \<Rightarrow> int \<Rightarrow> string list" where
  "enrolAddrs join clusterPort =
     map (\<lambda>host. case SplitHostPort host of Inl _ \<Rightarrow> JoinHostPort host (Itoa clusterPort) | Inr _ \<Rightarrow> host) join"

section \<open>Addresses\<close>

fun addr4_String :: "nat \<Rightarrow> string" where
  "addr4_String w = decimal (w div 2 ^ 24 mod 256) @ ''.'' @ decimal (w div 2 ^ 16 mod 256) @ ''.'' @ decimal (w div 2 ^ 8 mod 256) @ ''.'' @ decimal (w mod 256)"

definition hex_digit :: "nat \<Rightarrow> char" where
  "hex_digit n = ''0123456789abcdef'' ! (n mod 16)"

text \<open>The hexadecimal digits of a 16-bit group, without leading zeroes.\<close>

definition hex_group :: "nat \<Rightarrow> string" where
  "hex_group n =
     (let ds = [n div 4096 mod 16, n div 256 mod 16, n div 16 mod 16] in
      map hex_digit (dropWhile (\<lambda>d. d = 0) ds) @ [hex_digit n])"

definition addr6_groups :: "nat \<Rightarrow> nat list" where
  "addr6_groups w = map (\<lambda>i. w div 2 ^ (16 * (7 - i)) mod 65536) [0..<8]"

text \<open>The first longest run of at least two zero groups: its start and its end.\<close>

fun zero_run :: "nat list \<Rightarrow> nat" where
  "zero_run [] = 0"
| "zero_run (g # gs) = (if g = 0 then zero_run gs + 1 else 0)"

definition best_run :: "nat list \<Rightarrow> (nat \<times> nat) option" where
  "best_run gs =
     foldl (\<lambda>best i. let n = zero_run (drop i gs) in
       if 2 \<le> n \<and> (case best of None \<Rightarrow> True | Some (s, e) \<Rightarrow> e - s < n) then Some (i, i + n) else best) None [0..<length gs]"

definition addr6_text :: "nat list \<Rightarrow> string" where
  "addr6_text gs =
     (case best_run gs of
        None \<Rightarrow> Join_strings (map hex_group gs) '':''
      | Some (s, e) \<Rightarrow> Join_strings (map hex_group (take s gs)) '':'' @ ''::'' @ Join_strings (map hex_group (drop e gs)) '':'')"

fun addr_String :: "addr \<Rightarrow> string" where
  "addr_String NoAddr = ''invalid IP''"
| "addr_String (Addr4 w) = addr4_String (unat w)"
| "addr_String (Addr6 w zone) =
     (if is_4in6 (Addr6 w zone) then ''::ffff:'' @ addr4_String (unat w mod 2 ^ 32) else addr6_text (addr6_groups (unat w))) @
     (if zone = '''' then '''' else ''%'' @ zone)"

fun addr_zone :: "addr \<Rightarrow> string" where
  "addr_zone (Addr6 _ zone) = zone"
| "addr_zone _ = []"

text \<open>\<^verbatim>\<open>AddrPort.String\<close>.\<close>

fun addrport_String :: "addr \<Rightarrow> uint16 \<Rightarrow> string" where
  "addrport_String NoAddr port = ''invalid AddrPort''"
| "addrport_String (Addr4 w) port = addr_String (Addr4 w) @ '':'' @ decimal (unat port)"
| "addrport_String (Addr6 w zone) port = ''['' @ addr_String (Addr6 w zone) @ '']:'' @ decimal (unat port)"

definition GossipAddr :: "node \<Rightarrow> string" where
  "GossipAddr n = (if node_port n = 0 then addr_String (node_addr n) else addrport_String (node_addr n) (node_port n))"

text \<open>The addresses \<^verbatim>\<open>Join\<close> hands to memberlist: those given, or the peers remembered.\<close>

definition join_addrs :: "node list \<Rightarrow> int \<Rightarrow> string list \<Rightarrow> string list" where
  "join_addrs peers port addrs = withPort (if addrs = [] then map GossipAddr peers else addrs) port"

section \<open>Laws\<close>

lemma index_byte_append: "c \<notin> set xs \<Longrightarrow> index_byte c (xs @ c # ys) = Some (length xs)"
  by (induction xs) auto

lemma last_index_byte_append: "c \<notin> set ys \<Longrightarrow> last_index_byte c (xs @ c # ys) = Some (length xs)"
  using index_byte_append [of c "rev ys" "rev xs"] by (simp add: last_index_byte_def)

definition clean :: "string \<Rightarrow> bool" where
  "clean s \<longleftrightarrow> CHR ''['' \<notin> set s \<and> CHR '']'' \<notin> set s"

lemma Split_Join:
  assumes "clean host" and "clean port" and "CHR '':'' \<notin> set port"
  shows "SplitHostPort (JoinHostPort host port) = Inr (host, port)"
proof (cases "CHR '':'' \<in> set host")
  case True
  let ?hp = "''['' @ host @ '']:'' @ port"
  have "last_index_byte CHR '':'' ((''['' @ host @ '']'') @ CHR '':'' # port) = Some (length (''['' @ host @ '']''))"
    using assms(3) by (rule last_index_byte_append)
  moreover have "index_byte CHR '']'' ((''['' @ host) @ CHR '']'' # '':'' @ port) = Some (length (''['' @ host))"
    using assms(1) by (intro index_byte_append) (simp add: clean_def)
  ultimately show ?thesis
    using True assms by (simp add: SplitHostPort_def JoinHostPort_def Let_def clean_def)
next
  case False
  have "last_index_byte CHR '':'' (host @ CHR '':'' # port) = Some (length host)"
    using assms(3) by (rule last_index_byte_append)
  moreover have "(host @ '':'' @ port) ! 0 \<noteq> CHR ''[''"
    using assms(1) by (cases host) (auto simp: clean_def)
  ultimately show ?thesis
    using False assms by (simp add: SplitHostPort_def JoinHostPort_def Let_def clean_def)
qed

lemma decimal_digits: "c \<in> set (decimal n) \<Longrightarrow> c \<in> set ''0123456789''"
proof (induction n rule: decimal.induct)
  case (1 n)
  have digit: "char_of (48 + k) \<in> set ''0123456789''" if "k < 10" for k :: nat
  proof -
    have "k = 0 \<or> k = 1 \<or> k = 2 \<or> k = 3 \<or> k = 4 \<or> k = 5 \<or> k = 6 \<or> k = 7 \<or> k = 8 \<or> k = 9"
      using that by arith
    then show ?thesis by (elim disjE; simp add: char_of_def bit_0)
  qed
  show ?case
    using 1 digit [of "n mod 10"] digit [of n] by (cases "n < 10") (auto simp: decimal.simps [of n])
qed

lemma decimal_lacks: "c \<notin> set ''0123456789'' \<Longrightarrow> c \<notin> set (decimal n)"
  using decimal_digits by blast

lemma Itoa_lacks: "c \<notin> set ''-0123456789'' \<Longrightarrow> c \<notin> set (Itoa n)"
  using decimal_lacks [of c] by (simp add: Itoa_def)

lemma Itoa_clean: "clean (Itoa n)"
  by (simp add: clean_def Itoa_lacks)

lemma Itoa_colon: "CHR '':'' \<notin> set (Itoa n)"
  by (simp add: Itoa_lacks)

lemma trim_brackets_clean: "clean s \<Longrightarrow> trim_brackets s = s"
proof -
  assume "clean s"
  then have keep: "dropWhile (\<lambda>c. c \<in> {CHR ''['', CHR '']''}) t = t" if "set t \<subseteq> set s" for t
    using that by (cases t) (auto simp: clean_def)
  show ?thesis using keep [of s] keep [of "rev s"] unfolding trim_brackets_def by simp
qed

lemma Split_no_colon: "CHR '':'' \<notin> set s \<Longrightarrow> SplitHostPort s = Inl MissingPort"
proof -
  have "index_byte c s = None" if "c \<notin> set s" for c s using that by (induction s) auto
  then show "CHR '':'' \<notin> set s \<Longrightarrow> ?thesis" by (simp add: SplitHostPort_def last_index_byte_def)
qed

lemma Split_two_colons:
  assumes "clean (xs @ CHR '':'' # ys)" and "CHR '':'' \<in> set xs"
  shows "\<exists>e. SplitHostPort (xs @ CHR '':'' # ys) = Inl e"
proof -
  obtain us vs where split: "xs @ CHR '':'' # ys = us @ CHR '':'' # vs" and last: "CHR '':'' \<notin> set vs"
    using split_list_last [of "CHR '':''" "xs @ CHR '':'' # ys"] by auto
  have "CHR '':'' \<in> set us"
  proof (rule ccontr)
    assume no: "CHR '':'' \<notin> set us"
    obtain as bs where "xs = as @ CHR '':'' # bs" using split_list [OF assms(2)] by blast
    then have "us @ CHR '':'' # vs = as @ CHR '':'' # bs @ CHR '':'' # ys" using split by simp
    then have "length (List.filter (\<lambda>c. c = CHR '':'') (us @ CHR '':'' # vs))
        = length (List.filter (\<lambda>c. c = CHR '':'') (as @ CHR '':'' # bs @ CHR '':'' # ys))"
      by simp
    moreover have "List.filter (\<lambda>c. c = CHR '':'') us = []" "List.filter (\<lambda>c. c = CHR '':'') vs = []"
      using no last by (auto simp: filter_empty_conv)
    ultimately show False by simp
  qed
  moreover have "(us @ CHR '':'' # vs) ! 0 \<noteq> CHR ''[''"
    using assms(1) unfolding split by (cases us) (auto simp: clean_def)
  ultimately have "SplitHostPort (us @ CHR '':'' # vs) = Inl TooManyColons"
    by (simp add: SplitHostPort_def last_index_byte_append [OF last])
  then show ?thesis using split by simp
qed

section \<open>The text of an address\<close>

lemma Join_strings_set: "c \<in> set (Join_strings ss sep) \<Longrightarrow> c \<in> set sep \<or> (\<exists>s\<in>set ss. c \<in> set s)"
  by (induction ss sep rule: Join_strings.induct) auto

lemma hex_digit_set: "hex_digit n \<in> set ''0123456789abcdef''"
  unfolding hex_digit_def by (rule nth_mem) simp

lemma hex_group_set: "c \<in> set (hex_group n) \<Longrightarrow> c \<in> set ''0123456789abcdef''"
proof -
  assume "c \<in> set (hex_group n)"
  then have "c \<in> range hex_digit" by (auto simp: hex_group_def Let_def)
  then show ?thesis using hex_digit_set by blast
qed

lemma addr6_text_set: "c \<in> set (addr6_text gs) \<Longrightarrow> c \<in> set '':0123456789abcdef''"
  by (auto simp: addr6_text_def split: option.splits prod.splits dest!: Join_strings_set hex_group_set)

lemma addr4_text_set: "c \<in> set (addr4_String w) \<Longrightarrow> c \<in> set ''.0123456789''"
  by (auto dest: decimal_digits)

lemma addr6_text_colons:
  assumes "3 \<le> length gs"
  obtains xs ys where "addr6_text gs = xs @ CHR '':'' # ys" and "CHR '':'' \<in> set xs"
proof (cases "best_run gs")
  case None
  obtain a b c ds where "gs = a # b # c # ds"
    using assms by (metis Suc_le_length_iff numeral_3_eq_3)
  then have "addr6_text gs = (hex_group a @ '':'' @ hex_group b) @ CHR '':'' # Join_strings (map hex_group (c # ds)) '':''"
    using None by (simp add: addr6_text_def)
  then show ?thesis by (rule that) simp
next
  case (Some r)
  obtain s e where r: "r = (s, e)" by (cases r)
  have "addr6_text gs = (Join_strings (map hex_group (take s gs)) '':'' @ '':'')
      @ CHR '':'' # Join_strings (map hex_group (drop e gs)) '':''"
    using Some r by (simp add: addr6_text_def)
  then show ?thesis by (rule that) simp
qed

lemma addr_text_clean:
  assumes "ip \<noteq> NoAddr" and "clean (addr_zone ip)"
  shows "clean (addr_String ip)"
proof -
  have "clean (addr6_text gs)" for gs using addr6_text_set by (auto simp: clean_def)
  moreover have "clean (addr4_String w)" for w using addr4_text_set [of _ w] by (auto simp: clean_def simp del: addr4_String.simps)
  ultimately show ?thesis
    using assms by (cases ip) (auto simp: clean_def simp del: addr4_String.simps)
qed

lemma addr6_colons:
  obtains xs ys where "addr_String (Addr6 w zone) = xs @ CHR '':'' # ys" and "CHR '':'' \<in> set xs"
proof (cases "is_4in6 (Addr6 w zone)")
  case True
  then show ?thesis using that [of "'':''"] by simp
next
  case False
  have "3 \<le> length (addr6_groups (unat w))" by (simp add: addr6_groups_def)
  then obtain xs ys where t: "addr6_text (addr6_groups (unat w)) = xs @ CHR '':'' # ys" and c: "CHR '':'' \<in> set xs"
    by (rule addr6_text_colons)
  show ?thesis by (rule that [OF _ c]) (use t False in simp)
qed

lemma addrport_is_Join:
  assumes "ip \<noteq> NoAddr"
  shows "addrport_String ip port = JoinHostPort (addr_String ip) (decimal (unat port))"
proof (cases ip)
  case (Addr4 w)
  then show ?thesis using addr4_text_set [of "CHR '':''" "unat w"] by (auto simp: JoinHostPort_def simp del: addr4_String.simps)
next
  case (Addr6 w zone)
  obtain xs ys where "addr_String (Addr6 w zone) = xs @ CHR '':'' # ys" by (rule addr6_colons)
  then have "CHR '':'' \<in> set (addr_String (Addr6 w zone))" by simp
  then show ?thesis by (simp add: Addr6 JoinHostPort_def)
qed (use assms in simp)

lemma bare_addr_no_port:
  assumes "ip \<noteq> NoAddr" and "clean (addr_zone ip)"
  shows "\<exists>e. SplitHostPort (addr_String ip) = Inl e"
proof (cases ip)
  case (Addr4 w)
  then have "CHR '':'' \<notin> set (addr_String ip)" using addr4_text_set [of "CHR '':''" "unat w"] by (auto simp del: addr4_String.simps)
  then show ?thesis by (simp add: Split_no_colon)
next
  case (Addr6 w zone)
  obtain xs ys where "addr_String ip = xs @ CHR '':'' # ys" and "CHR '':'' \<in> set xs"
    unfolding Addr6 by (rule addr6_colons)
  then show ?thesis using Split_two_colons [of xs ys] addr_text_clean [OF assms] by simp
qed (use assms in simp)

section \<open>Properties\<close>

lemma withPort_one:
  assumes "SplitHostPort a = Inl e" and "clean (trim_brackets a)"
  shows "SplitHostPort (JoinHostPort (trim_brackets a) (Itoa port)) = Inr (trim_brackets a, Itoa port)"
  by (rule Split_Join [OF assms(2) Itoa_clean Itoa_colon])

lemma gossip_addr_splits:
  assumes "node_addr n \<noteq> NoAddr" and "clean (addr_zone (node_addr n))"
  shows "SplitHostPort (hd (withPort [GossipAddr n] port)) =
    Inr (addr_String (node_addr n), if node_port n = 0 then Itoa port else decimal (unat (node_port n)))"
proof (cases "node_port n = 0")
  case True
  note c = addr_text_clean [OF assms]
  obtain e where "SplitHostPort (addr_String (node_addr n)) = Inl e" using bare_addr_no_port [OF assms] by blast
  then show ?thesis
    using True withPort_one [of "addr_String (node_addr n)" e port] trim_brackets_clean [OF c] c
    by (simp add: withPort_def GossipAddr_def)
next
  case False
  have "SplitHostPort (JoinHostPort (addr_String (node_addr n)) (decimal (unat (node_port n))))
      = Inr (addr_String (node_addr n), decimal (unat (node_port n)))"
    by (rule Split_Join [OF addr_text_clean [OF assms]]) (simp_all add: clean_def decimal_lacks)
  then show ?thesis
    using False by (simp add: withPort_def GossipAddr_def addrport_is_Join [OF assms(1)])
qed

text \<open>
  A node that starts without being told whom to join dials exactly the peers it remembers: the
  addresses \<^verbatim>\<open>Join\<close> hands to memberlist, one per peer and in that order, split back into the
  address of the peer and the gossip port the peer announced, or this node's own port for a peer
  whose port is not known. IPv4, IPv6 and IPv4-mapped addresses all are written so that host and
  port can be told apart.
\<close>

theorem join_dials_remembered_peers:
  assumes "\<forall>n \<in> set peers. node_addr n \<noteq> NoAddr \<and> clean (addr_zone (node_addr n))"
  shows "map SplitHostPort (join_addrs peers port []) =
    map (\<lambda>n. Inr (addr_String (node_addr n), if node_port n = 0 then Itoa port else decimal (unat (node_port n)))) peers"
proof -
  have "join_addrs peers port [] = map (\<lambda>n. hd (withPort [GossipAddr n] port)) peers"
    by (simp add: join_addrs_def withPort_def)
  then show ?thesis using gossip_addr_splits assms by simp
qed

text \<open>
  The addresses given on the command line are completed, never changed: one that has a port is
  handed on as it is, one that has none, bracketed or not, becomes that host with the cluster's
  port, and completing a second time changes nothing.
\<close>

theorem withPort_completes:
  assumes "\<forall>a \<in> set addrs. (\<exists>hp. SplitHostPort a = Inr hp) \<or> clean (trim_brackets a)"
  shows "map SplitHostPort (withPort addrs port) =
      map (\<lambda>a. case SplitHostPort a of Inl _ \<Rightarrow> Inr (trim_brackets a, Itoa port) | Inr hp \<Rightarrow> Inr hp) addrs \<and>
    withPort (withPort addrs port) port2 = withPort addrs port"
proof -
  have each: "SplitHostPort (hd (withPort [a] port)) =
      (case SplitHostPort a of Inl _ \<Rightarrow> Inr (trim_brackets a, Itoa port) | Inr hp \<Rightarrow> Inr hp)" if "a \<in> set addrs" for a
    using assms that withPort_one [of a _ port] by (fastforce simp: withPort_def split: sum.splits)
  have maps: "withPort addrs port = map (\<lambda>a. hd (withPort [a] port)) addrs"
    by (simp add: withPort_def)
  have "map SplitHostPort (withPort addrs port) =
      map (\<lambda>a. case SplitHostPort a of Inl _ \<Rightarrow> Inr (trim_brackets a, Itoa port) | Inr hp \<Rightarrow> Inr hp) addrs"
    unfolding maps using each by simp
  moreover have "\<exists>hp. SplitHostPort b = Inr hp" if "b \<in> set (withPort addrs port)" for b
    using that each unfolding maps by (auto split: sum.splits)
  then have "withPort (withPort addrs port) port2 = withPort addrs port"
    unfolding withPort_def [of "withPort addrs port" port2] by (fastforce intro!: map_idI split: sum.splits)
  ultimately show ?thesis ..
qed

definition demo_peers :: "node list" where
  "demo_peers =
     [\<lparr>meta_overlayAddr = NoAddr, meta_pubKey = [], meta_allowedIPs = [], meta_identity = 0, meta_signature = [],
        node_name = ''a'', node_addr = Addr4 167772161, node_port = 7000\<rparr>,
      \<lparr>meta_overlayAddr = NoAddr, meta_pubKey = [], meta_allowedIPs = [], meta_identity = 0, meta_signature = [],
        node_name = ''b'', node_addr = Addr6 1 [], node_port = 0\<rparr>]"

lemma port_texts: "Itoa 7946 = ''7946''" "decimal 7000 = ''7000''"
  by (simp_all add: Itoa_def decimal.simps char_of_def bit_0)

lemma addr_texts: "addr_String (Addr4 167772161) = ''10.0.0.1''" "addr_String (Addr6 1 []) = ''::1''"
proof -
  show "addr_String (Addr4 167772161) = ''10.0.0.1''"
    by (simp add: decimal.simps char_of_def bit_0)
  have "addr6_groups 1 = [0, 0, 0, 0, 0, 0, 0, 1]" by (simp add: addr6_groups_def upt_rec)
  moreover have "addr6_text [0, 0, 0, 0, 0, 0, 0, 1] = ''::1''" by code_simp
  ultimately show "addr_String (Addr6 1 []) = ''::1''" by simp
qed

theorem join_dials_remembered_peers_witness:
  "map SplitHostPort (join_addrs demo_peers 7946 []) =
     [Inr (''10.0.0.1'', ''7000''), Inr (''::1'', ''7946'')]"
proof -
  have "\<forall>n \<in> set demo_peers. node_addr n \<noteq> NoAddr \<and> clean (addr_zone (node_addr n))"
    by (simp add: demo_peers_def clean_def)
  from join_dials_remembered_peers [OF this, of 7946] show ?thesis
    by (simp add: demo_peers_def port_texts addr_texts del: addr_String.simps)
qed

theorem withPort_completes_witness:
  "map SplitHostPort (withPort [''member'', ''[fd00::1]'', ''10.0.0.1:1234''] 7946) =
     [Inr (''member'', ''7946''), Inr (''fd00::1'', ''7946''), Inr (''10.0.0.1'', ''1234'')] \<and>
   withPort (withPort [''member'', ''[fd00::1]'', ''10.0.0.1:1234''] 7946) 1 =
     withPort [''member'', ''[fd00::1]'', ''10.0.0.1:1234''] 7946"
proof -
  let ?addrs = "[''member'', ''[fd00::1]'', ''10.0.0.1:1234'']"
  have trims: "trim_brackets ''member'' = ''member''" "trim_brackets ''[fd00::1]'' = ''fd00::1''"
    by (simp_all add: trim_brackets_def)
  have splits: "SplitHostPort ''member'' = Inl MissingPort" "SplitHostPort ''[fd00::1]'' = Inl MissingPort"
    "SplitHostPort ''10.0.0.1:1234'' = Inr (''10.0.0.1'', ''1234'')"
    by code_simp+
  have "\<forall>a \<in> set ?addrs. (\<exists>hp. SplitHostPort a = Inr hp) \<or> clean (trim_brackets a)"
    by (simp add: trims splits clean_def)
  from withPort_completes [OF this, of 7946 1] show ?thesis
    by (simp add: trims splits port_texts)
qed

text \<open>
  The two places that complete an address disagree: a bracketed IPv6 address without a port is
  accepted when joining the gossip, but enrolling with a member given that way asks for a second
  pair of brackets, which no dialler can split.
\<close>

theorem enrolAddrs_brackets_twice:
  "withPort [''[fd00::1]''] 7946 = [''[fd00::1]:7946''] \<and> enrolAddrs [''[fd00::1]''] 7946 = [''[[fd00::1]]:7946'']
    \<and> (\<exists>e. SplitHostPort ''[[fd00::1]]:7946'' = Inl e)"
proof -
  have bare: "SplitHostPort ''[fd00::1]'' = Inl MissingPort" by code_simp
  have twice: "SplitHostPort ''[[fd00::1]]:7946'' = Inl MissingPort" by code_simp
  show ?thesis
    by (simp add: withPort_def enrolAddrs_def bare twice port_texts JoinHostPort_def trim_brackets_def)
qed

end
