(* ===== verification/Settings.thy ===== *)
theory Settings
  imports Wireguard
begin

text \<open>
  What the agent is told and what it checks of it: the settings of \<^verbatim>\<open>internal/cli/settings.go\<close>, the
  checks on the overlay network in \<^verbatim>\<open>internal/cli/agent.go\<close>, and the choice of the address to
  advertise, \<^verbatim>\<open>internal/cli/bind.go\<close>. Parsing the flags and reading their defaults is kong's.
  Durations are nanoseconds, as in Go.
\<close>

section \<open>Settings\<close>

record settings =
  cli_Join :: "string list"
  cli_BindAddr :: addr
  cli_ClusterPort :: int
  cli_WireguardPort :: int
  cli_OverlayNet :: prefix
  cli_AllowedIPs :: "prefix list"
  cli_Interface :: string
  cli_MTU :: int
  cli_PersistentKeepalive :: int
  cli_NoEtcHosts :: bool
  cli_Userspace :: bool
  cli_ControlSocket :: string
  cli_stateDir :: string

datatype settings_error =
    NoRoom prefix | OverlapsOverlay prefix prefix | UnsupportedMTU int | UnsupportedKeepalive int | JoinKeyNeedsJoin | NothingToAdvertise bool

text \<open>\<^verbatim>\<open>DefaultOverlayNet\<close>, 10.0.0.0/8.\<close>

definition DefaultOverlayNet :: prefix where
  "DefaultOverlayNet = prefix_from (Addr4 0x0A000000) 8"

text \<open>\<^verbatim>\<open>state\<close>: \<open>dflt\<close> is the platform's \<^verbatim>\<open>cluster.DefaultDir\<close>.\<close>

definition settings_state :: "string \<Rightarrow> settings \<Rightarrow> string" where
  "settings_state dflt s = (if cli_stateDir s = '''' then dflt else cli_stateDir s)"

definition checkOverlayNet :: "prefix \<Rightarrow> prefix list \<Rightarrow> settings_error option" where
  "checkOverlayNet overlayNet allowedIPs =
     (if MaxHost overlayNet < 2 then Some (NoRoom overlayNet)
      else
        (case List.find (\<lambda>p. overlaps p overlayNet) allowedIPs of
           Some p \<Rightarrow> Some (OverlapsOverlay p overlayNet)
         | None \<Rightarrow> None))"

definition time_Second :: int where
  "time_Second = 1000000000"

definition settings_check :: "settings \<Rightarrow> settings_error option" where
  "settings_check s =
     (case (if prefix_is_valid (cli_OverlayNet s) then checkOverlayNet (masked (cli_OverlayNet s)) (cli_AllowedIPs s) else None) of
        Some e \<Rightarrow> Some e
      | None \<Rightarrow>
          if cli_MTU s < 576 \<or> cli_MTU s > 65535 then Some (UnsupportedMTU (cli_MTU s))
          else
            (let ka = cli_PersistentKeepalive s in
             if ka \<noteq> 0 \<and> (ka < time_Second \<or> ka > 65535 * time_Second \<or> ka mod time_Second \<noteq> 0)
             then Some (UnsupportedKeepalive ka) else None))"

text \<open>\<^verbatim>\<open>AgentCmd.Validate\<close>; \<open>joinKey\<close> is the value of \<^verbatim>\<open>--join-key\<close>.\<close>

definition agent_Validate :: "string \<Rightarrow> settings \<Rightarrow> settings_error option" where
  "agent_Validate joinKey s =
     (if joinKey \<noteq> '''' \<and> cli_Join s = [] then Some JoinKeyNeedsJoin else settings_check s)"

definition masked_all :: "prefix list \<Rightarrow> prefix list" where
  "masked_all prefixes = map masked prefixes"

text \<open>
  \<^verbatim>\<open>settleOverlayNet\<close>: the settings with the overlay network decided, and the error. The agent
  stops on an error.
\<close>

definition settleOverlayNet :: "prefix \<Rightarrow> settings \<Rightarrow> settings \<times> settings_error option" where
  "settleOverlayNet clusterNet s =
     (let s' = (if \<not> prefix_is_valid (cli_OverlayNet s) \<and> prefix_is_valid clusterNet then s\<lparr>cli_OverlayNet := clusterNet\<rparr>
                else if \<not> prefix_is_valid (cli_OverlayNet s) then s\<lparr>cli_OverlayNet := DefaultOverlayNet\<rparr>
                else s\<lparr>cli_OverlayNet := masked (cli_OverlayNet s)\<rparr>)
      in (s', checkOverlayNet (cli_OverlayNet s') (cli_AllowedIPs s')))"

section \<open>The address to advertise\<close>

definition sharedAddressSpace :: prefix where
  "sharedAddressSpace = prefix_from (Addr4 0x64400000) 10"

definition isPublic :: "addr \<Rightarrow> bool" where
  "isPublic a \<longleftrightarrow> is_global_unicast a \<and> \<not> is_private a \<and> \<not> prefix_contains sharedAddressSpace a"

text \<open>An address of an interface: an \<^verbatim>\<open>IPNet\<close>, an \<^verbatim>\<open>IPAddr\<close> or something else.\<close>

datatype net_addr = IPNet_addr bytes | IPAddr_addr bytes | Other_addr

fun net_addr_ip :: "net_addr \<Rightarrow> bytes option" where
  "net_addr_ip (IPNet_addr ip) = Some ip"
| "net_addr_ip (IPAddr_addr ip) = Some ip"
| "net_addr_ip Other_addr = None"

fun firstAddr :: "net_addr list \<Rightarrow> (addr \<Rightarrow> bool) \<Rightarrow> addr option" where
  "firstAddr [] want = None"
| "firstAddr (na # nas) want =
     (case net_addr_ip na of
        None \<Rightarrow> firstAddr nas want
      | Some ip \<Rightarrow>
          (case addr_from_slice ip of
             (_, False) \<Rightarrow> firstAddr nas want
           | (a, True) \<Rightarrow> if want (unmap a) then Some (unmap a) else firstAddr nas want))"

definition pickAdvertiseAddr :: "addr \<Rightarrow> net_addr list \<Rightarrow> addr option" where
  "pickAdvertiseAddr wildcard addrs =
     (let inFamily = (\<lambda>want x. is4 x = is4 wildcard \<and> want x) in
      case firstAddr addrs (inFamily isPublic) of
        Some a \<Rightarrow> Some a
      | None \<Rightarrow> firstAddr addrs (inFamily is_global_unicast))"

text \<open>An interface as \<^verbatim>\<open>net.Interfaces\<close> lists it; its addresses may be unreadable.\<close>

record net_interface =
  nif_Name :: string
  nif_Up :: bool
  nif_Loopback :: bool
  nif_Addrs :: "net_addr list option"

definition upInterfaceAddrs :: "net_interface list option \<Rightarrow> string \<Rightarrow> net_addr list" where
  "upInterfaceAddrs ifaces skip =
     (case ifaces of
        None \<Rightarrow> []
      | Some is \<Rightarrow>
          concat (map (\<lambda>i. if \<not> nif_Up i \<or> nif_Loopback i \<or> nif_Name i = skip then []
                           else (case nif_Addrs i of None \<Rightarrow> [] | Some as \<Rightarrow> as)) is))"

definition advertiseAddr :: "net_interface list option \<Rightarrow> settings \<Rightarrow> settings_error + addr" where
  "advertiseAddr ifaces s =
     (if \<not> is_unspecified (cli_BindAddr s) then Inr (cli_BindAddr s)
      else
        (case pickAdvertiseAddr (cli_BindAddr s) (upInterfaceAddrs ifaces (cli_Interface s)) of
           None \<Rightarrow> Inl (NothingToAdvertise (is6 (cli_BindAddr s)))
         | Some a \<Rightarrow> Inr a))"

end
