(* ===== verification/Agent_Loop.thy ===== *)
theory Agent_Loop
  imports Settings Link_Linux_User Etc_Hosts Hostport Cluster_Example "HOL-Library.Char_ord" "HOL-Library.List_Lexorder"
begin

text \<open>
  The agent's loop, \<^verbatim>\<open>internal/cli/agent_loop.go\<close>: every membership snapshot is pushed to wireguard
  and to the hosts file, the service manager is kept posted, and a stop leaves the cluster and
  tears everything down. The parts it drives are the components' own definitions: \<open>SetUpInterface\<close>
  and \<open>DownInterface\<close> over a platform, \<open>WriteEntries\<close> over the hosts file and \<open>Leave\<close>. What
  arrives on the channels is a list of events in the order the loop takes them. The snapshots'
  names are distinct, since memberlist keeps its nodes by name, so that the sort, which is not
  stable, has only one result. Logging is left out.
\<close>

section \<open>One snapshot\<close>

text \<open>The networks of one node that go to it, and the record of who routes what after it.\<close>

fun take_routes :: "prefix \<Rightarrow> string \<Rightarrow> (prefix \<times> string) list \<Rightarrow> prefix list \<Rightarrow> (prefix \<times> string) list \<times> prefix list" where
  "take_routes net name routedBy [] = (routedBy, [])"
| "take_routes net name routedBy (p # ps) =
     (if overlaps p net then take_routes net name routedBy ps
      else
        (case map_of routedBy p of
           Some _ \<Rightarrow> take_routes net name routedBy ps
         | None \<Rightarrow> (case take_routes net name (AList.update p name routedBy) ps of (r, routes) \<Rightarrow> (r, p # routes))))"

fun resolve_nodes :: "prefix \<Rightarrow> (prefix \<times> string) list \<Rightarrow> host_entries \<Rightarrow> node list \<Rightarrow> host_entries \<times> node list" where
  "resolve_nodes net routedBy hostEntries [] = (hostEntries, [])"
| "resolve_nodes net routedBy hostEntries (n # ns) =
     (case take_routes net (node_name n) routedBy (meta_allowedIPs n) of
        (routedBy', routes) \<Rightarrow>
          (case resolve_nodes net routedBy' (AList.update (addr_String (meta_overlayAddr n)) [node_name n] hostEntries) ns of
             (entries, nodes) \<Rightarrow> (entries, n\<lparr>meta_allowedIPs := routes\<rparr> # nodes)))"

text \<open>What the agent drives: the wireguard state, the operating system and the hosts file.\<close>

record 'w agent_world =
  aw_wg :: wg_state
  aw_os :: 'w
  aw_hosts :: hosts_fs

definition resolved :: "settings \<Rightarrow> node list \<Rightarrow> host_entries \<times> node list" where
  "resolved a peers = resolve_nodes (cli_OverlayNet a) [] [] (sort_key node_name peers)"

definition apply_snapshot ::
  "'w platform_ops \<Rightarrow> (string \<Rightarrow> wgkey option) \<Rightarrow> settings \<Rightarrow> hosts_faults \<Rightarrow> 'w agent_world \<Rightarrow> node list \<Rightarrow> 'w agent_world \<times> nat" where
  "apply_snapshot P parse a hf w peers =
     (case resolved a peers of
        (hostEntries, nodes) \<Rightarrow>
          (let (s, k) =
             (case SetUpInterface P parse (aw_wg w) (aw_os w) nodes of
                (s, k, None) \<Rightarrow> (s, k)
              | (s, k, Some _) \<Rightarrow> (case DownInterface P s k of (s', k', _) \<Rightarrow> (s', k')));
               hosts = (if cli_NoEtcHosts a then aw_hosts w else fst (WriteEntries hf (hostsFor (cli_Interface a)) hostEntries (aw_hosts w)))
           in (\<lparr>aw_wg = s, aw_os = k, aw_hosts = hosts\<rparr>, length nodes)))"

section \<open>The loop\<close>

text \<open>
  What the loop waits for: a snapshot, the end of the membership channel, or the end of the
  context. With each comes what the operating system will answer.
\<close>

datatype agent_event = Snapshot hosts_faults "node list" | ChannelClosed | Stop hosts_faults save_faults

text \<open>What the service manager is told, in order.\<close>

datatype notification = Ready string | Status string | Stopping

datatype agent_error = MembershipClosed | DowningInterface wg_error | ControlSocketFailed

datatype agent_result = Running | Returned "agent_error option"

record 'w agent =
  ag_world :: "'w agent_world"
  ag_cluster :: cluster
  ag_ready :: bool
  ag_notes :: "notification list"

definition peers_text :: "nat \<Rightarrow> string" where
  "peers_text n = decimal n @ '' peers''"

definition on_snapshot :: "'w platform_ops \<Rightarrow> (string \<Rightarrow> wgkey option) \<Rightarrow> settings \<Rightarrow> hosts_faults \<Rightarrow> 'w agent \<Rightarrow> node list \<Rightarrow> 'w agent" where
  "on_snapshot P parse a hf g peers =
     (case apply_snapshot P parse a hf (ag_world g) peers of
        (w, n) \<Rightarrow> g\<lparr>ag_world := w, ag_ready := True,
                    ag_notes := ag_notes g @ [if ag_ready g then Status (peers_text n) else Ready (peers_text n)]\<rparr>)"

definition on_stop ::
  "'w platform_ops \<Rightarrow> cluster_lib \<Rightarrow> settings \<Rightarrow> hosts_faults \<Rightarrow> save_faults \<Rightarrow> 'w agent \<Rightarrow> 'w agent \<times> agent_error option" where
  "on_stop P E a hf sf g =
     (let w = ag_world g;
          hosts = (if cli_NoEtcHosts a then aw_hosts w else fst (WriteEntries hf (hostsFor (cli_Interface a)) [] (aw_hosts w)))
      in
        case DownInterface P (aw_wg w) (aw_os w) of
          (s, k, err) \<Rightarrow>
            (g\<lparr>ag_world := \<lparr>aw_wg = s, aw_os = k, aw_hosts = hosts\<rparr>, ag_cluster := Leave E sf (ag_cluster g),
               ag_notes := ag_notes g @ [Stopping]\<rparr>,
             map_option DowningInterface err))"

fun agent_loop ::
  "'w platform_ops \<Rightarrow> (string \<Rightarrow> wgkey option) \<Rightarrow> cluster_lib \<Rightarrow> settings \<Rightarrow> 'w agent \<Rightarrow> agent_event list \<Rightarrow> 'w agent \<times> agent_result" where
  "agent_loop P parse E a g [] = (g, Running)"
| "agent_loop P parse E a g (Snapshot hf peers # evs) = agent_loop P parse E a (on_snapshot P parse a hf g peers) evs"
| "agent_loop P parse E a g (ChannelClosed # evs) = (g, Returned (Some MembershipClosed))"
| "agent_loop P parse E a g (Stop hf sf # evs) = (case on_stop P E a hf sf g of (g', err) \<Rightarrow> (g', Returned err))"

section \<open>Who routes what\<close>

lemma take_routes_exact:
  "take_routes net name rb ps = (rb', rs) \<Longrightarrow>
    distinct rs \<and> set rs = {p \<in> set ps. \<not> overlaps p net} - dom (map_of rb) \<and>
    dom (map_of rb') = dom (map_of rb) \<union> {p \<in> set ps. \<not> overlaps p net}"
proof (induction ps arbitrary: rb rb' rs)
  case (Cons p ps)
  show ?case
  proof (cases "overlaps p net \<or> p \<in> dom (map_of rb)")
    case True
    then have "take_routes net name rb ps = (rb', rs)" using Cons.prems by (auto split: option.splits)
    from Cons.IH [OF this] True show ?thesis by auto
  next
    case False
    then obtain rs' where rs': "rs = p # rs'" "take_routes net name (AList.update p name rb) ps = (rb', rs')"
      using Cons.prems by (auto split: option.splits prod.splits)
    have "dom (map_of (AList.update p name rb)) = insert p (dom (map_of rb))" by (auto simp: update_conv' dom_def)
    then show ?thesis using Cons.IH [OF rs'(2)] False unfolding rs'(1) by (simp only: distinct.simps list.set) blast
  qed
qed auto

text \<open>What a node is left with when the networks of \<open>before\<close> are taken.\<close>

definition own_routes :: "prefix \<Rightarrow> node set \<Rightarrow> node \<Rightarrow> prefix set" where
  "own_routes net before n = {p \<in> set (meta_allowedIPs n). \<not> overlaps p net \<and> (\<forall>m \<in> before. p \<notin> set (meta_allowedIPs m))}"

lemma resolve_nodes_exact:
  "resolve_nodes net rb h ns = (h', out) \<Longrightarrow> dom (map_of rb) = {p. \<exists>m \<in> before. p \<in> set (meta_allowedIPs m) \<and> \<not> overlaps p net} \<Longrightarrow>
    length out = length ns \<and>
    (\<forall>i < length ns. out ! i = (ns ! i)\<lparr>meta_allowedIPs := meta_allowedIPs (out ! i)\<rparr> \<and> distinct (meta_allowedIPs (out ! i)) \<and>
      set (meta_allowedIPs (out ! i)) = own_routes net (before \<union> set (take i ns)) (ns ! i))"
proof (induction ns arbitrary: rb h out before)
  case (Cons n ns)
  obtain rb' rs where t: "take_routes net (node_name n) rb (meta_allowedIPs n) = (rb', rs)" by fastforce
  note e = take_routes_exact [OF t]
  obtain out' where out': "out = n\<lparr>meta_allowedIPs := rs\<rparr> # out'"
    "resolve_nodes net rb' (AList.update (addr_String (meta_overlayAddr n)) [node_name n] h) ns = (h', out')"
    using Cons.prems(1) t by (auto split: prod.splits)
  have "dom (map_of rb') = {p. \<exists>m \<in> insert n before. p \<in> set (meta_allowedIPs m) \<and> \<not> overlaps p net}"
    using e Cons.prems(2) by auto
  note IH = Cons.IH [OF out'(2) this]
  have own: "set rs = own_routes net before n" using e Cons.prems(2) by (auto simp: own_routes_def)
  show ?case
  proof (intro conjI allI impI)
    show "length out = length (n # ns)" using IH out'(1) by simp
  next
    fix i assume "i < length (n # ns)"
    then show "out ! i = ((n # ns) ! i)\<lparr>meta_allowedIPs := meta_allowedIPs (out ! i)\<rparr>" "distinct (meta_allowedIPs (out ! i))"
      "set (meta_allowedIPs (out ! i)) = own_routes net (before \<union> set (take i (n # ns))) ((n # ns) ! i)"
      using IH out'(1) own e by (cases i; simp)+
  qed
qed simp

lemma resolve_nodes_hosts:
  "distinct (map (addr_String \<circ> meta_overlayAddr) ns) \<Longrightarrow> (\<forall>n \<in> set ns. addr_String (meta_overlayAddr n) \<notin> fst ` set h) \<Longrightarrow>
    fst (resolve_nodes net rb h ns) = h @ map (\<lambda>n. (addr_String (meta_overlayAddr n), [node_name n])) ns"
proof (induction ns arbitrary: rb h)
  case (Cons n ns)
  have "AList.update k v h = h @ [(k, v)]" if "k \<notin> fst ` set h" for k :: string and v
    using that by (induction h) auto
  then have "AList.update (addr_String (meta_overlayAddr n)) [node_name n] h = h @ [(addr_String (meta_overlayAddr n), [node_name n])]"
    using Cons.prems(2) by simp
  moreover have "\<forall>m \<in> set ns. addr_String (meta_overlayAddr m) \<notin> fst ` set (h @ [(addr_String (meta_overlayAddr n), [node_name n])])"
    using Cons.prems by (simp add: image_iff) metis
  ultimately show ?case using Cons.IH [of "h @ [(addr_String (meta_overlayAddr n), [node_name n])]"] Cons.prems(1)
    by (simp add: case_prod_beta)
qed simp

text \<open>Distinct names make the sort independent of the order.\<close>

lemma sort_names_unique:
  assumes "distinct (map node_name peers)" and "mset peers' = mset peers"
  shows "sort_key node_name peers' = sort_key node_name (peers :: node list)"
proof (rule properties_for_sort_key)
  show "mset (sort_key node_name peers) = mset peers'" using assms(2) by simp
  show "sorted (map node_name (sort_key node_name peers))" by simp
  fix k assume k: "k \<in> set (sort_key node_name peers)"
  have d: "filter (\<lambda>x. node_name k = node_name x) xs = [k]" if "distinct (map node_name xs)" "k \<in> set xs" for xs :: "node list"
  proof -
    note d = that(1) and mem = that(2)
    obtain us vs where xs: "xs = us @ k # vs" using split_list [OF mem] by blast
    then have "filter (\<lambda>x. node_name k = node_name x) us = []" "filter (\<lambda>x. node_name k = node_name x) vs = []"
      using d by (auto simp: filter_empty_conv)
    then show ?thesis by (simp add: xs)
  qed
  have "distinct (map node_name peers')" "k \<in> set peers" "k \<in> set peers'"
    using assms k mset_eq_setD [OF assms(2)] by (auto simp: distinct_map mset_eq_imp_distinct_iff [OF assms(2)])
  moreover have "distinct (map node_name (sort_key node_name peers))" using assms(1) by (auto simp: distinct_map)
  ultimately show "filter (\<lambda>x. node_name k = node_name x) (sort_key node_name peers) = filter (\<lambda>x. node_name k = node_name x) peers'"
    using d k by simp
qed

lemma sorted_before:
  assumes "distinct (map node_name ns)" and "sorted (map node_name ns)" and "i < length ns"
  shows "set (take i ns) = {m \<in> set ns. node_name m < node_name (ns ! i)}"
proof -
  have lt: "node_name (ns ! j) < node_name (ns ! k)" if "j < k" "k < length ns" for j k
    using sorted_wrt_nth_less [OF strict_sorted_iff [THEN iffD2], of "map node_name ns" j k] assms(1,2) that by simp
  then have "node_name (ns ! j) < node_name (ns ! i) \<longleftrightarrow> j < i" if "j < length ns" for j
    using that assms(3) by (metis linorder_neqE_nat order.asym order.irrefl)
  moreover have "set (take i ns) = (!) ns ` {j. j < i}"
    using assms(3) by (auto simp: nth_image [symmetric] lessThan_def [symmetric] atLeast0LessThan)
  ultimately show ?thesis using assms(3) by (auto simp: in_set_conv_nth dest: less_trans)
qed

lemma distinct_concat_nth:
  "(\<And>i. i < length xs \<Longrightarrow> distinct (xs ! i)) \<Longrightarrow> (\<And>i j. i < j \<Longrightarrow> j < length xs \<Longrightarrow> set (xs ! i) \<inter> set (xs ! j) = {}) \<Longrightarrow>
    distinct (concat xs)"
proof (induction xs)
  case (Cons x xs)
  have "distinct (concat xs)"
  proof (rule Cons.IH)
    show "distinct (xs ! i)" if "i < length xs" for i using Cons.prems(1) [of "Suc i"] that by simp
    show "set (xs ! i) \<inter> set (xs ! j) = {}" if "i < j" "j < length xs" for i j using Cons.prems(2) [of "Suc i" "Suc j"] that by simp
  qed
  moreover have "set x \<inter> set (xs ! j) = {}" if "j < length xs" for j using Cons.prems(2) [of 0 "Suc j"] that by simp
  then have "set x \<inter> set (concat xs) = {}" by (fastforce simp: in_set_conv_nth)
  ultimately show ?case using Cons.prems(1) [of 0] by simp
qed simp

lemma resolved_exact:
  assumes "distinct (map node_name peers)" and "resolved a peers = (entries, nodes)"
  shows "length nodes = length peers"
    and "\<And>i. i < length peers \<Longrightarrow>
      nodes ! i = (sort_key node_name peers ! i)\<lparr>meta_allowedIPs := meta_allowedIPs (nodes ! i)\<rparr> \<and> distinct (meta_allowedIPs (nodes ! i)) \<and>
      set (meta_allowedIPs (nodes ! i)) =
        own_routes (cli_OverlayNet a) {m \<in> set peers. node_name m < node_name (sort_key node_name peers ! i)} (sort_key node_name peers ! i)"
proof -
  let ?ns = "sort_key node_name peers"
  have "resolve_nodes (cli_OverlayNet a) [] [] ?ns = (entries, nodes)" using assms(2) by (simp add: resolved_def)
  note exact = resolve_nodes_exact [OF this, of "{}", simplified]
  show "length nodes = length peers" using exact by (rule conjunct1)
  have d: "distinct (map node_name ?ns)" using assms(1) by (auto simp: distinct_map)
  show "nodes ! i = (?ns ! i)\<lparr>meta_allowedIPs := meta_allowedIPs (nodes ! i)\<rparr> \<and> distinct (meta_allowedIPs (nodes ! i)) \<and>
      set (meta_allowedIPs (nodes ! i)) = own_routes (cli_OverlayNet a) {m \<in> set peers. node_name m < node_name (?ns ! i)} (?ns ! i)"
    if "i < length peers" for i
    using exact [THEN conjunct2, rule_format, OF that] sorted_before [OF d, of i] that
    by (simp only: length_sort sorted_sort_key set_sort)
qed

lemma resolved_names:
  assumes "distinct (map node_name peers)" and "resolved a peers = (entries, nodes)"
  shows "map node_name nodes = sort (map node_name peers)"
proof -
  have "map node_name nodes = map node_name (sort_key node_name peers)"
  proof (rule nth_equalityI)
    fix i assume "i < length (map node_name nodes)"
    then have i: "i < length peers" using resolved_exact(1) [OF assms] by simp
    then show "map node_name nodes ! i = map node_name (sort_key node_name peers) ! i"
      using arg_cong [OF resolved_exact(2) [OF assms i, THEN conjunct1], of node_name] resolved_exact(1) [OF assms] by simp
  qed (simp add: resolved_exact(1) [OF assms])
  also have "\<dots> = sort (map node_name peers)" by (rule properties_for_sort [symmetric]) simp_all
  finally show ?thesis .
qed

lemma resolved_node:
  assumes "distinct (map node_name peers)" and "resolved a peers = (entries, nodes)" and "n \<in> set peers"
  shows "\<exists>m \<in> set nodes. m = n\<lparr>meta_allowedIPs := meta_allowedIPs m\<rparr> \<and>
    set (meta_allowedIPs m) = own_routes (cli_OverlayNet a) {m \<in> set peers. node_name m < node_name n} n"
proof -
  have "n \<in> set (sort_key node_name peers)" using assms(3) by simp
  then obtain i where i: "i < length peers" and n: "sort_key node_name peers ! i = n" unfolding in_set_conv_nth by auto
  have "nodes ! i \<in> set nodes" using i resolved_exact(1) [OF assms(1,2)] by simp
  then show ?thesis using resolved_exact(2) [OF assms(1,2) i] unfolding n by blast
qed

lemma resolved_distinct:
  assumes "distinct (map node_name peers)" and "resolved a peers = (entries, nodes)"
  shows "distinct (concat (map meta_allowedIPs nodes))"
proof (rule distinct_concat_nth)
  let ?ns = "sort_key node_name peers"
  note len = resolved_exact(1) [OF assms] and each = resolved_exact(2) [OF assms]
  show "distinct (map meta_allowedIPs nodes ! i)" if "i < length (map meta_allowedIPs nodes)" for i
    using each [of i] that len by simp
  show "set (map meta_allowedIPs nodes ! i) \<inter> set (map meta_allowedIPs nodes ! j) = {}"
    if "i < j" "j < length (map meta_allowedIPs nodes)" for i j
  proof -
    have d: "distinct (map node_name ?ns)" using assms(1) by (auto simp: distinct_map)
    have "take j ?ns ! i \<in> set (take j ?ns)" by (rule nth_mem) (use that len in simp)
    then have "?ns ! i \<in> {m \<in> set peers. node_name m < node_name (?ns ! j)}"
      using that len sorted_before [OF d, of j] by simp
    then show ?thesis using each [of i, THEN conjunct2] each [of j, THEN conjunct2] that len by (auto simp: own_routes_def)
  qed
qed

section \<open>The hosts entries\<close>

lemma address_chars_plain: "c \<in> set ''.:0123456789abcdef'' \<Longrightarrow> plain c"
proof -
  have "list_all plain ''.:0123456789abcdef''" by code_simp
  then show "c \<in> set ''.:0123456789abcdef'' \<Longrightarrow> plain c" by (simp only: list_all_iff)
qed

lemma addr4_chars: "c \<in> set (addr4_String w) \<Longrightarrow> c \<in> set ''.:0123456789abcdef''"
  by (drule addr4_text_set) auto

lemma addr6_chars: "c \<in> set (addr6_text gs) \<Longrightarrow> c \<in> set ''.:0123456789abcdef''"
  by (drule addr6_text_set) auto

lemma addr_text_plain:
  assumes "ip \<noteq> NoAddr" and "addr_zone ip = []"
  shows "list_all plain (addr_String ip)" and "addr_String ip \<noteq> []"
proof -
  have "c \<in> set ''.:0123456789abcdef''" if c: "c \<in> set (addr_String ip)" for c
  proof (cases ip)
    case (Addr4 w)
    then show ?thesis using c addr4_chars [of c] by (simp del: addr4_String.simps)
  next
    case (Addr6 w z)
    then consider "c \<in> set ''::ffff:''" | "c \<in> set (addr4_String (unat w mod 2 ^ 32))" | "c \<in> set (addr6_text (addr6_groups (unat w)))"
      using c assms(2) by (auto simp del: addr4_String.simps split: if_splits)
    then show ?thesis
    proof cases
      case 2
      then show ?thesis by (rule addr4_chars)
    next
      case 3
      then show ?thesis by (rule addr6_chars)
    qed auto
  qed (use assms in simp)
  then show "list_all plain (addr_String ip)" using address_chars_plain by (simp add: list_all_iff)
  show "addr_String ip \<noteq> []"
  proof (cases ip)
    case (Addr6 w z)
    obtain xs ys where "addr_String (Addr6 w z) = xs @ CHR '':'' # ys" by (rule addr6_colons)
    then show ?thesis using Addr6 by simp
  qed simp_all
qed

text \<open>What can be written to the hosts file of a node: an overlay address without a zone and a name of one line.\<close>

definition writable :: "node \<Rightarrow> bool" where
  "writable n \<longleftrightarrow> meta_overlayAddr n \<noteq> NoAddr \<and> addr_zone (meta_overlayAddr n) = [] \<and> CHR 0x0A \<notin> set (node_name n)"

definition entry_for :: "node \<Rightarrow> string \<times> string list" where
  "entry_for n = (addr_String (meta_overlayAddr n), [node_name n])"

lemma resolved_entries:
  assumes "distinct (map (addr_String \<circ> meta_overlayAddr) peers)" and "\<forall>n \<in> set peers. writable n"
  shows "mset (fst (resolved a peers)) = mset (map entry_for peers)" and "entries_ok (fst (resolved a peers))"
proof -
  let ?ns = "sort_key node_name peers" and ?f = "addr_String \<circ> meta_overlayAddr"
  have "mset (map ?f ?ns) = mset (map ?f peers)" by simp
  then have "distinct (map ?f ?ns)" using assms(1) by (rule mset_eq_imp_distinct_iff [THEN iffD2])
  then have entries: "fst (resolved a peers) = map entry_for ?ns"
    using resolve_nodes_hosts [of ?ns "[]"] by (simp add: resolved_def entry_for_def [abs_def])
  then show "mset (fst (resolved a peers)) = mset (map entry_for peers)" by simp
  have "map fst (map entry_for ?ns) = map ?f ?ns" by (simp add: entry_for_def)
  then have "distinct (map fst (map entry_for ?ns))" using \<open>distinct (map ?f ?ns)\<close> by (simp only:)
  then show "entries_ok (fst (resolved a peers))"
    unfolding entries entries_ok_def go_map_def
    using assms(2) addr_text_plain by (auto simp: entry_for_def writable_def)
qed

lemma SetUpInterface_iface: "SetUpInterface P parse s k nodes = (s', k', r) \<Longrightarrow> ws_iface s' = ws_iface s"
  by (auto simp: SetUpInterface_def Let_def split: prod.splits option.splits sum.splits bool.splits)

section \<open>Properties\<close>

text \<open>
  C31. Every advertised network goes to exactly one node, the same on every snapshot: the nodes
  handed to wireguard are those of the snapshot sorted by name, unchanged but for their networks;
  a node keeps exactly the networks it advertises that do not overlap the overlay and that no node
  with a smaller name advertises; and the order in which memberlist lists the members plays no
  role.
\<close>

theorem networks_go_to_the_first_by_name:
  assumes "distinct (map node_name peers)" and "resolved a peers = (entries, nodes)"
  shows "map node_name nodes = sort (map node_name peers) \<and>
    (\<forall>n \<in> set peers. \<exists>m \<in> set nodes. m = n\<lparr>meta_allowedIPs := meta_allowedIPs m\<rparr> \<and>
      set (meta_allowedIPs m) = {p \<in> set (meta_allowedIPs n). \<not> overlaps p (cli_OverlayNet a) \<and>
        (\<forall>n' \<in> set peers. node_name n' < node_name n \<longrightarrow> p \<notin> set (meta_allowedIPs n'))}) \<and>
    distinct (concat (map meta_allowedIPs nodes)) \<and>
    (\<forall>peers'. mset peers' = mset peers \<longrightarrow> resolved a peers' = (entries, nodes))"
proof -
  have own: "own_routes (cli_OverlayNet a) {m \<in> set peers. node_name m < node_name n} n =
      {p \<in> set (meta_allowedIPs n). \<not> overlaps p (cli_OverlayNet a) \<and>
        (\<forall>n' \<in> set peers. node_name n' < node_name n \<longrightarrow> p \<notin> set (meta_allowedIPs n'))}" for n
    by (auto simp: own_routes_def)
  have "resolved a peers' = (entries, nodes)" if "mset peers' = mset peers" for peers'
    using assms(2) sort_names_unique [OF assms(1) that] by (simp add: resolved_def)
  then show ?thesis
    using resolved_names [OF assms] resolved_distinct [OF assms] resolved_node [OF assms] unfolding own by blast
qed

text \<open>
  C30. A snapshot is installed completely or the interface is taken down. On every platform that
  keeps the promises of \<open>platform\<close> and \<open>removable\<close> (Linux with either device, macOS, Windows), after one turn
  of the loop the device has exactly one peer per node of the snapshot with its resolved networks
  and the routes are exactly theirs, apart from this node's own address; or, when a call of the
  operating system failed, the device has been deleted and is gone, or deleting it failed too, which
  the loop only logs: then wireguard's state is kept for the next snapshot or the stop to try again.
  And whenever writing the hosts file succeeds its managed lines name every node at its overlay
  address, once, and nothing else, with all other lines as they were. The nodes' names and the texts
  of their overlay addresses are distinct, no name holds a line break and no address a zone; the
  platform can route the destinations, none is this node's address, and nobody else routes one; the
  hosts file is there and readable.
\<close>

theorem snapshot_installed_or_down:
  assumes "platform P routes peers_of fits shown ours elsewhere" and "removable P gone"
    and "distinct (map node_name peers)" and "resolved a peers = (entries, nodes)"
    and "\<forall>d \<in> set (concat (map peerPrefixes nodes)). fits d \<and> \<not> elsewhere (aw_os w) (ws_osName (aw_wg w')) d \<and>
      d \<noteq> hostPrefix (ws_overlayAddr (aw_wg w))"
    and "ws_overlayAddr (aw_wg w) \<noteq> NoAddr \<and> ours (ws_osName (aw_wg w'))" and "apply_snapshot P parse a hf w peers = (w', n)"
    and "distinct (map (addr_String \<circ> meta_overlayAddr) peers)" and "\<forall>n \<in> set peers. writable n"
    and "b = hostsFor (cli_Interface a)" and "banner_ok b" and "\<not> cli_NoEtcHosts a"
    and "hosts_file (aw_hosts w) = Some orig" and "scan_lines orig = Some ls"
  shows "n = length peers \<and>
    (case SetUpInterface P parse (aw_wg w) (aw_os w) nodes of
       (s, k, None) \<Rightarrow>
         nodesToPeerConfigs parse (aw_wg w) nodes = Inr (peers_of (aw_os w') (ws_iface (aw_wg w))) \<and>
         set (concat (map peerPrefixes nodes)) \<subseteq> routes (aw_os w') (ws_osName (aw_wg w')) \<and>
         routes (aw_os w') (ws_osName (aw_wg w')) \<subseteq> insert (hostPrefix (ws_overlayAddr (aw_wg w))) (set (concat (map peerPrefixes nodes)))
     | (s, k, Some _) \<Rightarrow>
         (\<exists>ok. dev_Delete P k (ws_iface (aw_wg w)) = (aw_os w', ok) \<and>
            (if ok then gone (aw_os w') (ws_iface (aw_wg w)) \<and> aw_wg w' = s\<lparr>ws_osName := []\<rparr> else aw_wg w' = s))) \<and>
    (snd (WriteEntries hf b entries (aw_hosts w)) = None \<longrightarrow>
       (\<exists>new. hosts_file (aw_hosts w') = Some new \<and> unmanaged_lines b (split_lines [] new) = unmanaged_lines b ls \<and>
          mset (filter (managed_line b) (split_lines [] new)) =
            mset (map (\<lambda>n. host_entry b (addr_String (meta_overlayAddr n)) [node_name n]) peers)))"
proof -
  obtain s k r where up: "SetUpInterface P parse (aw_wg w) (aw_os w) nodes = (s, k, r)" by (cases "SetUpInterface P parse (aw_wg w) (aw_os w) nodes")
  have w': "n = length nodes" "aw_hosts w' = fst (WriteEntries hf b entries (aw_hosts w))"
    "r = None \<Longrightarrow> aw_wg w' = s \<and> aw_os w' = k"
    "r \<noteq> None \<Longrightarrow> \<exists>e. DownInterface P s k = (aw_wg w', aw_os w', e)"
    using assms(7,12) up by (auto simp: apply_snapshot_def assms(4,10) split: option.splits prod.splits)
  have "length nodes = length peers" by (rule resolved_exact(1) [OF assms(3,4)])
  moreover have "\<exists>ok. dev_Delete P k (ws_iface (aw_wg w)) = (aw_os w', ok) \<and>
      (if ok then gone (aw_os w') (ws_iface (aw_wg w)) \<and> aw_wg w' = s\<lparr>ws_osName := []\<rparr> else aw_wg w' = s)" if failed: "r \<noteq> None"
  proof -
    obtain e where "DownInterface P s k = (aw_wg w', aw_os w', e)" using w'(4) [OF failed] by blast
    from removable.taken_down [OF assms(2) this] obtain ok where "dev_Delete P k (ws_iface (aw_wg w)) = (aw_os w', ok)"
        "if ok then e = None \<and> gone (aw_os w') (ws_iface (aw_wg w)) \<and> aw_wg w' = s\<lparr>ws_osName := []\<rparr> else aw_wg w' = s"
      unfolding SetUpInterface_iface [OF up] by (auto split: if_splits)
    then show ?thesis by (intro exI [of _ ok]) (simp split: if_splits)
  qed
  moreover have "nodesToPeerConfigs parse (aw_wg w) nodes = Inr (peers_of (aw_os w') (ws_iface (aw_wg w))) \<and>
      set (concat (map peerPrefixes nodes)) \<subseteq> routes (aw_os w') (ws_osName (aw_wg w')) \<and>
      routes (aw_os w') (ws_osName (aw_wg w')) \<subseteq> insert (hostPrefix (ws_overlayAddr (aw_wg w))) (set (concat (map peerPrefixes nodes)))"
    if "r = None"
    using platform.setup_exact [OF assms(1), of parse "aw_wg w" "aw_os w" nodes s k] assms(5,6) up w'(3) that by simp
  moreover have "\<exists>new. hosts_file (aw_hosts w') = Some new \<and> unmanaged_lines b (split_lines [] new) = unmanaged_lines b ls \<and>
      mset (filter (managed_line b) (split_lines [] new)) =
        mset (map (\<lambda>n. host_entry b (addr_String (meta_overlayAddr n)) [node_name n]) peers)"
    if "snd (WriteEntries hf b entries (aw_hosts w)) = None"
  proof -
    note e = resolved_entries [OF assms(8,9), of a, unfolded assms(4) fst_conv]
    have "WriteEntries hf b entries (aw_hosts w) = (aw_hosts w', None)" using that w'(2) by (simp add: prod_eq_iff)
    from WriteEntries_outcome [OF this] obtain new where new: "hosts_file (aw_hosts w') = Some new" "writeEntries b orig entries = Inr new"
      using assms(13) by auto
    have "mset (map (\<lambda>(ip, names). host_entry b ip names) entries) = mset (map (\<lambda>(ip, names). host_entry b ip names) (map entry_for peers))"
      using e(1) by (simp only: mset_map)
    also have "map (\<lambda>(ip, names). host_entry b ip names) (map entry_for peers) =
        map (\<lambda>n. host_entry b (addr_String (meta_overlayAddr n)) [node_name n]) peers"
      by (simp add: entry_for_def)
    finally show ?thesis using writeEntries_exact [OF assms(11) e(2) assms(14)] new by auto
  qed
  moreover have either: "(r = None \<Longrightarrow> A) \<Longrightarrow> (r \<noteq> None \<Longrightarrow> B) \<Longrightarrow> (case r of None \<Rightarrow> A | Some _ \<Rightarrow> B)" for A B
    by (cases r) simp_all
  ultimately show ?thesis unfolding up prod.case using w'(1) by (intro conjI either impI; (assumption | simp))
qed

section \<open>Notifications and the end of the loop\<close>

fun is_snapshot :: "agent_event \<Rightarrow> bool" where
  "is_snapshot (Snapshot _ _) = True"
| "is_snapshot _ = False"

fun snapshot_size :: "agent_event \<Rightarrow> nat" where
  "snapshot_size (Snapshot _ peers) = length peers"
| "snapshot_size _ = 0"

lemma resolve_nodes_length: "length (snd (resolve_nodes net rb h ns)) = length ns"
  by (induction ns arbitrary: rb h) (simp_all add: case_prod_beta)

lemma apply_snapshot_count: "snd (apply_snapshot P parse a hf w peers) = length peers"
  by (simp add: apply_snapshot_def resolved_def resolve_nodes_length case_prod_beta split: prod.split)

lemma on_snapshot_notes:
  "ag_notes (on_snapshot P parse a hf g peers) =
    ag_notes g @ [if ag_ready g then Status (peers_text (length peers)) else Ready (peers_text (length peers))]"
  "ag_ready (on_snapshot P parse a hf g peers)"
  using apply_snapshot_count [of P parse a hf "ag_world g" peers] by (simp_all add: on_snapshot_def case_prod_beta)

lemma on_stop_notes: "ag_notes (fst (on_stop P E a hf sf g)) = ag_notes g @ [Stopping]"
  by (simp add: on_stop_def Let_def case_prod_beta)

text \<open>What a run of the loop tells the service manager once it is ready.\<close>

definition end_notes :: "agent_event list \<Rightarrow> notification list" where
  "end_notes evs = (case dropWhile is_snapshot evs of Stop _ _ # _ \<Rightarrow> [Stopping] | _ \<Rightarrow> [])"

lemma end_notes_simps [simp]:
  "end_notes [] = []" "end_notes (Snapshot hf ps # evs) = end_notes evs" "end_notes (ChannelClosed # evs) = []"
  "end_notes (Stop hf sf # evs) = [Stopping]"
  by (simp_all add: end_notes_def)

lemma loop_notes_ready:
  "ag_ready g \<Longrightarrow> ag_notes (fst (agent_loop P parse E a g evs)) =
    ag_notes g @ map (Status \<circ> peers_text \<circ> snapshot_size) (takeWhile is_snapshot evs) @ end_notes evs"
  by (induction P parse E a g evs rule: agent_loop.induct) (simp_all add: on_snapshot_notes on_stop_notes case_prod_beta)

lemma agent_loop_append:
  "agent_loop P parse E a g evs = (g', Running) \<Longrightarrow> agent_loop P parse E a g (evs @ evs2) = agent_loop P parse E a g' evs2"
  by (induction P parse E a g evs rule: agent_loop.induct) (auto split: prod.splits)

text \<open>
  The service manager is told that the agent is ready exactly once, when the first snapshot has
  been applied and before anything else, then about every later snapshot, and that it is stopping
  exactly when the agent is told to stop, as the last thing; nothing is reported in any other
  order, whatever the snapshots and whatever fails.
\<close>

theorem ready_reported_once:
  assumes "\<not> ag_ready g" and "ag_notes g = []"
  shows "ag_notes (fst (agent_loop P parse E a g evs)) =
    (case takeWhile is_snapshot evs of
       [] \<Rightarrow> []
     | e # es \<Rightarrow> Ready (peers_text (snapshot_size e)) # map (Status \<circ> peers_text \<circ> snapshot_size) es) @ end_notes evs"
proof (cases evs)
  case (Cons e es)
  then show ?thesis
    using assms by (cases e) (simp_all add: loop_notes_ready on_snapshot_notes on_stop_notes case_prod_beta)
qed (use assms in simp)

text \<open>
  C32. A stop always ends the agent and cleans up: whatever snapshots came before, the loop returns,
  the cluster has been left with its state saved, the interface has been deleted, an error is
  returned exactly if that failed, and whenever the hosts file could be written not one managed
  line is left in it and every other line is as it was.
\<close>

theorem stop_cleans_up:
  assumes "agent_loop P parse E a g evs = (g1, Running)" and "agent_loop P parse E a g (evs @ Stop hf sf # evs2) = (g2, r)"
    and "\<not> cli_NoEtcHosts a" and "b = hostsFor (cli_Interface a)" and "banner_ok b" and "w = ag_world g1"
    and "hosts_file (aw_hosts w) = Some orig" and "scan_lines orig = Some ls"
  shows "cl_left (ag_cluster g2) \<and> ag_cluster g2 = Leave E sf (ag_cluster g1) \<and>
    (\<exists>ok. dev_Delete P (aw_os w) (ws_iface (aw_wg w)) = (aw_os (ag_world g2), ok) \<and>
      r = Returned (if ok then None else Some (DowningInterface (RemovingInterface (ws_iface (aw_wg w)))))) \<and>
    (snd (WriteEntries hf b [] (aw_hosts w)) = None \<longrightarrow>
       (\<exists>new. hosts_file (aw_hosts (ag_world g2)) = Some new \<and> unmanaged_lines b (split_lines [] new) = unmanaged_lines b ls \<and>
          filter (managed_line b) (split_lines [] new) = []))"
proof -
  have g2: "on_stop P E a hf sf g1 = (g2, case r of Returned e \<Rightarrow> e | Running \<Rightarrow> None)" "r \<noteq> Running"
    using assms(2) agent_loop_append [OF assms(1)] by (auto split: prod.splits)
  obtain k ok where del: "dev_Delete P (aw_os w) (ws_iface (aw_wg w)) = (k, ok)" by fastforce
  have stop: "ag_cluster g2 = Leave E sf (ag_cluster g1)" "aw_os (ag_world g2) = k"
    "aw_hosts (ag_world g2) = fst (WriteEntries hf b [] (aw_hosts w))"
    "r = Returned (if ok then None else Some (DowningInterface (RemovingInterface (ws_iface (aw_wg w)))))"
    using g2 del assms(3) by (cases r; cases ok; auto simp: on_stop_def Let_def DownInterface_def assms(4,6))+
  have "cl_left (Leave E sf (ag_cluster g1))" by (simp add: Leave_def)
  moreover have "\<exists>new. hosts_file (aw_hosts (ag_world g2)) = Some new \<and> unmanaged_lines b (split_lines [] new) = unmanaged_lines b ls \<and>
      filter (managed_line b) (split_lines [] new) = []" if "snd (WriteEntries hf b [] (aw_hosts w)) = None"
  proof -
    have "WriteEntries hf b [] (aw_hosts w) = (aw_hosts (ag_world g2), None)" using that stop(3) by (simp add: prod_eq_iff)
    from WriteEntries_outcome [OF this] obtain new where
      new: "hosts_file (aw_hosts (ag_world g2)) = Some new" "writeEntries b orig [] = Inr new"
      using assms(7) by auto
    have "entries_ok []" by (simp add: entries_ok_def go_map_def)
    from writeEntries_exact [OF assms(5) this assms(8)] show ?thesis using new by auto
  qed
  ultimately show ?thesis using stop del by auto
qed

section \<open>Witnesses\<close>

definition demo_settings :: settings where
  "demo_settings = \<lparr>cli_Join = [], cli_BindAddr = Addr4 0, cli_ClusterPort = 7946, cli_WireguardPort = 51820,
     cli_OverlayNet = prefix_from (Addr4 0x0A000000) 8, cli_AllowedIPs = [], cli_Interface = ''wg0'', cli_MTU = 1420,
     cli_PersistentKeepalive = 0, cli_NoEtcHosts = False, cli_Userspace = False, cli_ControlSocket = [], cli_stateDir = []\<rparr>"

definition demo_office :: prefix where
  "demo_office = prefix_from (Addr4 0xC0A80000) 16"

definition demo_inside :: prefix where
  "demo_inside = prefix_from (Addr4 0x0A010000) 16"

definition demo_router :: "string \<Rightarrow> prefix list \<Rightarrow> node" where
  "demo_router name nets = demo_wg_node\<lparr>node_name := name, meta_allowedIPs := nets\<rparr>"

lemma demo_overlap: "\<not> overlaps demo_office (cli_OverlayNet demo_settings)" "overlaps demo_inside (cli_OverlayNet demo_settings)"
  unfolding demo_office_def demo_inside_def demo_settings_def by code_simp+

theorem networks_go_to_the_first_by_name_witness:
  "let peers = [demo_router ''b'' [demo_office], demo_router ''a'' [demo_inside, demo_office]];
       nodes = snd (resolved demo_settings peers)
   in map node_name nodes = [''a'', ''b''] \<and> (\<exists>m \<in> set nodes. node_name m = ''a'' \<and> set (meta_allowedIPs m) = {demo_office}) \<and>
      resolved demo_settings (rev peers) = resolved demo_settings peers"
proof -
  let ?peers = "[demo_router ''b'' [demo_office], demo_router ''a'' [demo_inside, demo_office]]"
  have names: "map node_name ?peers = [''b'', ''a'']" by (simp add: demo_router_def)
  then have d: "distinct (map node_name ?peers)" by simp
  note first = networks_go_to_the_first_by_name [OF d, of demo_settings, OF surjective_pairing]
  have sorted: "sort [''b'', ''a''] = [''a'', ''b'']" by code_simp
  obtain m where m: "m \<in> set (snd (resolved demo_settings ?peers))"
    "m = (demo_router ''a'' [demo_inside, demo_office])\<lparr>meta_allowedIPs := meta_allowedIPs m\<rparr>"
    "set (meta_allowedIPs m) = {p \<in> set (meta_allowedIPs (demo_router ''a'' [demo_inside, demo_office])). \<not> overlaps p (cli_OverlayNet demo_settings) \<and>
        (\<forall>n' \<in> set ?peers. node_name n' < node_name (demo_router ''a'' [demo_inside, demo_office]) \<longrightarrow> p \<notin> set (meta_allowedIPs n'))}"
    using first by (meson list.set_intros)
  have less: "\<not> ''b'' < ''a''" "\<not> ''a'' < (''a'' :: string)" by code_simp+
  have "node_name m = ''a''" using arg_cong [OF m(2), of node_name] by (simp add: demo_router_def)
  moreover have "set (meta_allowedIPs m) = {demo_office}"
    unfolding m(3) using demo_overlap less by (auto simp: demo_router_def)
  moreover have "resolved demo_settings (rev ?peers) = resolved demo_settings ?peers"
    using first [THEN conjunct2, THEN conjunct2, THEN conjunct2, rule_format, of "rev ?peers"] by simp
  moreover have "map node_name (snd (resolved demo_settings ?peers)) = [''a'', ''b'']"
    using first [THEN conjunct1] unfolding names sorted .
  ultimately show ?thesis using m(1) unfolding Let_def by blast
qed

definition demo_world :: "demo_kernel agent_world" where
  "demo_world = \<lparr>aw_wg = demo_wg_state, aw_os = ([], []), aw_hosts = \<lparr>hosts_file = Some demo_hosts, temp_files = []\<rparr>\<rparr>"

abbreviation demo_hosts_ok :: hosts_faults where
  "demo_hosts_ok \<equiv> no_hosts_faults"

lemma demo_world_hosts: "hosts_file (aw_hosts demo_world) = Some demo_hosts"
  by (simp_all add: demo_world_def)

lemma demo_iface: "\<not> cli_NoEtcHosts demo_settings" "cli_Interface demo_settings = ''wg0''"
  by (simp_all add: demo_settings_def)

lemma demo_write_ok: "entries_ok m \<Longrightarrow> snd (WriteEntries demo_hosts_ok (hostsFor ''wg0'') m (aw_hosts demo_world)) = None"
  using writeEntries_exact [OF demo_banner _ demo_scan, of m]
  by (auto simp: WriteEntries_def demo_world_hosts no_hosts_faults_def movePreservePerms_def Let_def)

theorem snapshot_installed_or_down_witness:
  "let w' = fst (apply_snapshot (linux_ops demo_netlink) (\<lambda>_. Some [9]) demo_settings demo_hosts_ok demo_world [demo_wg_node])
   in hostPrefix (Addr4 0x0A000002) \<in> destinations demo_table (aw_os w') (ws_osName (aw_wg w')) \<and>
      (\<exists>new. hosts_file (aw_hosts w') = Some new \<and>
        mset (filter (managed_line (hostsFor ''wg0'')) (split_lines [] new)) = {#host_entry (hostsFor ''wg0'') (addr_String (Addr4 0x0A000002)) [''b'']#})"
proof -
  let ?P = "linux_ops demo_netlink" and ?parse = "\<lambda>_. Some [9]"
  let ?r = "apply_snapshot ?P ?parse demo_settings demo_hosts_ok demo_world [demo_wg_node]"
  have res: "resolved demo_settings [demo_wg_node] = ([(addr_String (Addr4 0x0A000002), [''b''])], [demo_wg_node])"
    by (simp add: resolved_def demo_wg_node_def)
  have prefixes: "concat (map peerPrefixes [demo_wg_node]) = [hostPrefix (Addr4 0x0A000002)]"
    by (simp add: peerPrefixes_def demo_wg_node_def)
  have "routable (hostPrefix (Addr4 0x0A000002))" by (simp add: routable_def hostPrefix_def prefix_is_valid_def) (simp add: prefix_from_def)
  moreover have "\<not> routed_elsewhere demo_table (aw_os demo_world) os d" for os d
    by (auto simp: routed_elsewhere_def destinations_def demo_table_def demo_world_def)
  ultimately have r: "\<forall>d \<in> set (concat (map peerPrefixes [demo_wg_node])). routable d \<and>
      \<not> routed_elsewhere demo_table (aw_os demo_world) (ws_osName (aw_wg (fst ?r))) d \<and>
      d \<noteq> hostPrefix (ws_overlayAddr (aw_wg demo_world))"
    unfolding prefixes by (simp add: demo_world_def demo_wg_state_def hostPrefix_def prefix_from_def)
  have one: "distinct (map node_name [demo_wg_node])" "distinct (map (addr_String \<circ> meta_overlayAddr) [demo_wg_node])" by simp_all
  have w: "\<forall>n \<in> set [demo_wg_node]. writable n" by (simp add: writable_def demo_wg_node_def)
  have addr: "ws_overlayAddr (aw_wg demo_world) \<noteq> NoAddr \<and> True" by (simp add: demo_world_def demo_wg_state_def)
  note facts = snapshot_installed_or_down [OF demo_linux.platform_axioms demo_links.removable_axioms one(1) res r addr surjective_pairing one(2) w _ demo_banner demo_iface(1)
      demo_world_hosts demo_scan, unfolded demo_iface(2), OF refl]
  have up: "snd (snd (SetUpInterface ?P ?parse (aw_wg demo_world) (aw_os demo_world) [demo_wg_node])) = None"
    using demo_setup_ok by (simp add: demo_world_def demo_wg_state_def)
  have "hostPrefix (Addr4 0x0A000002) \<in> destinations demo_table (aw_os (fst ?r)) (ws_osName (aw_wg (fst ?r)))"
    using facts up unfolding prefixes by (auto split: prod.splits)
  moreover have "entries_ok [(addr_String (Addr4 0x0A000002), [''b''])]"
    using resolved_entries(2) [OF one(2) w, of demo_settings] unfolding res by simp
  from demo_write_ok [OF this] have "\<exists>new. hosts_file (aw_hosts (fst ?r)) = Some new \<and>
      mset (filter (managed_line (hostsFor ''wg0'')) (split_lines [] new)) =
        mset (map (\<lambda>n. host_entry (hostsFor ''wg0'') (addr_String (meta_overlayAddr n)) [node_name n]) [demo_wg_node])"
    using facts by blast
  ultimately show ?thesis unfolding Let_def by (simp add: demo_wg_node_def del: addr_String.simps)
qed

definition demo_agent :: "demo_kernel agent" where
  "demo_agent = \<lparr>ag_world = demo_world, ag_cluster = demo_cluster, ag_ready = False, ag_notes = []\<rparr>"

theorem ready_reported_once_witness:
  "ag_notes (fst (agent_loop (linux_ops demo_netlink) (\<lambda>_. None) demo_cluster_lib demo_settings demo_agent
     [Snapshot demo_hosts_ok [], Snapshot demo_hosts_ok [demo_wg_node], Stop demo_hosts_ok (demo_faults True), Snapshot demo_hosts_ok []])) =
   [Ready (peers_text 0), Status (peers_text 1), Stopping]"
  by (subst ready_reported_once) (simp_all add: demo_agent_def)

theorem stop_cleans_up_witness:
  "\<exists>g2 new. agent_loop (linux_ops demo_netlink) (\<lambda>_. None) demo_cluster_lib demo_settings demo_agent [Stop demo_hosts_ok (demo_faults True)] =
     (g2, Returned None) \<and> cl_left (ag_cluster g2) \<and> hosts_file (aw_hosts (ag_world g2)) = Some new \<and>
     filter (managed_line (hostsFor ''wg0'')) (split_lines [] new) = []"
proof -
  let ?run = "agent_loop (linux_ops demo_netlink) (\<lambda>_. None) demo_cluster_lib demo_settings demo_agent"
  let ?final = "?run [Stop demo_hosts_ok (demo_faults True)]"
  have "?run [] = (demo_agent, Running)" by simp
  note stop = stop_cleans_up [OF this surjective_pairing demo_iface(1) _ demo_banner _ demo_world_hosts demo_scan,
      of demo_hosts_ok "demo_faults True" "[]", unfolded demo_iface(2), OF refl]
  have "ag_world demo_agent = demo_world" by (simp add: demo_agent_def)
  note stop = stop [OF this [symmetric]]
  have del: "dev_Delete (linux_ops demo_netlink) (aw_os demo_world) (ws_iface (aw_wg demo_world)) = (([], []), True)"
    by (simp add: linux_ops_def kernel_Delete_def demo_netlink_def demo_link_def demo_world_def demo_wg_state_def)
  have "snd (WriteEntries demo_hosts_ok (hostsFor ''wg0'') [] (aw_hosts demo_world)) = None"
    by (rule demo_write_ok) (simp add: entries_ok_def go_map_def)
  with stop obtain new where "hosts_file (aw_hosts (ag_world (fst ?final))) = Some new"
    "filter (managed_line (hostsFor ''wg0'')) (split_lines [] new) = []"
    unfolding append_Nil by blast
  moreover have "cl_left (ag_cluster (fst ?final))" "snd ?final = Returned None"
    using stop unfolding del append_Nil by (blast, (elim conjE exE, simp only: prod.inject if_True))
  ultimately show ?thesis by (intro exI [of _ "fst ?final"] exI [of _ new]) (simp add: prod_eq_iff)
qed

end
