(* ===== verification/Control.thy ===== *)
theory Control
  imports Prelude
begin

text \<open>
  The operator's interface to a running agent, \<^verbatim>\<open>internal/control/control.go\<close>: dispatching a request
  to the agent, creating the socket, and serving and closing it. The agent's side is the record of
  operations the \<^verbatim>\<open>Handler\<close> interface has; parsing a duration and the JSON codec are parameters. The
  socket is created in a file system of sockets, directories and other files, each call of which
  may fail. Serving is a state machine: connections are accepted, answered and the server closed
  in any order.
\<close>

section \<open>Requests\<close>

definition OpInvite :: string where "OpInvite = ''invite''"

definition OpRevoke :: string where "OpRevoke = ''revoke''"

definition OpLeave :: string where "OpLeave = ''leave''"

text \<open>In seconds.\<close>

definition deadline :: "string \<Rightarrow> int" where
  "deadline op = (if op = OpLeave then 60 else 10)"

record request =
  req_Op :: string
  req_TTL :: string
  req_Uses :: int
  req_Target :: string
  req_Force :: bool

record response =
  rsp_Token :: string
  rsp_Identity :: string
  rsp_Revoked :: bool
  rsp_Notified :: nat
  rsp_Error :: string

definition no_response :: response where
  "no_response = \<lparr>rsp_Token = [], rsp_Identity = [], rsp_Revoked = False, rsp_Notified = 0, rsp_Error = []\<rparr>"

record leave_result =
  lr_Identity :: string
  lr_Revoked :: bool
  lr_Notified :: nat

text \<open>The operations of \<^verbatim>\<open>Handler\<close>; an error is its text.\<close>

record 'h handler =
  hd_Invite :: "'h \<Rightarrow> int \<Rightarrow> int \<Rightarrow> 'h \<times> (string + string)"
  hd_Revoke :: "'h \<Rightarrow> string \<Rightarrow> 'h \<times> (string + string)"
  hd_Leave :: "'h \<Rightarrow> bool \<Rightarrow> 'h \<times> (string + leave_result)"

definition control_handle :: "(string \<Rightarrow> string + int) \<Rightarrow> 'h handler \<Rightarrow> 'h \<Rightarrow> request \<Rightarrow> 'h \<times> response" where
  "control_handle parseDuration H h req =
     (if req_Op req = OpInvite then
        (case parseDuration (req_TTL req) of
           Inl e \<Rightarrow> (h, no_response\<lparr>rsp_Error := ''invalid ttl: '' @ e\<rparr>)
         | Inr ttl \<Rightarrow>
             (case hd_Invite H h ttl (req_Uses req) of
                (h', Inl e) \<Rightarrow> (h', no_response\<lparr>rsp_Error := e\<rparr>)
              | (h', Inr token) \<Rightarrow> (h', no_response\<lparr>rsp_Token := token\<rparr>)))
      else if req_Op req = OpRevoke then
        (case hd_Revoke H h (req_Target req) of
           (h', Inl e) \<Rightarrow> (h', no_response\<lparr>rsp_Error := e\<rparr>)
         | (h', Inr ident) \<Rightarrow> (h', no_response\<lparr>rsp_Identity := ident\<rparr>))
      else if req_Op req = OpLeave then
        (case hd_Leave H h (req_Force req) of
           (h', Inl e) \<Rightarrow> (h', no_response\<lparr>rsp_Error := e\<rparr>)
         | (h', Inr left) \<Rightarrow>
             (h', no_response\<lparr>rsp_Identity := lr_Identity left, rsp_Revoked := lr_Revoked left, rsp_Notified := lr_Notified left\<rparr>))
      else (h, no_response\<lparr>rsp_Error := ''unknown operation '' @ req_Op req\<rparr>))"

text \<open>One connection: what is read from it, and what is written back.\<close>

definition answer_conn ::
  "(bytes \<Rightarrow> request option) \<Rightarrow> (response \<Rightarrow> bytes) \<Rightarrow> (string \<Rightarrow> string + int) \<Rightarrow> 'h handler \<Rightarrow> 'h \<Rightarrow> bytes \<Rightarrow> 'h \<times> bytes" where
  "answer_conn dec enc parseDuration H h input =
     (case dec input of
        None \<Rightarrow> (h, enc (no_response\<lparr>rsp_Error := ''malformed request''\<rparr>))
      | Some req \<Rightarrow> (case control_handle parseDuration H h req of (h', resp) \<Rightarrow> (h', enc resp)))"

text \<open>
  \<^verbatim>\<open>Call\<close>: whether anything listens at the path, whether the request could be sent, and what came
  back are arguments.
\<close>

datatype call_error = ErrNoAgent string | SendFailed | ReadingReply | AgentError string

definition Call :: "(bytes \<Rightarrow> response option) \<Rightarrow> string \<Rightarrow> bool \<Rightarrow> bool \<Rightarrow> bytes \<Rightarrow> call_error + response" where
  "Call dec path listening sent reply =
     (if \<not> listening then Inl (ErrNoAgent path)
      else if \<not> sent then Inl SendFailed
      else
        (case dec reply of
           None \<Rightarrow> Inl ReadingReply
         | Some resp \<Rightarrow> if rsp_Error resp \<noteq> [] then Inl (AgentError (rsp_Error resp)) else Inr resp))"

section \<open>The socket\<close>

text \<open>What is at a path: a socket with its mode, a directory with its mode, or something else.\<close>

datatype inode = Socket nat | Directory nat | Other_file

type_synonym tree = "string \<Rightarrow> inode option"

text \<open>How far \<^verbatim>\<open>os.RemoveAll\<close> of the staging directory gets: not at all, the socket in it, all of it.\<close>

datatype removal = RemovedNone | RemovedSocket | RemovedAll

text \<open>
  \<open>lf_mkdir\<close> is the number of directories that can be created before one fails, \<open>lf_unlink\<close> whether closing
  the listener unlinks its socket.
\<close>

record listen_faults =
  lf_mkdir :: "nat option"
  lf_staging :: "string option"
  lf_listen :: bool
  lf_chmod :: bool
  lf_rename :: bool
  lf_unlink :: bool
  lf_removed :: removal

datatype listen_error = PathTooLong | CreatingDirectory | NotASocket | CreatingStaging | Listening | Securing | Placing

text \<open>
  \<^verbatim>\<open>os.MkdirAll\<close>: the directories that are missing are created from the top down, each with the mode the
  umask leaves; the file systems it goes through, and whether all are there.
\<close>

fun mkdir_all :: "nat \<Rightarrow> nat option \<Rightarrow> string list \<Rightarrow> tree \<Rightarrow> tree list \<times> tree \<times> bool" where
  "mkdir_all m left [] fs = ([], fs, True)"
| "mkdir_all m left (d # ds) fs =
     (case fs d of
        Some (Directory _) \<Rightarrow> mkdir_all m left ds fs
      | Some _ \<Rightarrow> ([], fs, False)
      | None \<Rightarrow>
          if left = Some 0 then ([], fs, False)
          else
            (let fs1 = fs(d \<mapsto> Directory m) in
             case mkdir_all m (map_option (\<lambda>n. n - 1) left) ds fs1 of (trace, fs', ok) \<Rightarrow> (fs1 # trace, fs', ok)))"

text \<open>\<^verbatim>\<open>os.RemoveAll\<close> of the staging directory: first the socket in it, then the directory.\<close>

definition remove_staging :: "listen_faults \<Rightarrow> string \<Rightarrow> string \<Rightarrow> tree \<Rightarrow> tree list" where
  "remove_staging f dir tmp g =
     (case lf_removed f of
        RemovedNone \<Rightarrow> [g]
      | RemovedSocket \<Rightarrow> [g, g(tmp := None)]
      | RemovedAll \<Rightarrow> [g, g(tmp := None), g(tmp := None, dir := None)])"

text \<open>Closing the listener unlinks the socket under the name it was created with.\<close>

definition close_listener :: "listen_faults \<Rightarrow> string \<Rightarrow> tree \<Rightarrow> tree" where
  "close_listener f tmp g = (if lf_unlink f then g(tmp := None) else g)"

text \<open>
  \<^verbatim>\<open>Listen\<close>: the file systems it goes through and the error. \<open>field\<close> is the size of a socket
  address's path on the platform (108 on Linux), \<open>dirmode\<close> and \<open>umask\<close> the modes a new directory and a new
  socket get, \<open>parents\<close> the directories above a path, outermost first, \<open>inside\<close> the path of the socket
  inside the staging directory, whose removal on every way out is deferred and may fail.
\<close>

definition maxSocketPath :: "nat \<Rightarrow> nat" where
  "maxSocketPath field = field - 1"

definition Listen ::
  "nat \<Rightarrow> listen_faults \<Rightarrow> nat \<Rightarrow> nat \<Rightarrow> (string \<Rightarrow> string list) \<Rightarrow> (string \<Rightarrow> string \<Rightarrow> string) \<Rightarrow> string \<Rightarrow> tree \<Rightarrow>
    tree list \<times> listen_error option" where
  "Listen field f dirmode umask parents inside path fs =
     (if maxSocketPath field < length path + 20 then ([fs], Some PathTooLong)
      else
        (case mkdir_all dirmode (lf_mkdir f) (parents path) fs of
           (made, fs0, False) \<Rightarrow> (fs # made, Some CreatingDirectory)
         | (made, fs0, True) \<Rightarrow>
             if (case fs0 path of None \<Rightarrow> False | Some (Socket _) \<Rightarrow> False | Some _ \<Rightarrow> True) then (fs # made, Some NotASocket)
             else
               (case lf_staging f of
                  None \<Rightarrow> (fs # made, Some CreatingStaging)
                | Some dir \<Rightarrow>
                    (let tmp = inside dir path; clean = remove_staging f dir tmp; close = close_listener f tmp;
                         fs1 = fs0(dir \<mapsto> Directory 448); fs2 = fs1(tmp \<mapsto> Socket umask); fs3 = fs2(tmp \<mapsto> Socket 384);
                         fs4 = fs3(path := fs3 tmp, tmp := None)
                     in
                       if \<not> lf_listen f then (fs # made @ [fs1] @ clean fs1, Some Listening)
                       else if \<not> lf_chmod f then (fs # made @ [fs1, fs2] @ clean (close fs2), Some Securing)
                       else if \<not> lf_rename f then (fs # made @ [fs1, fs2, fs3] @ clean (close fs3), Some Placing)
                       else (fs # made @ [fs1, fs2, fs3, fs4] @ clean fs4, None)))))"

section \<open>Serving\<close>

text \<open>
  The server: whether it is closed, the connections whose request is being answered (the wait
  group), those answered, those turned away, whether the agent has finished its shutdown, which a
  leave request waits for, and whether the socket has been removed.
\<close>

record ctl_server =
  cs_closed :: bool
  cs_flight :: "nat list"
  cs_answered :: "nat list"
  cs_refused :: "nat list"
  cs_agent_done :: bool
  cs_removed :: bool

definition ctl_start :: ctl_server where
  "ctl_start = \<lparr>cs_closed = False, cs_flight = [], cs_answered = [], cs_refused = [], cs_agent_done = False, cs_removed = False\<rparr>"

definition ctl_track :: "ctl_server \<Rightarrow> nat \<Rightarrow> ctl_server option" where
  "ctl_track s c = (if cs_closed s then None else Some (s\<lparr>cs_flight := c # cs_flight s\<rparr>))"

definition ctl_accept :: "ctl_server \<Rightarrow> nat \<Rightarrow> ctl_server" where
  "ctl_accept s c = (case ctl_track s c of None \<Rightarrow> s\<lparr>cs_refused := c # cs_refused s\<rparr> | Some s' \<Rightarrow> s')"

text \<open>
  The end of a connection's goroutine: the response has been written, or writing it failed or ran into
  the deadline, which the code ignores.
\<close>

definition ctl_answered :: "ctl_server \<Rightarrow> nat \<Rightarrow> ctl_server" where
  "ctl_answered s c = s\<lparr>cs_flight := remove1 c (cs_flight s), cs_answered := c # cs_answered s\<rparr>"

text \<open>\<^verbatim>\<open>Close\<close> up to the wait, and after it.\<close>

definition ctl_Close_begin :: "ctl_server \<Rightarrow> ctl_server" where
  "ctl_Close_begin s = s\<lparr>cs_closed := True\<rparr>"

definition ctl_Close_end :: "ctl_server \<Rightarrow> ctl_server" where
  "ctl_Close_end s = s\<lparr>cs_removed := True\<rparr>"

text \<open>\<open>leaves\<close> tells which connections ask for a leave: those are answered once the agent is done.\<close>

inductive ctl_step :: "(nat \<Rightarrow> bool) \<Rightarrow> ctl_server \<Rightarrow> ctl_server \<Rightarrow> bool" for leaves where
  accept: "c \<notin> set (cs_flight s) \<union> set (cs_answered s) \<union> set (cs_refused s) \<Longrightarrow> ctl_step leaves s (ctl_accept s c)"
| answer: "c \<in> set (cs_flight s) \<Longrightarrow> leaves c \<longrightarrow> cs_agent_done s \<Longrightarrow> ctl_step leaves s (ctl_answered s c)"
| agent_done: "ctl_step leaves s (s\<lparr>cs_agent_done := True\<rparr>)"
| close_begin: "ctl_step leaves s (ctl_Close_begin s)"
| close_end: "cs_closed s \<Longrightarrow> cs_flight s = [] \<Longrightarrow> ctl_step leaves s (ctl_Close_end s)"

inductive ctl_run :: "(nat \<Rightarrow> bool) \<Rightarrow> ctl_server \<Rightarrow> ctl_server \<Rightarrow> bool" for leaves where
  stay: "ctl_run leaves s s"
| more_steps: "ctl_run leaves s t \<Longrightarrow> ctl_step leaves t u \<Longrightarrow> ctl_run leaves s u"

inductive_cases ctl_stepE: "ctl_step leaves s t"

lemmas ctl_defs = ctl_accept_def ctl_track_def ctl_answered_def ctl_Close_begin_def ctl_Close_end_def

definition ctl_inv :: "ctl_server \<Rightarrow> bool" where
  "ctl_inv s \<longleftrightarrow> distinct (cs_flight s @ cs_answered s @ cs_refused s) \<and> (cs_refused s \<noteq> [] \<or> cs_removed s \<longrightarrow> cs_closed s) \<and>
     (cs_removed s \<longrightarrow> cs_flight s = [])"

lemma ctl_inv_step:
  assumes "ctl_step leaves s t" and "ctl_inv s"
  shows "ctl_inv t"
  using assms by (cases rule: ctl_step.cases) (auto simp: ctl_defs ctl_inv_def)

lemma ctl_inv_run: "ctl_run leaves s t \<Longrightarrow> ctl_inv s \<Longrightarrow> ctl_inv t"
  by (induction rule: ctl_run.induct) (auto intro: ctl_inv_step)

lemma ctl_run_trans: "ctl_run leaves t u \<Longrightarrow> ctl_run leaves s t \<Longrightarrow> ctl_run leaves s u"
  by (induction rule: ctl_run.induct) (auto intro: ctl_run.intros)

text \<open>Once the server is closing, requests are only answered.\<close>

lemma ctl_closing_step:
  assumes "ctl_step leaves s t" and "cs_closed s"
  shows "cs_closed t \<and> set (cs_flight t) \<subseteq> set (cs_flight s) \<and> set (cs_answered s) \<subseteq> set (cs_answered t) \<and>
    set (cs_flight s) \<union> set (cs_answered s) = set (cs_flight t) \<union> set (cs_answered t)"
  using assms
  by (cases rule: ctl_step.cases) (auto simp: ctl_defs dest: notin_set_remove1 set_remove1_subset [THEN subsetD] split: if_splits)

lemma ctl_closing_run:
  "ctl_run leaves s t \<Longrightarrow> cs_closed s \<Longrightarrow> cs_closed t \<and> set (cs_flight t) \<subseteq> set (cs_flight s) \<and>
    set (cs_flight s) \<union> set (cs_answered s) = set (cs_flight t) \<union> set (cs_answered t)"
proof (induction rule: ctl_run.induct)
  case (more_steps s t u)
  then show ?case using ctl_closing_step [of leaves t u] by blast
qed simp

lemma ctl_drain:
  "cs_closed s \<Longrightarrow> cs_agent_done s \<Longrightarrow> \<exists>t. ctl_run leaves s t \<and> cs_flight t = []"
proof (induction "cs_flight s" arbitrary: s)
  case Nil
  then show ?case by (metis ctl_run.stay)
next
  case (Cons c cs)
  let ?t = "ctl_answered s c"
  have "ctl_step leaves s ?t" using Cons.hyps(2) Cons.prems(2) by (intro ctl_step.answer) (auto simp flip: Cons.hyps(2))
  then have "ctl_run leaves s ?t" by (rule ctl_run.more_steps [OF ctl_run.stay])
  moreover have "cs = cs_flight ?t" "cs_closed ?t" "cs_agent_done ?t"
    using Cons.hyps(2) [symmetric] Cons.prems by (simp_all add: ctl_answered_def)
  ultimately show ?case using Cons.hyps(1) [of ?t] ctl_run_trans by blast
qed

section \<open>Properties\<close>

text \<open>
  C37. Closing the control socket loses no answer and never hangs: from every state in which the
  server is closing and the agent has finished its shutdown, no new request is taken, the socket
  is removed only when every request that was taken has been answered, each exactly once, and that
  point can be reached, leave requests, which wait for the shutdown itself, included.
\<close>

theorem close_answers_everyone:
  assumes "ctl_run leaves ctl_start s" and "cs_closed s" and "cs_agent_done s"
  shows "(\<exists>t. ctl_run leaves s t \<and> cs_removed t) \<and>
    (\<forall>t. ctl_run leaves s t \<longrightarrow> set (cs_flight t) \<subseteq> set (cs_flight s) \<and> distinct (cs_answered t) \<and>
      (cs_removed t \<longrightarrow> set (cs_answered t) = set (cs_flight s) \<union> set (cs_answered s)))"
proof -
  have inv: "ctl_inv s" using ctl_inv_run [OF assms(1)] by (simp add: ctl_inv_def ctl_start_def)
  obtain t where t: "ctl_run leaves s t" "cs_flight t = []" using ctl_drain [OF assms(2,3)] by blast
  have "cs_closed t" using ctl_closing_run [OF t(1) assms(2)] by blast
  then have "ctl_run leaves s (ctl_Close_end t)" using t by (blast intro: ctl_run.more_steps ctl_step.close_end)
  moreover have "cs_removed (ctl_Close_end t)" by (simp add: ctl_Close_end_def)
  moreover have "set (cs_flight t) \<subseteq> set (cs_flight s) \<and> distinct (cs_answered t) \<and>
      (cs_removed t \<longrightarrow> set (cs_answered t) = set (cs_flight s) \<union> set (cs_answered s))" if "ctl_run leaves s t" for t
    using ctl_closing_run [OF that assms(2)] ctl_inv_run [OF that inv] by (auto simp: ctl_inv_def)
  ultimately show ?thesis by blast
qed

text \<open>What creating directories changes: some of those that were missing are there.\<close>

definition with_directories :: "nat \<Rightarrow> string list \<Rightarrow> tree \<Rightarrow> tree \<Rightarrow> bool" where
  "with_directories m ds fs g \<longleftrightarrow> (\<forall>p. g p = fs p \<or> p \<in> set ds \<and> fs p = None \<and> g p = Some (Directory m))"

lemma mkdir_all_made:
  "mkdir_all m left ds fs = (trace, fs', ok) \<Longrightarrow> last (fs # trace) = fs' \<and> (\<forall>g \<in> set (fs # trace). with_directories m ds fs g)"
proof (induction m left ds fs arbitrary: trace rule: mkdir_all.induct)
  case (2 m left d ds fs)
  show ?case
  proof (cases "fs d")
    case None
    show ?thesis
    proof (cases "left = Some 0")
      case False
      let ?fs1 = "fs(d \<mapsto> Directory m)"
      obtain t where t: "trace = ?fs1 # t" "mkdir_all m (map_option (\<lambda>n. n - 1) left) ds ?fs1 = (t, fs', ok)"
        using 2(3) None False by (auto simp: Let_def split: prod.splits)
      from 2(1) [OF None False refl t(2)]
      have IH: "last (?fs1 # t) = fs'" "\<forall>g \<in> set (?fs1 # t). with_directories m ds ?fs1 g" by blast+
      have "with_directories m (d # ds) fs g" if "with_directories m ds ?fs1 g" for g
        unfolding with_directories_def
      proof
        fix p
        show "g p = fs p \<or> p \<in> set (d # ds) \<and> fs p = None \<and> g p = Some (Directory m)"
          using that [unfolded with_directories_def, rule_format, of p] None by (cases "p = d") auto
      qed
      then have "\<forall>g \<in> set (?fs1 # t). with_directories m (d # ds) fs g" using IH(2) by blast
      moreover have "with_directories m (d # ds) fs fs" by (simp add: with_directories_def)
      ultimately show ?thesis using IH(1) t(1) by auto
    qed (use 2(3) None in \<open>auto simp: with_directories_def\<close>)
  next
    case (Some i)
    show ?thesis
    proof (cases i)
      case (Directory m')
      have "last (fs # trace) = fs' \<and> (\<forall>g \<in> set (fs # trace). with_directories m ds fs g)"
        using 2(2) [OF Some Directory] 2(3) Some Directory by simp
      then show ?thesis by (fastforce simp: with_directories_def)
    qed (use 2(3) Some in \<open>auto simp: with_directories_def\<close>)
  qed
qed (simp add: with_directories_def)

text \<open>
  A tree on the way: directories have been made, and of what is in the staging directory and at the
  path only what a step of \<open>Listen\<close> put there.
\<close>

definition on_the_way :: "nat \<Rightarrow> string list \<Rightarrow> string \<Rightarrow> string \<Rightarrow> string \<Rightarrow> tree \<Rightarrow> tree \<Rightarrow> bool" where
  "on_the_way m ds dir tmp path fs g \<longleftrightarrow>
     (g path = fs path \<or> g path = Some (Socket 384)) \<and>
     (g dir = None \<and> g tmp = None \<or> g dir = Some (Directory 448) \<and> (g tmp = None \<or> (\<exists>u. g tmp = Some (Socket u)))) \<and>
     (\<forall>p. p \<notin> {dir, tmp, path} \<longrightarrow> g p = fs p \<or> p \<in> set ds \<and> fs p = None \<and> g p = Some (Directory m))"

lemma with_directories_way:
  assumes "with_directories m ds fs g" and "fs dir = None" and "fs tmp = None" and "{dir, tmp, path} \<inter> set ds = {}"
  shows "on_the_way m ds dir tmp path fs g" and "g dir = None" and "g tmp = None" and "g path = fs path"
proof -
  have at: "g p = fs p \<or> p \<in> set ds \<and> fs p = None \<and> g p = Some (Directory m)" for p
    using assms(1) by (simp add: with_directories_def)
  show same: "g dir = None" "g tmp = None" "g path = fs path" using at [of dir] at [of tmp] at [of path] assms(2-4) by auto
  then show "on_the_way m ds dir tmp path fs g" using at by (simp add: on_the_way_def)
qed

lemma remove_staging_way:
  assumes "on_the_way m ds dir tmp path fs g" and "distinct [dir, tmp, path]" and "h \<in> set (remove_staging f dir tmp g)"
  shows "on_the_way m ds dir tmp path fs h"
  using assms by (auto simp: on_the_way_def remove_staging_def split: removal.splits)

lemma remove_staging_last:
  assumes "distinct [dir, tmp, path]"
  shows "last (xs @ remove_staging f dir tmp g) path = g path \<and>
    (lf_removed f = RemovedAll \<longrightarrow> last (xs @ remove_staging f dir tmp g) dir = None \<and> last (xs @ remove_staging f dir tmp g) tmp = None)"
  using assms by (auto simp: remove_staging_def split: removal.splits)

text \<open>What a tree promises: nothing that was there is touched but the path, and no socket is exposed.\<close>

definition unexposed :: "listen_faults \<Rightarrow> (string \<Rightarrow> string \<Rightarrow> string) \<Rightarrow> string \<Rightarrow> tree \<Rightarrow> tree \<Rightarrow> bool" where
  "unexposed f inside path fs g \<longleftrightarrow>
     (g path = fs path \<or> g path = Some (Socket 384)) \<and> (\<forall>p. fs p \<noteq> None \<and> p \<noteq> path \<longrightarrow> g p = fs p) \<and>
     (\<forall>dir u. lf_staging f = Some dir \<longrightarrow> g (inside dir path) = Some (Socket u) \<longrightarrow> g dir = Some (Directory 448))"

definition leaves_only :: "listen_faults \<Rightarrow> nat \<Rightarrow> string list \<Rightarrow> (string \<Rightarrow> string \<Rightarrow> string) \<Rightarrow> string \<Rightarrow> tree \<Rightarrow> tree \<Rightarrow> bool" where
  "leaves_only f m ds inside path fs g \<longleftrightarrow>
     (\<forall>p. p \<noteq> path \<longrightarrow> g p = fs p \<or> p \<in> set ds \<and> g p = Some (Directory m) \<or>
        lf_removed f \<noteq> RemovedAll \<and> (\<exists>dir. lf_staging f = Some dir \<and> p \<in> {dir, inside dir path}))"

lemma directories_promise:
  assumes "with_directories m ds fs g" and "path \<notin> set ds"
    and "\<forall>dir. lf_staging f = Some dir \<longrightarrow> fs (inside dir path) = None"
  shows "unexposed f inside path fs g" and "leaves_only f m ds inside path fs g" and "g path = fs path"
proof -
  have at: "g p = fs p \<or> p \<in> set ds \<and> fs p = None \<and> g p = Some (Directory m)" for p
    using assms(1) by (simp add: with_directories_def)
  show "g path = fs path" using at [of path] assms(2) by auto
  moreover have "g p = fs p" if "fs p \<noteq> None" for p using at [of p] that by auto
  moreover have "g (inside dir path) \<noteq> Some (Socket u)" if "lf_staging f = Some dir" for dir u
    using at [of "inside dir path"] assms(3) that by auto
  ultimately show "unexposed f inside path fs g" by (simp add: unexposed_def)
  show "leaves_only f m ds inside path fs g" using at by (auto simp: leaves_only_def)
qed

lemma way_promise:
  assumes "on_the_way m ds dir (inside dir path) path fs g" and "lf_staging f = Some dir" and "fs dir = None" and "fs (inside dir path) = None"
  shows "unexposed f inside path fs g"
    and "lf_removed f = RemovedAll \<longrightarrow> g dir = None \<and> g (inside dir path) = None \<Longrightarrow> leaves_only f m ds inside path fs g"
proof -
  have at: "g p = fs p \<or> p \<in> set ds \<and> fs p = None \<and> g p = Some (Directory m)" if "p \<notin> {dir, inside dir path, path}" for p
    using assms(1) that by (simp add: on_the_way_def)
  have "g p = fs p" if "fs p \<noteq> None" "p \<noteq> path" for p
    using at [of p] that assms(3,4) by (cases "p \<in> {dir, inside dir path}") auto
  then show "unexposed f inside path fs g" using assms(1,2) by (auto simp: unexposed_def on_the_way_def)
  show "leaves_only f m ds inside path fs g" if "lf_removed f = RemovedAll \<longrightarrow> g dir = None \<and> g (inside dir path) = None"
    unfolding leaves_only_def
  proof (intro allI impI)
    fix p
    assume "p \<noteq> path"
    then show "g p = fs p \<or> p \<in> set ds \<and> g p = Some (Directory m) \<or>
        lf_removed f \<noteq> RemovedAll \<and> (\<exists>dir. lf_staging f = Some dir \<and> p \<in> {dir, inside dir path})"
      using at [of p] that assms(2-4) by (cases "p \<in> {dir, inside dir path}") auto
  qed
qed

text \<open>The part with the staging directory: the trees it goes through, the last one before the removal, and the error.\<close>

lemma staged_way:
  assumes "on_the_way m ds dir tmp path fs fs0" and "fs0 dir = None" and "fs0 tmp = None" and "distinct [dir, tmp, path]" and "fs0 path = fs path"
    and "fs1 = fs0(dir \<mapsto> Directory 448)" and "fs2 = fs1(tmp \<mapsto> Socket umask)" and "fs3 = fs2(tmp \<mapsto> Socket 384)"
    and "fs4 = fs3(path := fs3 tmp, tmp := None)"
  shows "\<forall>g \<in> {fs1, fs2, fs3, fs4, close_listener f tmp fs2, close_listener f tmp fs3}. on_the_way m ds dir tmp path fs g"
    and "fs1 path = fs path" and "close_listener f tmp fs2 path = fs path" and "close_listener f tmp fs3 path = fs path"
    and "fs4 path = Some (Socket 384)"
  using assms(1-5) unfolding assms(6-9) by (auto simp: on_the_way_def close_listener_def)

text \<open>
  C38. Where the file system enforces modes, which on Windows it does not, the control socket is
  reachable by nobody but its owner while it is created: at every moment the path holds what was
  there before or a socket with mode 0600, and the socket that does not have its mode yet lies in
  a directory with mode 0700. Nothing else that was there is touched, what is at the path and is not
  a socket is never replaced, and a failure leaves the path as it was. What may stay behind is the
  directories on the way to the path, and, where its removal fails, the staging directory.
\<close>

theorem socket_never_exposed:
  assumes "Listen field f m umask parents inside path fs = (trace, err)" and "path \<notin> set (parents path)"
    and "\<forall>dir. lf_staging f = Some dir \<longrightarrow> distinct [dir, inside dir path, path] \<and> {dir, inside dir path} \<inter> set (parents path) = {} \<and>
      fs dir = None \<and> fs (inside dir path) = None"
  shows "(\<forall>g \<in> set trace. (g path = fs path \<or> g path = Some (Socket 384)) \<and> (\<forall>p. fs p \<noteq> None \<and> p \<noteq> path \<longrightarrow> g p = fs p) \<and>
      (\<forall>dir u. lf_staging f = Some dir \<longrightarrow> g (inside dir path) = Some (Socket u) \<longrightarrow> g dir = Some (Directory 448))) \<and>
    last trace path = (if err = None then Some (Socket 384) else fs path) \<and>
    (\<forall>p. p \<noteq> path \<longrightarrow> last trace p = fs p \<or> p \<in> set (parents path) \<and> last trace p = Some (Directory m) \<or>
      lf_removed f \<noteq> RemovedAll \<and> (\<exists>dir. lf_staging f = Some dir \<and> p \<in> {dir, inside dir path})) \<and>
    (err = None \<longrightarrow> length path + 20 \<le> maxSocketPath field \<and> (fs path = None \<or> (\<exists>u. fs path = Some (Socket u))))"
proof -
  note promise = unexposed_def [symmetric] leaves_only_def [symmetric]
  obtain made fs0 ok where mk: "mkdir_all m (lf_mkdir f) (parents path) fs = (made, fs0, ok)"
    by (cases "mkdir_all m (lf_mkdir f) (parents path) fs")
  have made: "last (fs # made) = fs0" "\<And>g. g \<in> set (fs # made) \<Longrightarrow> with_directories m (parents path) fs g"
    using mkdir_all_made [OF mk] by blast+
  have tmp: "\<forall>dir. lf_staging f = Some dir \<longrightarrow> fs (inside dir path) = None" using assms(3) by blast
  have early: ?thesis if "trace = fs # xs" "set xs \<subseteq> set made" "last trace \<in> set (fs # made)" "err \<noteq> None" for xs
  proof -
    have all: "with_directories m (parents path) fs g" if "g \<in> set trace" for g
      using that \<open>trace = fs # xs\<close> \<open>set xs \<subseteq> set made\<close> made(2) by auto
    note here = directories_promise [where f = f and fs = fs and inside = inside, OF _ assms(2) tmp]
    have "\<forall>g \<in> set trace. unexposed f inside path fs g" using here(1) [OF all] by blast
    moreover have "leaves_only f m (parents path) inside path fs (last trace)" "last trace path = fs path"
      using here(2,3) [OF made(2) [OF that(3)]] by blast+
    ultimately show ?thesis unfolding promise using that(4) by (cases err) simp_all
  qed
  have fs0: "fs0 \<in> set (fs # made)" using made(1) last_in_set [of "fs # made"] by auto
  show ?thesis
  proof (cases "maxSocketPath field < length path + 20 \<or> \<not> ok \<or> (case fs0 path of None \<Rightarrow> False | Some (Socket _) \<Rightarrow> False | Some _ \<Rightarrow> True) \<or>
      lf_staging f = None")
    case True
    then have "trace = [fs] \<and> err \<noteq> None \<or> trace = fs # made \<and> err \<noteq> None"
      using assms(1) mk by (auto simp: Listen_def split: if_splits bool.splits)
    then show ?thesis
    proof (elim disjE conjE)
      assume "trace = [fs]" "err \<noteq> None"
      then show ?thesis by (intro early [of "[]"]) simp_all
    next
      assume "trace = fs # made" "err \<noteq> None"
      then show ?thesis using fs0 made(1) by (intro early [of made]) simp_all
    qed
  next
    case False
    then obtain dir where dir: "lf_staging f = Some dir" by auto
    let ?tmp = "inside dir path"
    define fs1 where "fs1 = fs0(dir \<mapsto> Directory 448)"
    define fs2 where "fs2 = fs1(?tmp \<mapsto> Socket umask)"
    define fs3 where "fs3 = fs2(?tmp \<mapsto> Socket 384)"
    define fs4 where "fs4 = fs3(path := fs3 ?tmp, ?tmp := None)"
    have d: "distinct [dir, ?tmp, path]" "fs dir = None" "fs ?tmp = None" "{dir, ?tmp, path} \<inter> set (parents path) = {}"
      using assms(2,3) dir by auto
    note way0 = with_directories_way [OF made(2) d(2-4)]
    note way = staged_way [OF way0(1-3) [OF fs0] d(1) way0(4) [OF fs0] fs1_def fs2_def fs3_def fs4_def]
    obtain xs g where run: "trace = fs # made @ xs @ remove_staging f dir ?tmp g" "set xs \<subseteq> {fs1, fs2, fs3, fs4}"
        "g \<in> {fs1, fs4, close_listener f ?tmp fs2, close_listener f ?tmp fs3}" "g path = (if err = None then Some (Socket 384) else fs path)"
    proof -
      let ?rm = "remove_staging f dir ?tmp" and ?close = "close_listener f ?tmp"
      have "Listen field f m umask parents inside path fs = (if \<not> lf_listen f then (fs # made @ [fs1] @ ?rm fs1, Some Listening)
          else if \<not> lf_chmod f then (fs # made @ [fs1, fs2] @ ?rm (?close fs2), Some Securing)
          else if \<not> lf_rename f then (fs # made @ [fs1, fs2, fs3] @ ?rm (?close fs3), Some Placing)
          else (fs # made @ [fs1, fs2, fs3, fs4] @ ?rm fs4, None))"
        using mk False dir by (simp add: Listen_def Let_def fs1_def fs2_def fs3_def fs4_def)
      then consider "trace = fs # made @ [fs1] @ ?rm fs1" "err = Some Listening" | "trace = fs # made @ [fs1, fs2] @ ?rm (?close fs2)" "err = Some Securing"
        | "trace = fs # made @ [fs1, fs2, fs3] @ ?rm (?close fs3)" "err = Some Placing" | "trace = fs # made @ [fs1, fs2, fs3, fs4] @ ?rm fs4" "err = None"
        unfolding assms(1) by (cases "lf_listen f"; cases "lf_chmod f"; cases "lf_rename f") simp_all
      then show thesis
      proof cases
        case 1 then show thesis using way(2) by (intro that [of "[fs1]" fs1]) simp_all
      next
        case 2 then show thesis using way(3) by (intro that [of "[fs1, fs2]" "?close fs2"]) simp_all
      next
        case 3 then show thesis using way(4) by (intro that [of "[fs1, fs2, fs3]" "?close fs3"]) simp_all
      next
        case 4 then show thesis using way(5) by (intro that [of "[fs1, fs2, fs3, fs4]" fs4]) simp_all
      qed
    qed
    have ways: "on_the_way m (parents path) dir ?tmp path fs h" if "h \<in> set trace" for h
    proof -
      have g: "on_the_way m (parents path) dir ?tmp path fs g" using run(3) way(1) [of f] by auto
      from that run(1) consider "h \<in> set (fs # made)" | "h \<in> set xs" | "h \<in> set (remove_staging f dir ?tmp g)" by auto
      then show ?thesis
      proof cases
        case 2 then show ?thesis using run(2) way(1) [of f] by auto
      qed (use way0(1) remove_staging_way [OF g d(1)] in blast)+
    qed
    note last = remove_staging_last [OF d(1), of "fs # made @ xs" f g]
    have trace: "trace = (fs # made @ xs) @ remove_staging f dir ?tmp g" "trace \<noteq> []" using run(1) by simp_all
    have "leaves_only f m (parents path) inside path fs (last trace)"
      using way_promise(2) [where inside = inside and path = path, OF ways [OF last_in_set [OF trace(2)]] dir d(2,3)] last
      unfolding trace(1) by blast
    moreover have "last trace path = (if err = None then Some (Socket 384) else fs path)" using last trace(1) run(4) by metis
    moreover have "\<forall>h \<in> set trace. unexposed f inside path fs h" using way_promise(1) [where inside = inside and path = path, OF ways dir d(2,3)] by blast
    moreover have "length path + 20 \<le> maxSocketPath field" "fs path = None \<or> (\<exists>u. fs path = Some (Socket u))"
      using False way0(4) [OF fs0] by (auto split: option.splits inode.splits)
    ultimately show ?thesis unfolding promise by blast
  qed
qed

section \<open>Witnesses\<close>

theorem close_answers_everyone_witness:
  "\<exists>t. ctl_run (\<lambda>c. c = 7) (ctl_start\<lparr>cs_flight := [7], cs_closed := True, cs_agent_done := True\<rparr>) t \<and> cs_removed t \<and> set (cs_answered t) = {7}"
proof -
  let ?s = "ctl_start\<lparr>cs_flight := [7], cs_closed := True, cs_agent_done := True\<rparr>"
  let ?leaves = "\<lambda>c :: nat. c = 7"
  have "ctl_run ?leaves ctl_start (ctl_accept ctl_start 7)"
    by (intro ctl_run.more_steps [OF ctl_run.stay] ctl_step.accept) (simp add: ctl_start_def)
  then have "ctl_run ?leaves ctl_start ((ctl_Close_begin (ctl_accept ctl_start 7))\<lparr>cs_agent_done := True\<rparr>)"
    by (intro ctl_run.more_steps [OF _ ctl_step.agent_done] ctl_run.more_steps [OF _ ctl_step.close_begin])
  moreover have "(ctl_Close_begin (ctl_accept ctl_start 7))\<lparr>cs_agent_done := True\<rparr> = ?s" by (simp add: ctl_defs ctl_start_def)
  ultimately have run: "ctl_run ?leaves ctl_start ?s" by (simp only:)
  have flags: "cs_closed ?s" "cs_agent_done ?s" "set (cs_flight ?s) \<union> set (cs_answered ?s) = {7}" by (simp_all add: ctl_start_def)
  from close_answers_everyone [OF run flags(1,2)] show ?thesis unfolding flags(3) by blast
qed

theorem socket_never_exposed_witness:
  "let f = \<lparr>lf_mkdir = None, lf_staging = Some ''/run/c/s'', lf_listen = True, lf_chmod = True, lf_rename = False, lf_unlink = True,
         lf_removed = RemovedAll\<rparr>;
       fs = [''/run'' \<mapsto> Directory 493, ''/run/b'' \<mapsto> Other_file];
       g = last (fst (Listen 108 f 493 511 (\<lambda>_. [''/run'', ''/run/c'']) (\<lambda>dir path. dir @ ''/w'') ''/run/c/w.sock'' fs))
   in g ''/run/c/w.sock'' = None \<and> g ''/run/b'' = Some Other_file \<and> g ''/run/c'' \<in> {None, Some (Directory 493)}"
proof -
  let ?f = "\<lparr>lf_mkdir = None, lf_staging = Some ''/run/c/s'', lf_listen = True, lf_chmod = True, lf_rename = False, lf_unlink = True,
      lf_removed = RemovedAll\<rparr>"
  let ?fs = "[''/run'' \<mapsto> Directory 493, ''/run/b'' \<mapsto> Other_file]"
  let ?r = "Listen 108 ?f 493 511 (\<lambda>_. [''/run'', ''/run/c'']) (\<lambda>dir path. dir @ ''/w'') ''/run/c/w.sock'' ?fs"
  have "snd ?r = Some Placing" by (simp add: Listen_def maxSocketPath_def Let_def)
  moreover note socket_never_exposed [of 108 ?f 493 511 "\<lambda>_. [''/run'', ''/run/c'']" "\<lambda>dir path. dir @ ''/w''" "''/run/c/w.sock''" ?fs,
      OF surjective_pairing]
  ultimately have "last (fst ?r) ''/run/c/w.sock'' = None \<and>
      (\<forall>p. p \<noteq> ''/run/c/w.sock'' \<longrightarrow> last (fst ?r) p = ?fs p \<or> p \<in> {''/run'', ''/run/c''} \<and> last (fst ?r) p = Some (Directory 493))"
    by simp
  then show ?thesis unfolding Let_def by (auto dest: spec [of _ "''/run/b''"] spec [of _ "''/run/c''"])
qed

end
