(* ===== verification/Control_Agent.thy ===== *)
theory Control_Agent
  imports Control Cluster_Members Etc_Hosts Link_Linux
begin

text \<open>
  What the operator's requests do to a running agent, \<^verbatim>\<open>internal/cli/control.go\<close>, and the leave
  command, \<^verbatim>\<open>internal/cli/leave.go\<close>, with \<^verbatim>\<open>forget\<close> of \<^verbatim>\<open>internal/cli/agent.go\<close>. The agent is its
  cluster and the request to leave it hands to the shutdown; a leave waits for that shutdown, whose
  outcome is an argument. Messages to the operator are values.
\<close>

section \<open>The agent's operations\<close>

definition socketFor :: "(string \<Rightarrow> string) \<Rightarrow> string \<Rightarrow> string \<Rightarrow> string" where
  "socketFor DefaultSocket iface explicit = (if explicit \<noteq> '''' then explicit else DefaultSocket iface)"

record agent_ctl =
  ac_cluster :: cluster
  ac_requested :: bool
  ac_stopped :: bool

datatype ctl_error =
    NoMemberNamed string | RefusingSelf | ClusterFailed cluster_error | TokenFailed token_error | ForgetFailed state_error

text \<open>What the operations use besides the agent: libraries, clocks, memberlist's members, and the outcome of the shutdown.\<close>

record ctl_env =
  ce_lib :: cluster_lib
  ce_save :: save_faults
  ce_now :: int64
  ce_clock :: int
  ce_sha :: "bytes \<Rightarrow> bytes"
  ce_rand :: "nat \<Rightarrow> bytes option"
  ce_members :: "string list"
  ce_send :: "string \<Rightarrow> bool"
  ce_forget :: "state_error option"
  ce_render :: "ctl_error \<Rightarrow> string"

definition agent_Invite :: "ctl_env \<Rightarrow> agent_ctl \<Rightarrow> int \<Rightarrow> int \<Rightarrow> agent_ctl \<times> (ctl_error + string)" where
  "agent_Invite V a ttl uses =
     (case Invite (ce_sha V) (ce_rand V) (ce_clock V) (ac_cluster a) ttl uses of
        (c, Inl e) \<Rightarrow> (a\<lparr>ac_cluster := c\<rparr>, Inl (TokenFailed e))
      | (c, Inr token) \<Rightarrow> (a\<lparr>ac_cluster := c\<rparr>, Inr token))"

definition agent_Leave :: "ctl_env \<Rightarrow> agent_ctl \<Rightarrow> bool \<Rightarrow> agent_ctl \<times> (ctl_error + leave_result)" where
  "agent_Leave V a force =
     (let left = \<lparr>lr_Identity = key_String (cluster_Identity (ce_lib V) (ac_cluster a)), lr_Revoked = False, lr_Notified = 0\<rparr>;
          shutdown = (\<lambda>a left. (a\<lparr>ac_requested := True, ac_stopped := True\<rparr>,
             case ce_forget V of None \<Rightarrow> Inr left | Some e \<Rightarrow> Inl (ForgetFailed e)))
      in
        case RevokeSelf (ce_lib V) (ce_save V) (ce_now V) (ce_members V) (ce_send V) (ac_cluster a) of
          (c, Inl e) \<Rightarrow> if \<not> force then (a\<lparr>ac_cluster := c\<rparr>, Inl (ClusterFailed e)) else shutdown (a\<lparr>ac_cluster := c\<rparr>) left
        | (c, Inr notified) \<Rightarrow> shutdown (a\<lparr>ac_cluster := c\<rparr>) (left\<lparr>lr_Revoked := True, lr_Notified := notified\<rparr>))"

text \<open>The identity a target names: its text, or the only member of that name.\<close>

definition revoke_target :: "cluster \<Rightarrow> string \<Rightarrow> public_key option" where
  "revoke_target c target =
     (case ParsePublicKey target of
        (k, None) \<Rightarrow> Some k
      | (_, Some _) \<Rightarrow> map_option adm_Identity (ByName (cl_set c) target))"

definition agent_Revoke :: "ctl_env \<Rightarrow> agent_ctl \<Rightarrow> string \<Rightarrow> agent_ctl \<times> (ctl_error + string)" where
  "agent_Revoke V a target =
     (case revoke_target (ac_cluster a) target of
        None \<Rightarrow> (a, Inl (NoMemberNamed target))
      | Some ident \<Rightarrow>
          if ident = cluster_Identity (ce_lib V) (ac_cluster a) then (a, Inl RefusingSelf)
          else
            (case cluster_Revoke (ce_lib V) (ce_save V) (ce_now V) (ac_cluster a) ident of
               (c, Some e) \<Rightarrow> (a\<lparr>ac_cluster := c\<rparr>, Inl (ClusterFailed e))
             | (c, None) \<Rightarrow> (a\<lparr>ac_cluster := c\<rparr>, Inr (key_String ident))))"

definition agent_handler :: "ctl_env \<Rightarrow> agent_ctl handler" where
  "agent_handler V =
     (let say = (\<lambda>(a, r). (a, case r of Inl e \<Rightarrow> Inl (ce_render V e) | Inr x \<Rightarrow> Inr x)) in
      \<lparr>hd_Invite = (\<lambda>a ttl uses. say (agent_Invite V a ttl uses)), hd_Revoke = (\<lambda>a target. say (agent_Revoke V a target)),
       hd_Leave = (\<lambda>a force. case agent_Leave V a force of (a', Inl e) \<Rightarrow> (a', Inl (ce_render V e)) | (a', Inr l) \<Rightarrow> (a', Inr l))\<rparr>)"

text \<open>\<^verbatim>\<open>forget\<close>: the state goes once a leave has been asked for.\<close>

definition agent_forget :: "bool \<Rightarrow> agent_ctl \<Rightarrow> string \<Rightarrow> files \<Rightarrow> files \<times> state_error option" where
  "agent_forget remove_ok a path fs = (if \<not> ac_requested a then (fs, None) else Forget remove_ok path fs)"

section \<open>The leave command\<close>

datatype leave_message =
    LeftTold string nat | LeftUnreached string | LeftUnrevoked string | StillTrusted string | AgentStopped string
  | NoStateFor string | StateRemoved string

datatype leave_error = AgentStays call_error | CallFailed call_error | StartAgent call_error | RemoveFailed wg_error | HostsFailed hosts_error | StateFailed state_error

definition leave_report :: "string \<Rightarrow> response \<Rightarrow> leave_message list" where
  "leave_report iface resp =
     (if rsp_Revoked resp \<and> 0 < rsp_Notified resp then [LeftTold (rsp_Identity resp) (rsp_Notified resp)]
      else if rsp_Revoked resp then [LeftUnreached (rsp_Identity resp), StillTrusted (rsp_Identity resp)]
      else [LeftUnrevoked (rsp_Identity resp), StillTrusted (rsp_Identity resp)]) @ [AgentStopped iface]"

text \<open>What a stopped agent leaves behind: the interface, the hosts entries and the state.\<close>

record 'k leftovers =
  lo_kernel :: 'k
  lo_hosts :: hosts_fs
  lo_files :: files

definition removeLeftovers :: "'k netlink \<Rightarrow> hosts_faults \<Rightarrow> bool \<Rightarrow> string \<Rightarrow> string \<Rightarrow> 'k leftovers \<Rightarrow> 'k leftovers \<times> leave_error option" where
  "removeLeftovers N hf remove_ok iface path w =
     (case wg_Remove N (lo_kernel w) iface of
        (k, Some e) \<Rightarrow> (w\<lparr>lo_kernel := k\<rparr>, Some (RemoveFailed e))
      | (k, None) \<Rightarrow>
          (case WriteEntries hf (hostsFor iface) [] (lo_hosts w) of
             (h, Some e) \<Rightarrow> (w\<lparr>lo_kernel := k, lo_hosts := h\<rparr>, Some (HostsFailed e))
           | (h, None) \<Rightarrow>
               (case Forget remove_ok path (lo_files w) of
                  (fs, e) \<Rightarrow> (\<lparr>lo_kernel = k, lo_hosts = h, lo_files = fs\<rparr>, map_option StateFailed e))))"

definition leave_forced ::
  "ed25519 \<Rightarrow> state_codec \<Rightarrow> bool \<Rightarrow> 'k netlink \<Rightarrow> hosts_faults \<Rightarrow> bool \<Rightarrow> string \<Rightarrow> string \<Rightarrow> 'k leftovers \<Rightarrow> 'k leftovers \<times> (leave_error + leave_message list)" where
  "leave_forced C J read_ok N hf remove_ok iface path w =
     (let identity = LocalIdentity C J read_ok path (lo_files w) in
      case removeLeftovers N hf remove_ok iface path w of
        (w', Some e) \<Rightarrow> (w', Inl e)
      | (w', None) \<Rightarrow>
          (w', Inr (case identity of
                      None \<Rightarrow> [NoStateFor iface]
                    | Some k \<Rightarrow> [StateRemoved iface, StillTrusted (key_String k)])))"

definition leave_Run ::
  "ed25519 \<Rightarrow> state_codec \<Rightarrow> bool \<Rightarrow> 'k netlink \<Rightarrow> hosts_faults \<Rightarrow> bool \<Rightarrow> string \<Rightarrow> string \<Rightarrow> bool \<Rightarrow> call_error + response \<Rightarrow>
    'k leftovers \<Rightarrow> 'k leftovers \<times> (leave_error + leave_message list)" where
  "leave_Run C J read_ok N hf remove_ok iface path force called w =
     (case called of
        Inr resp \<Rightarrow> (w, Inr (leave_report iface resp))
      | Inl (ErrNoAgent p) \<Rightarrow>
          if \<not> force then (w, Inl (StartAgent (ErrNoAgent p))) else leave_forced C J read_ok N hf remove_ok iface path w
      | Inl e \<Rightarrow> (w, Inl (if \<not> force then AgentStays e else CallFailed e)))"

section \<open>Properties\<close>

lemma handle_revoke:
  "req_Op req = OpRevoke \<Longrightarrow> control_handle pd (agent_handler V) a req =
    (case agent_Revoke V a (req_Target req) of
       (a', Inl e) \<Rightarrow> (a', no_response\<lparr>rsp_Error := ce_render V e\<rparr>)
     | (a', Inr ident) \<Rightarrow> (a', no_response\<lparr>rsp_Identity := ident\<rparr>))"
  by (auto simp: control_handle_def agent_handler_def Let_def OpInvite_def OpRevoke_def split: prod.splits sum.splits)

lemma handle_leave:
  "req_Op req = OpLeave \<Longrightarrow> control_handle pd (agent_handler V) a req =
    (case agent_Leave V a (req_Force req) of
       (a', Inl e) \<Rightarrow> (a', no_response\<lparr>rsp_Error := ce_render V e\<rparr>)
     | (a', Inr left) \<Rightarrow> (a', no_response\<lparr>rsp_Identity := lr_Identity left, rsp_Revoked := lr_Revoked left, rsp_Notified := lr_Notified left\<rparr>))"
  by (auto simp: control_handle_def agent_handler_def Let_def OpInvite_def OpRevoke_def OpLeave_def split: prod.splits sum.splits)

text \<open>
  C35. The operator's revoke does what it says. Let this node be a member and its clock be later than
  every record. A request that names, by identity or by the name of a single member, another
  identity that has no stored revocation yet is answered with that identity, and from then on the
  identity is no member and in no snapshot, while everybody else's membership is as before; a
  request that names nobody, or this node itself, is answered with an error and changes nothing.
  What happens to an identity with a stored revocation is another property.
\<close>

theorem operator_revoke:
  assumes "ed25519_correct (ed E)" and "wf_identity (ed E) (cl_id c)" and "wf_cluster E c" and "valid (cl_set c) (cluster_Identity E c)"
    and "\<forall>u \<in> record_times (cl_set c). sint u < sint (ce_now V)" and "E = ce_lib V" and "c = ac_cluster a" and "\<forall>e. ce_render V e \<noteq> []"
    and "req_Op req = OpRevoke" and "control_handle pd (agent_handler V) a req = (a', rsp)" and "c' = ac_cluster a'"
  shows "case revoke_target c (req_Target req) of
      None \<Rightarrow> a' = a \<and> rsp_Error rsp \<noteq> []
    | Some x \<Rightarrow>
        if x = cluster_Identity E c then a' = a \<and> rsp_Error rsp \<noteq> []
        else map_of (set_revocations (cl_set c)) x = None \<longrightarrow>
          rsp_Error rsp = [] \<and> rsp_Identity rsp = key_String x \<and> \<not> snd (Valid (cl_set c') x) \<and>
          (\<forall>ms. \<forall>n \<in> set (snd (snapshot E ms c')). meta_identity n \<noteq> x) \<and>
          (\<forall>z. z \<noteq> x \<longrightarrow> snd (Valid (cl_set c') z) = snd (Valid (cl_set c) z))"
proof (cases "revoke_target c (req_Target req)")
  case None
  then show ?thesis using assms(6-11) by (auto simp: handle_revoke agent_Revoke_def)
next
  case (Some x)
  show ?thesis
  proof (cases "x = cluster_Identity E c")
    case True
    then show ?thesis using Some assms(6-11) by (auto simp: handle_revoke agent_Revoke_def)
  next
    case False
    obtain d err where r: "cluster_Revoke E (ce_save V) (ce_now V) c x = (d, err)" by fastforce
    have "rsp_Error rsp = [] \<and> rsp_Identity rsp = key_String x \<and> c' = d" if "err = None"
      using Some False r that assms(6,7,9-11) by (auto simp: handle_revoke agent_Revoke_def no_response_def)
    then show ?thesis using Some False cluster_Revoke_exact [OF assms(1-4) False _ assms(5) r] by auto
  qed
qed

lemma RevokeSelf_withdraws:
  assumes "ed25519_correct (ed E)" and "wf_identity (ed E) (cl_id c)" and "wf_cluster E c"
    and "map_of (set_revocations (cl_set c)) (cluster_Identity E c) = None" and "RevokeSelf E f now members send c = (c', Inr n)"
  shows "\<not> snd (Valid (cl_set c') (cluster_Identity E c))"
proof -
  let ?r = "Revoke (ed E) (cl_id c) (cluster_Identity E c) now"
  have "AddRevocation (ed E) (cl_set c) ?r =
      ((cl_set c)\<lparr>set_revocations := AList.update (cluster_Identity E c) ?r (set_revocations (cl_set c)), set_members := []\<rparr>, Inr True)"
    using AddRevocation_fresh [OF Revoke_Validate [OF assms(1,2)]] assms(4) by simp
  moreover have "cl_set c' = fst (AddRevocation (ed E) (cl_set c) ?r)"
    using assms(5) by (auto simp: RevokeSelf_def Let_def frame_simps split: prod.splits sum.splits option.splits)
  ultimately have "map_of (set_revocations (cl_set c')) (cluster_Identity E c) = Some ?r" by simp
  then have "\<not> valid (cl_set c') (cluster_Identity E c)" by (rule self_revoked_not_valid) (simp add: cluster_Identity_def)
  moreover have "wf_set (ed E) (cl_set c')"
    using \<open>cl_set c' = _\<close> AddRevocation_wf assms(3) by (simp add: wf_cluster_def)
  ultimately show ?thesis using valid_by by blast
qed

text \<open>
  C36. Leaving is never pretended, as long as no revocation of this node is stored, whoever signed it:
  then a leave that is answered as revoked leaves a state in which this node is no member any more
  and the agent stopping. An error, unless it is forgetting the state that failed, means that force
  was not given, that the agent has not been told to stop and that its state will be kept. With
  force the agent always stops, and only an agent that was told to leave forgets its state.
\<close>

theorem operator_leave:
  assumes "ed25519_correct (ed E)" and "wf_identity (ed E) (cl_id c)" and "wf_cluster E c"
    and "map_of (set_revocations (cl_set c)) (cluster_Identity E c) = None" and "E = ce_lib V" and "c = ac_cluster a"
    and "\<not> ac_requested a" and "\<not> ac_stopped a" and "\<forall>e. ce_render V e \<noteq> []"
    and "req_Op req = OpLeave" and "control_handle pd (agent_handler V) a req = (a', rsp)"
  shows "(rsp_Revoked rsp \<longrightarrow> \<not> snd (Valid (cl_set (ac_cluster a')) (cluster_Identity E c)) \<and> ac_stopped a' \<and> rsp_Error rsp = []) \<and>
    (rsp_Error rsp = [] \<longrightarrow> rsp_Identity rsp = key_String (cluster_Identity E c) \<and> ac_stopped a') \<and>
    (rsp_Error rsp \<noteq> [] \<and> ce_forget V = None \<longrightarrow> \<not> req_Force req \<and> \<not> ac_stopped a' \<and> agent_forget ok a' path fs = (fs, None)) \<and>
    (req_Force req \<longrightarrow> ac_stopped a') \<and>
    (agent_forget ok a' path fs \<noteq> (fs, None) \<longrightarrow> ac_stopped a')"
proof -
  obtain d r where rs: "RevokeSelf E (ce_save V) (ce_now V) (ce_members V) (ce_send V) c = (d, r)" by fastforce
  have out: "\<not> snd (Valid (cl_set d) (cluster_Identity E c))" if "r = Inr n" for n
    using RevokeSelf_withdraws [OF assms(1-4), of "ce_save V" "ce_now V" "ce_members V" "ce_send V" d n] rs that by blast
  show ?thesis
  proof (cases r)
    case (Inl e)
    then show ?thesis
      using rs assms(5-11)
      by (cases "req_Force req"; cases "ce_forget V") (auto simp: handle_leave agent_Leave_def Let_def no_response_def agent_forget_def)
  next
    case (Inr n)
    then show ?thesis
      using rs out [OF Inr] assms(5-11)
      by (cases "ce_forget V") (auto simp: handle_leave agent_Leave_def Let_def no_response_def agent_forget_def)
  qed
qed

text \<open>
  C40. An identity that has a stored revocation, whoever signed it, cannot be revoked any more, and
  the operator is not told: the request is answered as if it had been carried out. The fresh
  revocation is queued for gossip, but it is not stored: this node's records and everyone's
  membership are the same as before, and so they are on every node that has a revocation of the
  identity when the fresh one arrives there.
\<close>

theorem revoke_reports_without_effect:
  assumes "ed25519_correct (ed E)" and "wf_identity (ed E) (cl_id c)" and "E = ce_lib V" and "c = ac_cluster a"
    and "revoke_target c target = Some x" and "x \<noteq> cluster_Identity E c" and "map_of (set_revocations (cl_set c)) x = Some r"
    and "agent_Revoke V a target = (a', res)" and "enc_msg E (revocation_msg (Revoke (ed E) (cl_id c) x (ce_now V))) = Some msg"
  shows "res = Inr (key_String x) \<and> cl_set (ac_cluster a') = cl_set c \<and>
    cl_queue (ac_cluster a') = cl_queue c @ [(''rev:'' @ key_String x, msg)] \<and>
    (\<forall>d f. map_of (set_revocations (cl_set d)) x \<noteq> None \<longrightarrow> dec_msg E msg = Some (revocation_msg (Revoke (ed E) (cl_id c) x (ce_now V))) \<longrightarrow>
       NotifyMsg E f d msg = d)"
proof -
  let ?rv = "Revoke (ed E) (cl_id c) x (ce_now V)"
  have kept: "AddRevocation (ed E) s ?rv = (s, Inr False)" if "map_of (set_revocations s) x \<noteq> None" for s
    using Revoke_Validate [OF assms(1,2)] that by (auto simp: AddRevocation_def)
  have "NotifyMsg E f d msg = d"
    if "map_of (set_revocations (cl_set d)) x \<noteq> None" "dec_msg E msg = Some (revocation_msg ?rv)" for d f
    using kept [OF that(1)] that(2) by (simp add: NotifyMsg_def revocation_msg_def)
  moreover have "AddRevocation (ed E) (cl_set c) ?rv = (cl_set c, Inr False)" using kept assms(7) by simp
  then have "res = Inr (key_String x) \<and> cl_set (ac_cluster a') = cl_set c \<and>
      cl_queue (ac_cluster a') = cl_queue c @ [(''rev:'' @ key_String x, msg)]"
    using assms(3-6,8,9)
    by (auto simp: agent_Revoke_def cluster_Revoke_def Let_def frame_simps broadcast_def broadcast_name_def revocation_msg_def
        signalChanged_def persist_def saveState_def split: prod.splits option.splits)
  ultimately show ?thesis by blast
qed

text \<open>
  A forced leave removes everything a stopped agent left behind, or keeps the state: if it
  succeeds the interface is gone, no managed line is left in the hosts file and every other line
  is as it was, the state file is gone and the operator has been given the identity the cluster
  still trusts; if any step fails the state file is still there, so that the leave can be tried
  again and the identity is not lost.
\<close>

theorem forced_leave_removes_everything:
  assumes "\<forall>k name i k'. nl_LinkByName N k name = NlLink i \<longrightarrow> nl_LinkDel N k i = (k', NlOk) \<longrightarrow> nl_LinkByName N k' name = NlNoLink"
    and "leave_forced C J read_ok N hf remove_ok iface path w = (w', res)" and "b = hostsFor iface" and "banner_ok b"
    and "hosts_file (lo_hosts w) = Some orig" and "scan_lines orig = Some ls"
  shows "case res of
      Inr msgs \<Rightarrow> nl_LinkByName N (lo_kernel w') iface = NlNoLink \<and> lo_files w' = (lo_files w)(path := None) \<and>
        (\<exists>new. hosts_file (lo_hosts w') = Some new \<and> unmanaged_lines b (split_lines [] new) = unmanaged_lines b ls \<and>
           filter (managed_line b) (split_lines [] new) = []) \<and>
        (\<forall>k. LocalIdentity C J read_ok path (lo_files w) = Some k \<longrightarrow> StillTrusted (key_String k) \<in> set msgs)
    | Inl _ \<Rightarrow> lo_files w' = lo_files w"
proof -
  obtain k kerr where rm: "wg_Remove N (lo_kernel w) iface = (k, kerr)" by fastforce
  obtain h herr where hosts: "WriteEntries hf b [] (lo_hosts w) = (h, herr)" by fastforce
  obtain fs serr where forget: "Forget remove_ok path (lo_files w) = (fs, serr)" by fastforce
  have gone: "nl_LinkByName N k iface = NlNoLink" if "kerr = None"
    using rm that assms(1) by (auto simp: wg_Remove_def kernel_Delete_def split: nl_link.splits prod.splits if_splits)
  have files: "serr = None \<Longrightarrow> fs = (lo_files w)(path := None)" "serr \<noteq> None \<Longrightarrow> fs = lo_files w"
    using forget by (auto simp: Forget_def split: if_splits)
  have block: "\<exists>new. hosts_file h = Some new \<and> unmanaged_lines b (split_lines [] new) = unmanaged_lines b ls \<and>
      filter (managed_line b) (split_lines [] new) = []" if ok: "herr = None"
  proof -
    obtain new where "hosts_file h = Some new" "writeEntries b orig [] = Inr new"
      using WriteEntries_outcome [OF hosts] ok assms(5) by auto
    moreover have "entries_ok []" by (simp add: entries_ok_def go_map_def)
    ultimately show ?thesis using writeEntries_exact [OF assms(4) _ assms(6), of "[]"] by auto
  qed
  show ?thesis
    using assms(2) rm hosts [unfolded assms(3)] forget gone files block
    by (cases kerr; cases herr; cases serr) (auto simp: leave_forced_def removeLeftovers_def assms(3) split: option.splits)
qed

section \<open>Witnesses\<close>

definition demo_env :: ctl_env where
  "demo_env = \<lparr>ce_lib = demo_cluster_lib, ce_save = demo_faults True, ce_now = 300, ce_clock = 0, ce_sha = (\<lambda>_. []), ce_rand = (\<lambda>_. None),
     ce_members = [''b''], ce_send = (\<lambda>_. True), ce_forget = None, ce_render = (\<lambda>_. ''error'')\<rparr>"

definition demo_ctl :: agent_ctl where
  "demo_ctl = \<lparr>ac_cluster = demo_cluster, ac_requested = False, ac_stopped = False\<rparr>"

definition demo_request :: "string \<Rightarrow> string \<Rightarrow> request" where
  "demo_request op target = \<lparr>req_Op = op, req_TTL = [], req_Uses = 0, req_Target = target, req_Force = False\<rparr>"

lemma demo_ctl_facts:
  "ed25519_correct (ed demo_cluster_lib)" "wf_identity (ed demo_cluster_lib) (cl_id demo_cluster)" "valid (cl_set demo_cluster) (cluster_Identity demo_cluster_lib demo_cluster)"
  "cluster_Identity demo_cluster_lib demo_cluster = 1" "set_revocations (cl_set demo_cluster) = []" "\<forall>u \<in> record_times (cl_set demo_cluster). sint u < sint (300 :: int64)"
  "ce_lib demo_env = demo_cluster_lib" "ac_cluster demo_ctl = demo_cluster" "ce_now demo_env = 300" "ce_render demo_env e \<noteq> []"
  using demo_set_late demo_set_eq [THEN arg_cong, of set_revocations]
  by (simp_all add: demo_cluster_def cluster_Identity_def demo_cluster_lib_def demo_env_def demo_ctl_def)

lemma demo_target: "revoke_target demo_cluster (key_String 2) = Some 2"
  by (simp add: revoke_target_def ParsePublicKey_def)

theorem operator_revoke_witness:
  "let r = control_handle (\<lambda>_. Inl []) (agent_handler demo_env) demo_ctl (demo_request OpRevoke (key_String 2)) in
   rsp_Identity (snd r) = key_String 2 \<and> \<not> snd (Valid (cl_set (ac_cluster (fst r))) 2) \<and>
   snd (Valid (cl_set (ac_cluster (fst r))) 3) = snd (Valid (cl_set demo_cluster) 3)"
proof -
  let ?q = "demo_request OpRevoke (key_String 2)"
  have q: "req_Op ?q = OpRevoke" "req_Target ?q = key_String 2" by (simp_all add: demo_request_def)
  have "\<forall>e. ce_render demo_env e \<noteq> []" "\<forall>u \<in> record_times (cl_set demo_cluster). sint u < sint (ce_now demo_env)"
    using demo_ctl_facts(6,10) by (simp_all add: demo_ctl_facts(9))
  from operator_revoke [OF demo_ctl_facts(1,2) demo_wf_cluster demo_ctl_facts(3) this(2) demo_ctl_facts(7,8) [symmetric] this(1) q(1) surjective_pairing refl]
  show ?thesis by (simp add: q(2) demo_target demo_ctl_facts(4,5) Let_def)
qed

theorem operator_leave_witness:
  "let r = control_handle (\<lambda>_. Inl []) (agent_handler demo_env) demo_ctl (demo_request OpLeave []) in
   rsp_Revoked (snd r) \<and> \<not> snd (Valid (cl_set (ac_cluster (fst r))) 1) \<and> ac_stopped (fst r)"
proof -
  let ?r = "control_handle (\<lambda>_. Inl []) (agent_handler demo_env) demo_ctl (demo_request OpLeave [])"
  have q: "req_Op (demo_request OpLeave []) = OpLeave" by (simp add: demo_request_def)
  have render: "\<forall>e. ce_render demo_env e \<noteq> []" using demo_ctl_facts(10) by simp
  have "map_of (set_revocations (cl_set demo_cluster)) (cluster_Identity demo_cluster_lib demo_cluster) = None" by (simp add: demo_ctl_facts(5))
  from operator_leave [OF demo_ctl_facts(1,2) demo_wf_cluster this demo_ctl_facts(7,8) [symmetric] _ _ render q surjective_pairing]
  have "rsp_Revoked (snd ?r) \<longrightarrow> \<not> snd (Valid (cl_set (ac_cluster (fst ?r))) 1) \<and> ac_stopped (fst ?r)"
    by (simp add: demo_ctl_facts(4)) (simp add: demo_ctl_def)
  moreover have "rsp_Revoked (snd ?r)"
  proof -
    have "AddRevocation demo_ed25519 (cl_set demo_cluster) (Revoke demo_ed25519 (cl_id demo_cluster) 1 300) =
        ((cl_set demo_cluster)\<lparr>set_revocations := AList.update 1 (Revoke demo_ed25519 (cl_id demo_cluster) 1 300) [], set_members := []\<rparr>, Inr True)"
      using AddRevocation_fresh [OF Revoke_Validate, of demo_ed25519 "cl_id demo_cluster" "cl_set demo_cluster" 1 300]
      by (simp add: demo_ctl_facts(5)) (simp add: demo_cluster_def)
    then show ?thesis
      by (simp add: handle_leave [OF q] agent_Leave_def RevokeSelf_def demo_ctl_facts Let_def)
        (simp add: demo_env_def demo_cluster_lib_def no_response_def)
  qed
  ultimately show ?thesis unfolding Let_def by blast
qed

theorem revoke_reports_without_effect_witness:
  "let c = demo_cluster\<lparr>cl_set := fst (AddRevocation demo_ed25519 demo_set (Revoke demo_ed25519 (demo_identity 9) 2 0))\<rparr>;
       r = agent_Revoke demo_env (demo_ctl\<lparr>ac_cluster := c\<rparr>) (key_String 2)
   in snd r = Inr (key_String 2) \<and> cl_set (ac_cluster (fst r)) = cl_set c \<and> cl_queue (ac_cluster (fst r)) = cl_queue c @ [(''rev:'' @ key_String 2, [2])]"
proof -
  let ?c = "demo_cluster\<lparr>cl_set := fst (AddRevocation demo_ed25519 demo_set (Revoke demo_ed25519 (demo_identity 9) 2 0))\<rparr>"
  have stored: "map_of (set_revocations (cl_set ?c)) 2 = Some (Revoke demo_ed25519 (demo_identity 9) 2 0)"
    using AddRevocation_fresh [of demo_ed25519 "Revoke demo_ed25519 (demo_identity 9) 2 0" demo_set] Revoke_Validate [of demo_ed25519 "demo_identity 9" 2 0]
    by (simp add: demo_set_eq)
  have target: "revoke_target ?c (key_String 2) = Some 2" by (simp add: revoke_target_def ParsePublicKey_def)
  have other: "2 \<noteq> cluster_Identity demo_cluster_lib ?c" "wf_identity (ed demo_cluster_lib) (cl_id ?c)"
    "?c = ac_cluster (demo_ctl\<lparr>ac_cluster := ?c\<rparr>)"
    using demo_ctl_facts(2,4) by (simp_all add: cluster_Identity_def)
  have enc: "enc_msg demo_cluster_lib m = Some [2]" for m by (simp add: demo_cluster_lib_def)
  show ?thesis
    unfolding Let_def
    using revoke_reports_without_effect [OF demo_ctl_facts(1) other(2) demo_ctl_facts(7) [symmetric] other(3) target other(1) stored surjective_pairing enc]
    by (intro conjI) (elim conjE, assumption)+
qed

theorem forced_leave_removes_everything_witness:
  "let N = \<lparr>nl_LinkByName = (\<lambda>k name. if k then NlLink 1 else NlNoLink), nl_LinkAdd = (\<lambda>k name. (True, NlOk)), nl_LinkDel = (\<lambda>k i. (False, NlOk)),
        nl_AddrReplace = (\<lambda>k i n. (k, NlOk)), nl_LinkSetMTU = (\<lambda>k i m. (k, NlOk)), nl_LinkSetUp = (\<lambda>k i. (k, NlOk)), nl_AddrList = (\<lambda>k i. None),
        nl_RouteList = (\<lambda>k i. None), nl_RouteAdd = (\<lambda>k i n. (k, NlOk)), nl_RouteDel = (\<lambda>k r. (k, NlOk)), wgctrl_Configure = (\<lambda>k name cfg. (k, True))\<rparr>;
       f = no_hosts_faults\<lparr>hf_temp := False\<rparr>;
       w = \<lparr>lo_kernel = True, lo_hosts = \<lparr>hosts_file = Some demo_hosts, temp_files = []\<rparr>, lo_files = [''p'' \<mapsto> [1]]\<rparr>
   in lo_files (fst (leave_forced demo_ed25519 demo_codec True N f True ''wg0'' ''p'' w)) = [''p'' \<mapsto> [1]]"
proof -
  let ?N = "\<lparr>nl_LinkByName = (\<lambda>k name. if k then NlLink 1 else NlNoLink), nl_LinkAdd = (\<lambda>k name. (True, NlOk)), nl_LinkDel = (\<lambda>k i. (False, NlOk)),
        nl_AddrReplace = (\<lambda>k i n. (k, NlOk)), nl_LinkSetMTU = (\<lambda>k i m. (k, NlOk)), nl_LinkSetUp = (\<lambda>k i. (k, NlOk)), nl_AddrList = (\<lambda>k i. None),
        nl_RouteList = (\<lambda>k i. None), nl_RouteAdd = (\<lambda>k i n. (k, NlOk)), nl_RouteDel = (\<lambda>k r. (k, NlOk)), wgctrl_Configure = (\<lambda>k name cfg. (k, True))\<rparr>"
  let ?f = "no_hosts_faults\<lparr>hf_temp := False\<rparr>"
  let ?w = "\<lparr>lo_kernel = True, lo_hosts = \<lparr>hosts_file = Some demo_hosts, temp_files = []\<rparr>, lo_files = [''p'' \<mapsto> [1]]\<rparr>"
  let ?r = "leave_forced demo_ed25519 demo_codec True ?N ?f True ''wg0'' ''p'' ?w"
  have "snd ?r = Inl (HostsFailed CreatingTemp)"
    by (simp add: leave_forced_def removeLeftovers_def wg_Remove_def kernel_Delete_def WriteEntries_def Let_def)
  then show ?thesis
    unfolding Let_def
    using forced_leave_removes_everything [of ?N demo_ed25519 demo_codec True ?f True "''wg0''" "''p''" ?w, OF _ surjective_pairing refl demo_banner _ demo_scan]
    by simp
qed

end
