(* ===== verification/Agent.thy ===== *)
theory Agent
  imports Agent_Loop Control_Agent
begin

text \<open>
  The agent from its start to its end, \<^verbatim>\<open>Run\<close> of \<^verbatim>\<open>internal/cli/agent.go\<close>: loading the state,
  settling the membership (already enrolled, enrolling with a join key, or making a new cluster),
  the overlay network and this node's address, creating the wireguard state and the cluster,
  joining with retries, the loop, and forgetting the state after a leave. It composes the
  components' own definitions. What the world answers (the network interfaces, the members dialled,
  the keys generated, the sockets, the file system) are arguments.
\<close>

section \<open>Membership\<close>

text \<open>\<open>dial\<close> is what \<^verbatim>\<open>cluster.Enrol\<close> answers for each address; the last error is kept.\<close>

fun agent_enrol :: "(string \<Rightarrow> 'e + welcome_msg \<times> public_key) \<Rightarrow> string list \<Rightarrow> (string \<times> 'e) option \<Rightarrow>
    (string \<times> 'e) option + welcome_msg \<times> public_key" where
  "agent_enrol dial [] lastErr = Inl lastErr"
| "agent_enrol dial (addr # addrs) lastErr =
     (case dial addr of
        Inr r \<Rightarrow> Inr r
      | Inl e \<Rightarrow> agent_enrol dial addrs (Some (addr, e)))"

datatype 'e start_error =
    LoadingState state_error | EnrollingWith string 'e | NilWelcome | Settings settings_error | NoSlot state_error
  | SlotOutside uint64 prefix | WireguardController wg_error | CreatingCluster cluster_error

text \<open>
  \<^verbatim>\<open>bootstrap\<close>: the bootstrap and the addresses to join at. A welcome that is nil, which happens
  with a join key and no member to enrol with, would be dereferenced.
\<close>

definition agent_bootstrap ::
  "ed25519 \<Rightarrow> (string \<Rightarrow> 'e + welcome_msg \<times> public_key) \<Rightarrow> string \<Rightarrow> settings \<Rightarrow> bootstrap \<Rightarrow> string \<Rightarrow> int64 \<Rightarrow>
    'e start_error + bootstrap \<times> string list" where
  "agent_bootstrap C dial joinKey a boot hostname now =
     (if Enrolled boot then Inr (boot, cli_Join a)
      else if joinKey \<noteq> '''' then
        (case agent_enrol dial (enrolAddrs (cli_Join a) (cli_ClusterPort a)) None of
           Inl None \<Rightarrow> Inl NilWelcome
         | Inl (Some (addr, e)) \<Rightarrow> Inl (EnrollingWith addr e)
         | Inr (w, member) \<Rightarrow> Inr (boot_Enrol boot (w_Root w) (w_Records w) (w_OverlayNet w), [w_GossipAddr w]))
      else if prefix_is_valid (cli_OverlayNet a) then Inr (InitRoot C boot hostname now, cli_Join a)
      else Inr (boot, []))"

section \<open>Starting\<close>

text \<open>What the world answers while the agent starts.\<close>

record 'e start_env =
  se_rand :: "nat \<Rightarrow> bytes option"
  se_read_ok :: bool
  se_save1 :: save_faults
  se_save2 :: save_faults
  se_dial :: "string \<Rightarrow> 'e + welcome_msg \<times> public_key"
  se_now :: int64
  se_ifaces :: "net_interface list option"
  se_platform :: "wg_error option"
  se_wgkey :: "wgkey option"
  se_publicOf :: "wgkey \<Rightarrow> wgkey"
  se_keyText :: "wgkey \<Rightarrow> string"
  se_transport :: "nat option"
  se_memberlist :: bool

text \<open>\<^verbatim>\<open>wg.New\<close>: \<open>se_platform\<close> is the error of choosing the platform or opening its client.\<close>

definition wg_New :: "'e start_env \<Rightarrow> wg_config \<Rightarrow> wg_error + wg_state" where
  "wg_New W cfg = (case se_platform W of Some e \<Rightarrow> Inl e | None \<Rightarrow> newState (se_publicOf W) (se_wgkey W) cfg)"

datatype started = Idle | Started settings wg_state cluster "string list"

text \<open>What peers learn about this node, before the cluster signs it.\<close>

definition local_node :: "settings \<Rightarrow> string \<Rightarrow> addr \<Rightarrow> string \<Rightarrow> node" where
  "local_node a hostname overlayAddr pubKey =
     \<lparr>meta_overlayAddr = overlayAddr, meta_pubKey = pubKey, meta_allowedIPs = masked_all (cli_AllowedIPs a), meta_identity = 0,
      meta_signature = [], node_name = hostname, node_addr = NoAddr, node_port = 0\<rparr>"

definition agent_member ::
  "cluster_lib \<Rightarrow> 'e start_env \<Rightarrow> settings \<Rightarrow> string \<Rightarrow> string \<Rightarrow> bootstrap \<Rightarrow> string list \<Rightarrow> files \<Rightarrow> 'e start_error + started" where
  "agent_member E W a0 hostname path boot joinAddrs fs =
     (case advertiseAddr (se_ifaces W) a0 of
        Inl e \<Rightarrow> Inl (Settings e)
      | Inr _ \<Rightarrow>
          (case settleOverlayNet (boot_OverlayNet boot) a0 of
             (_, Some e) \<Rightarrow> Inl (Settings e)
           | (a, None) \<Rightarrow>
               (case boot_Host (ed E) boot of
                  Inl e \<Rightarrow> Inl (NoSlot e)
                | Inr host \<Rightarrow>
                    (case overlay_Addr (cli_OverlayNet a) host of
                       None \<Rightarrow> Inl (SlotOutside host (cli_OverlayNet a))
                     | Some overlayAddr \<Rightarrow>
                         (case wg_New W \<lparr>wgc_Interface = cli_Interface a, wgc_Port = cli_WireguardPort a, wgc_OverlayAddr = overlayAddr,
                               wgc_MTU = cli_MTU a, wgc_PersistentKeepalive = cli_PersistentKeepalive a, wgc_Userspace = cli_Userspace a\<rparr> of
                            Inl e \<Rightarrow> Inl (WireguardController e)
                          | Inr ws \<Rightarrow>
                              (case New E (se_save2 W) (se_transport W) (se_memberlist W) fs
                                  \<lparr>cfg_path = path, cfg_OverlayNet = cli_OverlayNet a,
                                   cfg_LocalNode = Some (local_node a hostname overlayAddr (se_keyText W (ws_PubKey ws))), cfg_Boot = Some boot\<rparr> of
                                 Inl e \<Rightarrow> Inl (CreatingCluster e)
                               | Inr c \<Rightarrow> Inr (Started a ws c joinAddrs)))))))"

definition agent_start ::
  "cluster_lib \<Rightarrow> 'e start_env \<Rightarrow> string \<Rightarrow> settings \<Rightarrow> string \<Rightarrow> string \<Rightarrow> files \<Rightarrow> files \<times> ('e start_error + started)" where
  "agent_start E W joinKey a hostname path fs =
     (case Load (ed E) (state_json E) (se_rand W) (se_save1 W) (se_read_ok W) path fs of
        (fs1, Inl e) \<Rightarrow> (fs1, Inl (LoadingState e))
      | (fs1, Inr boot) \<Rightarrow>
          (case agent_bootstrap (ed E) (se_dial W) joinKey a boot hostname (se_now W) of
             Inl e \<Rightarrow> (fs1, Inl e)
           | Inr (boot1, joinAddrs) \<Rightarrow>
               if \<not> Enrolled boot1 then (fs1, Inr Idle)
               else (fs1, agent_member E W a hostname path boot1 joinAddrs fs1)))"

section \<open>Running\<close>

text \<open>\<^verbatim>\<open>backoff.Retry\<close> over the outcomes of \<^verbatim>\<open>Join\<close>: it ends with a success, or when the agent is stopped.\<close>

fun retry_join :: "bool list \<Rightarrow> bool" where
  "retry_join [] = False"
| "retry_join (ok # oks) = (ok \<or> retry_join oks)"

text \<open>
  After the start: \<open>listening\<close> says whether the control socket could be opened, \<open>oks\<close> are the outcomes of joining up to the end of the context, \<open>evs\<close> what the
  loop sees, \<open>leaving\<close> whether a leave was asked for by then. A leave has stopped the agent, so the
  loop's last event is the end of the context.
\<close>

record 'w run_result =
  rr_agent :: "'w agent"
  rr_files :: files
  rr_loop :: "agent_error option"
  rr_forget :: "state_error option"

definition agent_finish :: "bool \<Rightarrow> bool \<Rightarrow> string \<Rightarrow> 'w agent \<Rightarrow> agent_error option \<Rightarrow> 'w run_result" where
  "agent_finish remove_ok leaving path g err =
     (case agent_forget remove_ok \<lparr>ac_cluster = ag_cluster g, ac_requested = leaving, ac_stopped = leaving\<rparr> path (cl_files (ag_cluster g)) of
        (fs, e) \<Rightarrow> \<lparr>rr_agent = g, rr_files = fs, rr_loop = err, rr_forget = e\<rparr>)"

definition agent_run ::
  "'w platform_ops \<Rightarrow> (string \<Rightarrow> wgkey option) \<Rightarrow> cluster_lib \<Rightarrow> save_faults \<Rightarrow> bool \<Rightarrow> bool \<Rightarrow> settings \<Rightarrow> bool \<Rightarrow> string \<Rightarrow> 'w agent \<Rightarrow>
    bool list \<Rightarrow> agent_event list \<Rightarrow> 'w run_result option" where
  "agent_run P parse E sf listening remove_ok a leaving path g oks evs =
     (let left = g\<lparr>ag_cluster := Leave E sf (ag_cluster g)\<rparr> in
      if \<not> listening then Some \<lparr>rr_agent = left, rr_files = cl_files (ag_cluster left), rr_loop = Some ControlSocketFailed, rr_forget = None\<rparr>
      else if \<not> retry_join oks then Some (agent_finish remove_ok leaving path left None)
      else
        (case agent_loop P parse E a g evs of
           (_, Running) \<Rightarrow> None
         | (g', Returned err) \<Rightarrow> Some (agent_finish remove_ok leaving path g' err)))"

section \<open>A member starts\<close>

definition world_ok :: "'e start_env \<Rightarrow> settings \<Rightarrow> bool" where
  "world_ok W a \<longleftrightarrow> (\<exists>adv. advertiseAddr (se_ifaces W) a = Inr adv) \<and> se_platform W = None \<and> (\<exists>k. se_wgkey W = Some k) \<and>
     (\<exists>port. se_transport W = Some port) \<and> se_memberlist W"

lemma find_map_of: "List.find (\<lambda>a. f a = x) as = map_of (map (\<lambda>a. (f a, a)) as) x"
  by (induction as) auto

lemma boot_Host_Lookup:
  assumes "wf_set C s" and "boot_Records b = Records s" and "Lookup s (id_Public C (boot_Identity b)) = Some adm"
  shows "boot_Host C b = Inr (adm_Host adm)"
  using records_of_wf(5) [OF assms(1)] assms(2,3) by (simp add: boot_Host_def find_map_of Lookup_def)

lemma member_starts:
  assumes "world_ok W a" and "wf_set (ed E) s" and "boot_Root boot = set_root s" and "boot_Records boot = Records s"
    and "settleOverlayNet (boot_OverlayNet boot) a = (a', None)" and "x = id_Public (ed E) (boot_Identity boot)"
    and "snd (assignedAddr s (cli_OverlayNet a') x) = Inr addr"
  shows "\<exists>ws c. agent_member E W a hostname path boot joinAddrs fs = Inr (Started a' ws c joinAddrs) \<and> ws_overlayAddr ws = addr \<and>
    meta_overlayAddr (cl_local c) = addr \<and> meta_pubKey (cl_local c) = se_keyText W (ws_PubKey ws) \<and> node_name (cl_local c) = hostname \<and>
    cl_overlay c = cli_OverlayNet a' \<and> cluster_Identity E c = x \<and> same_records s (cl_set c)"
proof -
  obtain adv k port where W: "advertiseAddr (se_ifaces W) a = Inr adv" "se_platform W = None" "se_wgkey W = Some k"
    "se_transport W = Some port" "se_memberlist W"
    using assms(1) by (auto simp: world_ok_def)
  obtain adm where adm: "Lookup s x = Some adm" "overlay_Addr (cli_OverlayNet a') (adm_Host adm) = Some addr" and v: "valid s x"
    using assignedAddr_Inr [OF assms(2)] assms(7) by blast
  have host: "boot_Host (ed E) boot = Inr (adm_Host adm)" using boot_Host_Lookup [OF assms(2,4)] adm(1) assms(6) by simp
  let ?s0 = "fst (Merge (ed E) (NewSet (boot_Root boot)) (boot_Records boot))"
  have same: "same_records ?s0 s" using merge_records_same [OF assms(2)] assms(3,4) by simp
  have wf: "wf_set (ed E) ?s0" "wf_set (ed E) (fst (Valid ?s0 x))" by (intro wf_intros)+
  have member: "snd (Valid ?s0 x)" using valid_by [OF wf(1)] valid_same_records [OF same] v by simp
  have assigned: "snd (assignedAddr (fst (Valid ?s0 x)) (cli_OverlayNet a') x) = Inr addr"
    using assignedAddr_same [OF wf(2) assms(2) same_records_trans [OF Valid_same_records(1) same]] assms(7) by blast
  let ?wg = "\<lparr>wgc_Interface = cli_Interface a', wgc_Port = cli_WireguardPort a', wgc_OverlayAddr = addr,
      wgc_MTU = cli_MTU a', wgc_PersistentKeepalive = cli_PersistentKeepalive a', wgc_Userspace = cli_Userspace a'\<rparr>"
  obtain ws where ws: "wg_New W ?wg = Inr ws" "ws_overlayAddr ws = addr" using W by (simp add: wg_New_def newState_def)
  let ?local = "local_node a' hostname addr (se_keyText W (ws_PubKey ws))"
  let ?cfg = "\<lparr>cfg_path = path, cfg_OverlayNet = cli_OverlayNet a', cfg_LocalNode = Some ?local, cfg_Boot = Some boot\<rparr>"
  obtain c where c: "New E (se_save2 W) (Some port) True fs ?cfg = Inr c"
    using New_starts [of ?cfg boot ?local ?s0 E x "se_save2 W" port fs] member assigned assms(6) by (auto simp: local_node_def)
  have facts: "same_records ?s0 (cl_set c) \<and> cl_overlay c = cli_OverlayNet a' \<and> cl_id c = boot_Identity boot \<and>
      cl_local c = sign_node E (boot_Identity boot) ?local"
    by (rule New_member [OF c]) (simp add: pinned_def)
  have "agent_member E W a hostname path boot joinAddrs fs = Inr (Started a' ws c joinAddrs)"
    using W host adm(2) ws(1) c assms(5) by (simp add: agent_member_def)
  moreover have "same_records s (cl_set c)" using facts same by (simp add: same_records_def)
  ultimately show ?thesis
    using facts ws(2) assms(6) by (auto simp: sign_node_def local_node_def cluster_Identity_def)
qed

lemma settled:
  "settleOverlayNet net a = (a', None) \<Longrightarrow> 2 \<le> MaxHost (cli_OverlayNet a') \<and> (\<forall>p \<in> set (cli_AllowedIPs a'). \<not> overlaps p (cli_OverlayNet a'))"
  by (auto simp: settleOverlayNet_def checkOverlayNet_def Let_def find_None_iff split: if_splits option.splits)

text \<open>The set of a cluster that is its root alone.\<close>

lemma root_set:
  assumes "ed25519_correct C" and "wf_identity C i" and "name \<noteq> []" and "k = id_Public C i"
  shows "fst (Merge C (NewSet k) \<lparr>rs_Admissions = [SelfAdmit C i name now], rs_Revocations = []\<rparr>) =
    (NewSet k)\<lparr>set_admissions := [(k, SelfAdmit C i name now)]\<rparr>"
proof -
  let ?a = "SelfAdmit C i name now"
  have "accepts_admission C k ?a"
    using Admit_Validate [OF assms(1,2)] assms(3,4) by (simp add: accepts_admission_def SelfAdmit_def rootHost_def)
  then have "AddAdmission C (NewSet k) ?a = ((NewSet k)\<lparr>set_admissions := AList.update k ?a [], set_members := []\<rparr>, Inr True)"
    using AddAdmission_newer [of C "NewSet k" ?a] assms(4) by (simp add: NewSet_def newer_admission_def SelfAdmit_def)
  then show ?thesis by (simp add: Merge_def NewSet_def)
qed

lemma root_assigned:
  assumes "ed25519_correct C" and "wf_identity C i" and "name \<noteq> []" and "k = id_Public C i" and "2 \<le> MaxHost net"
    and "s = (NewSet k)\<lparr>set_admissions := [(k, SelfAdmit C i name now)]\<rparr>" and "wf_set C s"
  shows "\<exists>addr. overlay_Addr net 1 = Some addr \<and> snd (assignedAddr s net k) = Inr addr"
proof -
  have "(1 :: uint64) \<le> MaxHost net" using assms(5) by (simp add: word_le_nat_alt)
  then obtain addr where addr: "overlay_Addr net 1 = Some addr" using overlay_Addr_None [of net 1] by fastforce
  have "valid s k" using validAt_root [of s MaxInt64 "{}"] assms(6) by (simp add: valid_def withdrawn_def NewSet_def)
  moreover have "Lookup s k = Some (SelfAdmit C i name now)" by (simp add: assms(6) Lookup_def)
  moreover have "HostConflict s k = None"
    using assms(4) by (simp add: assms(6) HostConflict_def validAdmissions_def stronger_claim_def SelfAdmit_def find_None_iff)
  moreover have "adm_Host (SelfAdmit C i name now) = 1" by (simp add: SelfAdmit_def rootHost_def)
  ultimately show ?thesis using addr assignedAddr_Inr [OF assms(7)] by metis
qed

section \<open>Properties\<close>

text \<open>
  C33. The first node starts its cluster: an agent with no state, no join key and an overlay network
  of room for two nodes that its own networks do not overlap comes up as a member and root of a
  new cluster, with the first address of the network both announced to the peers and on its
  wireguard interface.
\<close>

theorem first_node_starts:
  assumes "ed25519_correct (ed E)" and "fs path = None" and "NewIdentity (ed E) (se_rand W) = Inr i" and "id_Public (ed E) i \<noteq> 0"
    and "state_save (state_json E) (se_save1 W) (empty_state\<lparr>st_Seed := id_Seed i\<rparr>) path fs = (trace, None)"
    and "prefix_is_valid (cli_OverlayNet a)" and "settleOverlayNet no_prefix a = (a', None)" and "hostname \<noteq> []" and "world_ok W a"
  shows "\<exists>ws c. agent_start E W [] a hostname path fs = (last trace, Inr (Started a' ws c (cli_Join a))) \<and>
    cluster_Identity E c = id_Public (ed E) i \<and> set_root (cl_set c) = cluster_Identity E c \<and> valid (cl_set c) (cluster_Identity E c) \<and>
    overlay_Addr (cli_OverlayNet a') 1 = Some (ws_overlayAddr ws) \<and> meta_overlayAddr (cl_local c) = ws_overlayAddr ws"
proof -
  let ?k = "id_Public (ed E) i" and ?st = "empty_state\<lparr>st_Seed := id_Seed i\<rparr>"
  have wfi: "wf_identity (ed E) i" using assms(3) by (auto simp: NewIdentity_def split: option.splits intro: wf_intros)
  have load: "Load (ed E) (state_json E) (se_rand W) (se_save1 W) (se_read_ok W) path fs = (last trace, Inr (boot_of i ?st))"
    using assms(2,3,5) IdentityFromSeed_seed [OF wfi] by (simp add: Load_def loadState_def empty_state_def Let_def)
  have new: "\<not> Enrolled (boot_of i ?st)" "boot_Identity (boot_of i ?st) = i" "boot_OverlayNet (boot_of i ?st) = no_prefix"
    by (simp_all add: Enrolled_def boot_of_def empty_state_def)
  let ?boot = "InitRoot (ed E) (boot_of i ?st) hostname (se_now W)"
  let ?s = "(NewSet ?k)\<lparr>set_admissions := [(?k, SelfAdmit (ed E) i hostname (se_now W))]\<rparr>"
  have boot: "agent_bootstrap (ed E) (se_dial W) [] a (boot_of i ?st) hostname (se_now W) = Inr (?boot, cli_Join a)"
    using new assms(6) by (simp add: agent_bootstrap_def)
  have s: "fst (Merge (ed E) (NewSet ?k) \<lparr>rs_Admissions = [SelfAdmit (ed E) i hostname (se_now W)], rs_Revocations = []\<rparr>) = ?s"
    by (rule root_set [OF assms(1) wfi assms(8) refl])
  have wf: "wf_set (ed E) ?s" unfolding s [symmetric] by (intro wf_intros)
  have b: "boot_Root ?boot = set_root ?s" "boot_Records ?boot = Records ?s" "boot_OverlayNet ?boot = no_prefix"
    "?k = id_Public (ed E) (boot_Identity ?boot)" "Enrolled ?boot"
    using new assms(4) by (simp_all add: InitRoot_def Records_def NewSet_def Enrolled_def)
  obtain addr where addr: "overlay_Addr (cli_OverlayNet a') 1 = Some addr" "snd (assignedAddr ?s (cli_OverlayNet a') ?k) = Inr addr"
    using root_assigned [OF assms(1) wfi assms(8) refl _ refl wf] settled [OF assms(7)] by blast
  obtain ws c where start: "agent_member E W a hostname path ?boot (cli_Join a) (last trace) = Inr (Started a' ws c (cli_Join a))"
    "ws_overlayAddr ws = addr" "meta_overlayAddr (cl_local c) = addr" "cluster_Identity E c = ?k" "same_records ?s (cl_set c)"
    using member_starts [OF assms(9) wf b(1,2) _ b(4) addr(2), of hostname path "cli_Join a" "last trace"] assms(7) b(3) by auto
  have "valid (cl_set c) ?k" using assignedAddr_Inr [OF wf] addr(2) valid_same_records [OF start(5)] by simp
  moreover have "set_root (cl_set c) = ?k" using start(5) b(1) by (simp add: same_records_def InitRoot_def new(2))
  ultimately show ?thesis
    using load boot b(5) start addr(1) by (simp add: agent_start_def)
qed

lemma agent_enrol_cases:
  "agent_enrol dial addrs e =
    (case List.find (\<lambda>x. \<not> isl (dial x)) addrs of
       Some x \<Rightarrow> Inr (projr (dial x))
     | None \<Rightarrow> Inl (if addrs = [] then e else Some (last addrs, projl (dial (last addrs)))))"
proof (induction addrs arbitrary: e)
  case (Cons x addrs)
  then show ?case by (cases "dial x") (auto split: option.splits)
qed simp

text \<open>
  C34. An enrolled node starts: an agent whose settings are valid and that is given a join key tries
  the members in their order and takes the first that admits it; with that member's records, in
  which it is assigned an address of the network it was told, it comes up as a member with that
  address announced and on its interface, and joins at the address the member gave. If no member
  admits it, it ends with the error of the last one, and in no case for want of a welcome.
\<close>

theorem enrolled_node_starts:
  assumes "agent_Validate joinKey a = None" and "joinKey \<noteq> []"
    and "Load (ed E) (state_json E) (se_rand W) (se_save1 W) (se_read_ok W) path fs = (fs1, Inr boot)" and "\<not> Enrolled boot"
    and "addrs = enrolAddrs (cli_Join a) (cli_ClusterPort a)" and "x = id_Public (ed E) (boot_Identity boot)" and "world_ok W a"
  shows "case List.find (\<lambda>m. \<not> isl (se_dial W m)) addrs of
      None \<Rightarrow> agent_start E W joinKey a hostname path fs = (fs1, Inl (EnrollingWith (last addrs) (projl (se_dial W (last addrs)))))
    | Some m \<Rightarrow>
        (\<forall>w member s addr.
          se_dial W m = Inr (w, member) \<and> w_Root w \<noteq> 0 \<and> wf_set (ed E) s \<and> set_root s = w_Root w \<and> w_Records w = Records s \<and>
          \<not> prefix_is_valid (cli_OverlayNet a) \<and> prefix_is_valid (w_OverlayNet w) \<and> checkOverlayNet (w_OverlayNet w) (cli_AllowedIPs a) = None \<and>
          snd (assignedAddr s (w_OverlayNet w) x) = Inr addr \<longrightarrow>
          (\<exists>a' ws c. agent_start E W joinKey a hostname path fs = (fs1, Inr (Started a' ws c [w_GossipAddr w])) \<and>
             cl_overlay c = w_OverlayNet w \<and> cluster_Identity E c = x \<and> valid (cl_set c) x \<and>
             ws_overlayAddr ws = addr \<and> meta_overlayAddr (cl_local c) = addr))"
proof (cases "List.find (\<lambda>m. \<not> isl (se_dial W m)) addrs")
  case None
  have "addrs \<noteq> []" using assms(1,2,5) by (auto simp: agent_Validate_def enrolAddrs_def split: if_splits)
  then have "agent_enrol (se_dial W) addrs None = Inl (Some (last addrs, projl (se_dial W (last addrs))))"
    using None by (simp add: agent_enrol_cases)
  then show ?thesis using None assms(2-5) by (simp add: agent_start_def agent_bootstrap_def)
next
  case (Some m)
  have "\<exists>a' ws c. agent_start E W joinKey a hostname path fs = (fs1, Inr (Started a' ws c [w_GossipAddr w])) \<and>
       cl_overlay c = w_OverlayNet w \<and> cluster_Identity E c = x \<and> valid (cl_set c) x \<and>
       ws_overlayAddr ws = addr \<and> meta_overlayAddr (cl_local c) = addr"
    if w: "se_dial W m = Inr (w, member)" "w_Root w \<noteq> 0" "wf_set (ed E) s" "set_root s = w_Root w" "w_Records w = Records s"
      "\<not> prefix_is_valid (cli_OverlayNet a)" "prefix_is_valid (w_OverlayNet w)" "checkOverlayNet (w_OverlayNet w) (cli_AllowedIPs a) = None"
      "snd (assignedAddr s (w_OverlayNet w) x) = Inr addr" for w member s addr
  proof -
    let ?boot = "boot_Enrol boot (w_Root w) (w_Records w) (w_OverlayNet w)" and ?a = "a\<lparr>cli_OverlayNet := w_OverlayNet w\<rparr>"
    have "agent_enrol (se_dial W) addrs None = Inr (w, member)" using Some w(1) by (simp add: agent_enrol_cases)
    then have boot: "agent_bootstrap (ed E) (se_dial W) joinKey a boot hostname (se_now W) = Inr (?boot, [w_GossipAddr w])"
      using assms(2,4,5) by (simp add: agent_bootstrap_def)
    have b: "boot_Root ?boot = set_root s" "boot_Records ?boot = Records s" "Enrolled ?boot" "x = id_Public (ed E) (boot_Identity ?boot)"
      "settleOverlayNet (boot_OverlayNet ?boot) a = (?a, None)"
      using w assms(6) by (simp_all add: boot_Enrol_def Enrolled_def settleOverlayNet_def)
    have "snd (assignedAddr s (cli_OverlayNet ?a) x) = Inr addr" using w(9) by simp
    from member_starts [OF assms(7) w(3) b(1,2,5,4) this, of hostname path "[w_GossipAddr w]" fs1]
    obtain ws c where start: "agent_member E W a hostname path ?boot [w_GossipAddr w] fs1 = Inr (Started ?a ws c [w_GossipAddr w])"
      "ws_overlayAddr ws = addr" "meta_overlayAddr (cl_local c) = addr" "cl_overlay c = w_OverlayNet w" "cluster_Identity E c = x"
      "same_records s (cl_set c)"
      by auto
    have "valid (cl_set c) x" using assignedAddr_Inr [OF w(3)] w(9) valid_same_records [OF start(6)] by simp
    then show ?thesis using assms(3) boot b(3) start by (auto simp: agent_start_def)
  qed
  then show ?thesis using Some by auto
qed

section \<open>Witnesses\<close>

definition demo_welcome :: welcome_msg where
  "demo_welcome = \<lparr>w_Root = 1, w_Records = Records demo_set, w_Admission = demo_admission 1 2 ''b'' 2 100, w_GossipAddr = ''192.0.2.1:7946'',
     w_OverlayNet = demo_net, w_Error = []\<rparr>"

text \<open>A world in which everything succeeds, the seed generated is that of identity \<open>n\<close> and the member \<open>a:7946\<close> does not answer.\<close>

definition demo_start :: "nat \<Rightarrow> string start_env" where
  "demo_start n = \<lparr>se_rand = (\<lambda>len. Some (be_bytes len n)), se_read_ok = True, se_save1 = demo_faults True, se_save2 = demo_faults True,
     se_dial = (\<lambda>m. if m = ''a:1'' then Inl ''timeout'' else Inr (demo_welcome, 1)), se_now = 100, se_ifaces = None, se_platform = None,
     se_wgkey = Some [1], se_publicOf = (\<lambda>k. k), se_keyText = (\<lambda>_. ''k''), se_transport = Some 7946, se_memberlist = True\<rparr>"

definition demo_flags :: settings where
  "demo_flags = demo_settings\<lparr>cli_BindAddr := Addr4 0xC0000207, cli_Join := [''a:1'', ''b:1'']\<rparr>"

lemma demo_world_ok: "world_ok (demo_start n) (demo_flags\<lparr>cli_OverlayNet := net\<rparr>)"
  by (simp add: world_ok_def demo_start_def demo_flags_def advertiseAddr_def)

lemma demo_new_identity: "NewIdentity demo_ed25519 (se_rand (demo_start n)) = Inr (demo_identity n)"
  by (simp add: NewIdentity_def demo_start_def IdentityFromSeed_def seedLen_def demo_identity_def demo_ed25519_def del: be_bytes_numeral)

lemma demo_settled: "settleOverlayNet no_prefix (demo_flags\<lparr>cli_OverlayNet := demo_net\<rparr>) = (demo_flags\<lparr>cli_OverlayNet := demo_net\<rparr>, None)"
proof -
  have "masked demo_net = demo_net" "prefix_is_valid demo_net" "\<not> MaxHost demo_net < 2" by code_simp+
  then show ?thesis by (simp add: settleOverlayNet_def checkOverlayNet_def demo_flags_def demo_settings_def)
qed

lemma demo_lib_simps: "ed demo_cluster_lib = demo_ed25519" "state_json demo_cluster_lib = demo_codec"
  by (simp_all add: demo_cluster_lib_def)

theorem first_node_starts_witness:
  "\<exists>fs1 a' ws c. agent_start demo_cluster_lib (demo_start 1) [] (demo_flags\<lparr>cli_OverlayNet := demo_net\<rparr>) ''a'' ''p'' Map.empty =
     (fs1, Inr (Started a' ws c [''a:1'', ''b:1''])) \<and> overlay_Addr demo_net 1 = Some (ws_overlayAddr ws)"
proof -
  let ?a = "demo_flags\<lparr>cli_OverlayNet := demo_net\<rparr>"
  let ?trace = "fst (state_save demo_codec (demo_faults True) (empty_state\<lparr>st_Seed := id_Seed (demo_identity 1)\<rparr>) ''p'' Map.empty)"
  have new: "NewIdentity (ed demo_cluster_lib) (se_rand (demo_start 1)) = Inr (demo_identity 1)"
    using demo_new_identity by (simp only: demo_lib_simps)
  have key: "id_Public (ed demo_cluster_lib) (demo_identity 1) \<noteq> 0" by (simp add: demo_lib_simps)
  have "snd (state_save demo_codec (demo_faults True) (empty_state\<lparr>st_Seed := id_Seed (demo_identity 1)\<rparr>) ''p'' Map.empty) = None"
    by (rule demo_save_ok)
  then have "state_save (state_json demo_cluster_lib) (se_save1 (demo_start 1)) (empty_state\<lparr>st_Seed := id_Seed (demo_identity 1)\<rparr>) ''p'' Map.empty =
      (?trace, None)"
    by (simp add: prod_eq_iff demo_lib_simps demo_start_def)
  moreover have "prefix_is_valid (cli_OverlayNet ?a)" by simp code_simp
  ultimately have "\<exists>ws c. agent_start demo_cluster_lib (demo_start 1) [] ?a ''a'' ''p'' Map.empty = (last ?trace, Inr (Started ?a ws c (cli_Join ?a))) \<and>
      cluster_Identity demo_cluster_lib c = id_Public (ed demo_cluster_lib) (demo_identity 1) \<and> set_root (cl_set c) = cluster_Identity demo_cluster_lib c \<and>
      valid (cl_set c) (cluster_Identity demo_cluster_lib c) \<and>
      overlay_Addr (cli_OverlayNet ?a) 1 = Some (ws_overlayAddr ws) \<and> meta_overlayAddr (cl_local c) = ws_overlayAddr ws"
    using demo_settled demo_world_ok by (intro first_node_starts [OF _ _ new key]) (simp_all add: demo_lib_simps)
  then show ?thesis by (auto simp: demo_flags_def)
qed

theorem enrolled_node_starts_witness:
  "\<exists>fs1 a' ws c. agent_start demo_cluster_lib (demo_start 2) ''token'' (demo_flags\<lparr>cli_OverlayNet := no_prefix\<rparr>) ''b'' ''p'' Map.empty =
     (fs1, Inr (Started a' ws c [''192.0.2.1:7946''])) \<and> ws_overlayAddr ws = Addr4 0x0A000002 \<and> valid (cl_set c) 2"
proof -
  let ?E = demo_cluster_lib and ?W = "demo_start 2" and ?a = "demo_flags\<lparr>cli_OverlayNet := no_prefix\<rparr>"
  let ?st = "empty_state\<lparr>st_Seed := id_Seed (demo_identity 2)\<rparr>"
  let ?boot = "boot_of (demo_identity 2) ?st"
  have save: "snd (state_save demo_codec (demo_faults True) ?st ''p'' Map.empty) = None" by (rule demo_save_ok)
  have load: "Load (ed ?E) (state_json ?E) (se_rand ?W) (se_save1 ?W) (se_read_ok ?W) ''p'' Map.empty =
      (last (fst (state_save demo_codec (demo_faults True) ?st ''p'' Map.empty)), Inr ?boot)"
    using demo_new_identity [of 2] save IdentityFromSeed_seed [OF wf_demo_identity, of 2]
    by (simp add: Load_def loadState_def empty_state_def demo_lib_simps Let_def case_prod_beta) (simp add: demo_start_def)
  have valid_settings: "agent_Validate ''token'' ?a = None"
    by (simp add: agent_Validate_def settings_check_def demo_flags_def demo_settings_def no_prefix_def prefix_is_valid_def)
  have new: "\<not> Enrolled ?boot" "id_Public (ed ?E) (boot_Identity ?boot) = 2"
    by (simp_all add: Enrolled_def boot_of_def empty_state_def demo_lib_simps)
  have splits: "SplitHostPort ''a:1'' = Inr (''a'', ''1'')" "SplitHostPort ''b:1'' = Inr (''b'', ''1'')" by code_simp+
  have addrs: "enrolAddrs (cli_Join ?a) (cli_ClusterPort ?a) = [''a:1'', ''b:1'']"
    by (simp add: enrolAddrs_def demo_flags_def splits)
  have found: "List.find (\<lambda>m. \<not> isl (se_dial ?W m)) (enrolAddrs (cli_Join ?a) (cli_ClusterPort ?a)) = Some ''b:1''"
    unfolding addrs by (simp add: demo_start_def)
  have w: "se_dial ?W ''b:1'' = Inr (demo_welcome, 1)" by (simp add: demo_start_def)
  have facts: "w_Root demo_welcome \<noteq> 0" "set_root demo_set = w_Root demo_welcome" "w_Records demo_welcome = Records demo_set"
    "\<not> prefix_is_valid (cli_OverlayNet ?a)" "prefix_is_valid (w_OverlayNet demo_welcome)" "checkOverlayNet (w_OverlayNet demo_welcome) (cli_AllowedIPs ?a) = None"
  proof -
    show "prefix_is_valid (w_OverlayNet demo_welcome)" unfolding demo_welcome_def by simp code_simp
    have "\<not> MaxHost demo_net < 2" by code_simp
    then show "checkOverlayNet (w_OverlayNet demo_welcome) (cli_AllowedIPs ?a) = None"
      by (simp add: checkOverlayNet_def demo_welcome_def demo_flags_def demo_settings_def)
  qed (simp_all add: demo_welcome_def demo_set_eq no_prefix_def prefix_is_valid_def)
  have assigned: "snd (assignedAddr demo_set (w_OverlayNet demo_welcome) 2) = Inr (Addr4 0x0A000002)"
    using demo_assigned by (simp add: demo_welcome_def)
  have wf: "wf_set (ed ?E) demo_set" using demo_set_wf by (simp add: demo_lib_simps)
  note starts = enrolled_node_starts [OF valid_settings _ load new(1) refl refl demo_world_ok, of "''b''", unfolded found option.case new(2), rule_format]
  have "\<exists>a' ws c. agent_start ?E ?W ''token'' ?a ''b'' ''p'' Map.empty =
      (last (fst (state_save demo_codec (demo_faults True) ?st ''p'' Map.empty)), Inr (Started a' ws c [w_GossipAddr demo_welcome])) \<and>
      cl_overlay c = w_OverlayNet demo_welcome \<and> cluster_Identity ?E c = 2 \<and> valid (cl_set c) 2 \<and>
      ws_overlayAddr ws = Addr4 0x0A000002 \<and> meta_overlayAddr (cl_local c) = Addr4 0x0A000002"
    by (rule starts) (use w facts assigned wf in auto)
  then show ?thesis by (auto simp: demo_welcome_def)
qed

end
