(* ===== verification/Service.thy ===== *)
theory Service
  imports Agent_Loop
begin

text \<open>
  The service managers the agent reports to: \<^verbatim>\<open>internal/notify\<close>, the Windows service runner of
  \<^verbatim>\<open>internal/cli/execute_windows.go\<close> and the commands of \<^verbatim>\<open>service_windows.go\<close> that register it.
  The runner's goroutine and the agent's are interleaved step by step; the channel to the manager is
  the sequence of states it receives.
\<close>

section \<open>Notifiers\<close>

text \<open>
  systemd: one datagram per notification, on the socket the environment names. The flags say
  whether the socket could be reached and the datagram written.
\<close>

definition systemd_Send :: "string \<Rightarrow> bool \<Rightarrow> bool \<Rightarrow> string list \<Rightarrow> string list \<times> bool" where
  "systemd_Send notify_socket dialled wrote assignments =
     (if notify_socket = '''' then ([], True)
      else if \<not> dialled then ([], False)
      else if \<not> wrote then ([], False)
      else ([Join_strings assignments [CHR 0x0A]], True))"

fun systemd_notify :: "string \<Rightarrow> bool \<Rightarrow> bool \<Rightarrow> notification \<Rightarrow> string list \<times> bool" where
  "systemd_notify sock dialled wrote (Ready s) = systemd_Send sock dialled wrote [''READY=1'', ''STATUS='' @ s]"
| "systemd_notify sock dialled wrote (notification.Status s) = systemd_Send sock dialled wrote [''STATUS='' @ s]"
| "systemd_notify sock dialled wrote Stopping = systemd_Send sock dialled wrote [''STOPPING=1'']"

text \<open>The notifier for no service manager.\<close>

definition none_notify :: "notification \<Rightarrow> string list \<times> bool" where
  "none_notify n = ([], True)"

text \<open>The Windows Service Control Manager: what it is sent, with the requests the service accepts.\<close>

datatype svc_state = StartPending | SvcRunning | StopPending | SvcStopped

datatype svc_cmd = Interrogate | SvcStop | SvcShutdown | OtherCmd

record svc_status =
  sv_State :: svc_state
  sv_Accepts :: "svc_cmd list"

fun scm_notify :: "notification \<Rightarrow> svc_status list" where
  "scm_notify (Ready s) = [\<lparr>sv_State = SvcRunning, sv_Accepts = [SvcStop, SvcShutdown]\<rparr>]"
| "scm_notify (notification.Status s) = []"
| "scm_notify Stopping = [\<lparr>sv_State = StopPending, sv_Accepts = []\<rparr>]"

section \<open>The service runner\<close>

text \<open>
  The agent's goroutine runs or has put what \<^verbatim>\<open>run\<close> answered into \<^verbatim>\<open>done\<close>, an error or none;
  \<open>sr_notes\<close> is what the agent told its notifier so far.
\<close>

record 'e service =
  sr_done :: "'e option option"
  sr_notes :: "notification list"
  sr_cancelled :: bool
  sr_changes :: "svc_status list"
  sr_returned :: "(bool \<times> nat) option"

definition service_start :: "'e service" where
  "service_start = \<lparr>sr_done = None, sr_notes = [], sr_cancelled = False,
     sr_changes = [\<lparr>sv_State = StartPending, sv_Accepts = []\<rparr>], sr_returned = None\<rparr>"

definition on_done :: "'e option \<Rightarrow> 'e service \<Rightarrow> 'e service" where
  "on_done err s =
     s\<lparr>sr_changes := sr_changes s @ [\<lparr>sv_State = SvcStopped, sv_Accepts = []\<rparr>],
       sr_returned := Some (if err \<noteq> None then (True, 1) else (False, 0))\<rparr>"

fun on_request :: "svc_cmd \<Rightarrow> svc_status \<Rightarrow> 'e service \<Rightarrow> 'e service" where
  "on_request Interrogate current s = s\<lparr>sr_changes := sr_changes s @ [current]\<rparr>"
| "on_request SvcStop current s = s\<lparr>sr_cancelled := True\<rparr>"
| "on_request SvcShutdown current s = s\<lparr>sr_cancelled := True\<rparr>"
| "on_request OtherCmd current s = s"

text \<open>
  The steps of the two goroutines: the agent reports, the agent ends, the runner takes the end of the
  agent or a request. The manager's requests carry the state it last received.
\<close>

inductive service_step :: "'e service \<Rightarrow> 'e service \<Rightarrow> bool" where
  reports: "sr_done s = None \<Longrightarrow> sr_returned s = None \<Longrightarrow>
    service_step s (s\<lparr>sr_notes := sr_notes s @ [n], sr_changes := sr_changes s @ scm_notify n\<rparr>)"
| ends: "sr_done s = None \<Longrightarrow> sr_returned s = None \<Longrightarrow> service_step s (s\<lparr>sr_done := Some err\<rparr>)"
| takes_end: "sr_done s = Some err \<Longrightarrow> sr_returned s = None \<Longrightarrow> service_step s (on_done err s)"
| takes_request: "sr_returned s = None \<Longrightarrow> current = last (sr_changes s) \<Longrightarrow> service_step s (on_request cmd current s)"

inductive_cases service_stepE: "service_step s s'"

inductive service_run :: "'e service \<Rightarrow> bool" where
  start: "service_run service_start"
| step: "service_run s \<Longrightarrow> service_step s s' \<Longrightarrow> service_run s'"

text \<open>\<^verbatim>\<open>Execute\<close>: where the command runs; the arguments say what the calls answer.\<close>

datatype execution = OnConsole | AsService | NotStarted

definition Execute_windows :: "bool option \<Rightarrow> bool \<Rightarrow> bool \<Rightarrow> bool \<Rightarrow> execution" where
  "Execute_windows isService level_ok mkdir log_opened =
     (case isService of
        None \<Rightarrow> NotStarted
      | Some False \<Rightarrow> OnConsole
      | Some True \<Rightarrow> if \<not> level_ok then NotStarted else if \<not> (mkdir \<and> log_opened) then NotStarted else AsService)"

section \<open>Registering the service\<close>

record service_config =
  sc_exe :: string
  sc_automatic :: bool
  sc_args :: "string list"

type_synonym services = "string \<Rightarrow> service_config option"

record mgr_faults =
  mf_exe :: "string option"
  mf_connect :: bool
  mf_open :: bool
  mf_create :: bool
  mf_delete :: bool

datatype service_error = NoExecutable | NoServiceManager | ServiceExists | CreatingService | NotInstalled | RemovingService

definition ServiceName :: string where
  "ServiceName = ''cheesecloth''"

text \<open>The manager creates no second service of a name; opening one that is there may fail.\<close>

definition service_install :: "mgr_faults \<Rightarrow> services \<Rightarrow> services \<times> service_error option" where
  "service_install f sv =
     (case mf_exe f of
        None \<Rightarrow> (sv, Some NoExecutable)
      | Some exe \<Rightarrow>
          if \<not> mf_connect f then (sv, Some NoServiceManager)
          else if sv ServiceName \<noteq> None \<and> mf_open f then (sv, Some ServiceExists)
          else if \<not> mf_create f \<or> sv ServiceName \<noteq> None then (sv, Some CreatingService)
          else (sv(ServiceName \<mapsto> \<lparr>sc_exe = exe, sc_automatic = True, sc_args = [''agent'']\<rparr>), None))"

definition service_uninstall :: "mgr_faults \<Rightarrow> services \<Rightarrow> services \<times> service_error option" where
  "service_uninstall f sv =
     (if \<not> mf_connect f then (sv, Some NoServiceManager)
      else if sv ServiceName = None \<or> \<not> mf_open f then (sv, Some NotInstalled)
      else if \<not> mf_delete f then (sv, Some RemovingService)
      else (sv(ServiceName := None), None))"

section \<open>What the manager sees\<close>

lemma remdups_adj_new: "x \<notin> set xs \<Longrightarrow> remdups_adj (xs @ [x]) = remdups_adj xs @ [x]"
  by (induction xs rule: remdups_adj.induct) auto

lemma remdups_adj_again: "xs \<noteq> [] \<Longrightarrow> remdups_adj (xs @ [last xs]) = remdups_adj xs"
  by (induction xs rule: remdups_adj.induct) auto

text \<open>What the manager is told of the notifications, in order.\<close>

definition told_states :: "notification list \<Rightarrow> svc_status list" where
  "told_states ns = \<lparr>sv_State = StartPending, sv_Accepts = []\<rparr> # concat (map scm_notify ns)"

definition stopped_status :: svc_status where
  "stopped_status = \<lparr>sv_State = SvcStopped, sv_Accepts = []\<rparr>"

lemma told_states_snoc: "told_states (ns @ [n]) = told_states ns @ scm_notify n"
  by (simp add: told_states_def)

lemma stopped_not_told: "stopped_status \<notin> set (told_states ns)"
proof -
  have "stopped_status \<notin> set (scm_notify n)" for n by (cases n) (simp_all add: stopped_status_def)
  then show ?thesis by (auto simp: told_states_def stopped_status_def)
qed

definition service_inv :: "'e service \<Rightarrow> bool" where
  "service_inv s \<longleftrightarrow> sr_changes s \<noteq> [] \<and>
     set (sr_changes s) = set (told_states (sr_notes s)) \<union> (if sr_returned s = None then {} else {stopped_status}) \<and>
     (distinct (told_states (sr_notes s)) \<longrightarrow>
        remdups_adj (sr_changes s) = told_states (sr_notes s) @ (if sr_returned s = None then [] else [stopped_status])) \<and>
     (\<forall>r. sr_returned s = Some r \<longrightarrow> last (sr_changes s) = stopped_status \<and>
        (\<exists>err. sr_done s = Some err \<and> r = (if err = None then (False, 0) else (True, 1))))"

lemma service_inv_notes:
  assumes "service_inv s" and "sr_returned s = None"
  shows "service_inv (s\<lparr>sr_notes := sr_notes s @ [n], sr_changes := sr_changes s @ scm_notify n\<rparr>)"
proof -
  have "scm_notify n = [] \<or> (\<exists>x. scm_notify n = [x])" by (cases n) simp_all
  then show ?thesis
  proof
    assume "\<exists>x. scm_notify n = [x]"
    then obtain x where x: "scm_notify n = [x]" ..
    have "distinct (told_states (sr_notes s) @ [x]) \<Longrightarrow> remdups_adj (sr_changes s @ [x]) = told_states (sr_notes s) @ [x]"
      using assms by (subst remdups_adj_new) (simp_all add: service_inv_def)
    then show ?thesis using assms by (simp add: service_inv_def told_states_snoc x)
  qed (use assms in \<open>simp add: service_inv_def told_states_snoc\<close>)
qed

lemma service_inv_done:
  assumes "service_inv s" and "sr_done s = Some err" and "sr_returned s = None"
  shows "service_inv (on_done err s)"
proof -
  have "stopped_status \<notin> set (sr_changes s)" using assms stopped_not_told by (simp add: service_inv_def)
  then show ?thesis
    using assms by (simp add: service_inv_def on_done_def stopped_status_def [symmetric] remdups_adj_new)
qed

lemma service_inv_request:
  assumes "service_inv s" and "sr_returned s = None"
  shows "service_inv (on_request cmd (last (sr_changes s)) s)"
proof (cases cmd)
  case Interrogate
  have "sr_changes s \<noteq> []" using assms by (simp add: service_inv_def)
  then have "remdups_adj (sr_changes s @ [last (sr_changes s)]) = remdups_adj (sr_changes s)" "insert (last (sr_changes s)) (set (sr_changes s)) = set (sr_changes s)"
    by (simp_all add: remdups_adj_again insert_absorb)
  then show ?thesis using assms Interrogate by (simp add: service_inv_def)
qed (use assms in \<open>simp_all add: service_inv_def\<close>)

lemma service_inv_step: "service_step s s' \<Longrightarrow> service_inv s \<Longrightarrow> service_inv s'"
proof (induction rule: service_step.induct)
  case (ends s err)
  then show ?case by (simp add: service_inv_def)
qed (simp_all add: service_inv_notes service_inv_done service_inv_request)

lemma service_run_inv: "service_run s \<Longrightarrow> service_inv s"
proof (induction rule: service_run.induct)
  case start
  show ?case by (simp add: service_inv_def service_start_def told_states_def)
qed (use service_inv_step in blast)

text \<open>
  The Windows service manager sees the life of the agent: under every interleaving of the agent's
  reports, the end of the agent and the manager's requests, the states it is told are start pending,
  then the agent's own in the order of its notifications, then stopped, which it is told exactly when
  the runner returns and as the last thing; repetitions only answer the question for the current
  state. The exit code is zero exactly when the agent ended without an error, a request to stop
  cancels the agent's context and nothing but one does, and a runner whose agent has ended can return.
\<close>

theorem service_reports_lifecycle:
  assumes "service_run s" and "distinct (told_states (sr_notes s))"
  shows "remdups_adj (sr_changes s) = told_states (sr_notes s) @ (if sr_returned s = None then [] else [stopped_status]) \<and>
    (sr_returned s = Some (failed, code) \<longrightarrow>
       last (sr_changes s) = stopped_status \<and> (\<exists>err. sr_done s = Some err \<and> failed = (err \<noteq> None) \<and> (code = 0 \<longleftrightarrow> err = None)) \<and>
       (\<forall>s'. \<not> service_step s s')) \<and>
    (sr_returned s = None \<longrightarrow> stopped_status \<notin> set (sr_changes s) \<and>
       (sr_done s \<noteq> None \<longrightarrow> (\<exists>s'. service_step s s' \<and> sr_returned s' \<noteq> None)) \<and>
       (\<forall>cmd current. sr_cancelled (on_request cmd current s) \<longleftrightarrow> sr_cancelled s \<or> cmd = SvcStop \<or> cmd = SvcShutdown))"
proof -
  have inv: "service_inv s" using assms(1) by (rule service_run_inv)
  have "sr_cancelled (on_request cmd current s) \<longleftrightarrow> sr_cancelled s \<or> cmd = SvcStop \<or> cmd = SvcShutdown" for cmd current
    by (cases cmd) simp_all
  moreover have "\<exists>s'. service_step s s' \<and> sr_returned s' \<noteq> None" if "sr_done s \<noteq> None" "sr_returned s = None"
    using that service_step.takes_end [of s] by (force simp: on_done_def)
  moreover have "\<not> service_step s s'" if "sr_returned s \<noteq> None" for s' using that by (auto elim: service_stepE)
  ultimately show ?thesis
    using inv assms(2) stopped_not_told [of "sr_notes s"] by (auto simp: service_inv_def split: if_splits)
qed

text \<open>The agent's notifications, whatever the snapshots, never tell the same state twice.\<close>

lemma agent_notes_told_once:
  assumes "\<not> ag_ready g" and "ag_notes g = []"
  shows "distinct (told_states (ag_notes (fst (agent_loop P parse E a g evs))))"
proof -
  have silent: "concat (map (\<lambda>e. []) es) = ([] :: svc_status list)" for es :: "agent_event list" by (induction es) simp_all
  have "end_notes evs = [] \<or> end_notes evs = [Stopping]"
    by (auto simp: end_notes_def split: list.split agent_event.split)
  then show ?thesis
    unfolding ready_reported_once [OF assms] by (auto simp: told_states_def comp_def silent simp del: concat_eq_Nil_conv split: list.split)
qed

theorem service_reports_lifecycle_witness:
  "\<exists>s :: unit service. service_run s \<and> sr_returned s = Some (False, 0) \<and>
     remdups_adj (sr_changes s) = told_states [Ready ''1 peer'', Stopping] @ [stopped_status]"
proof -
  let ?s0 = "service_start :: unit service"
  let ?s1 = "?s0\<lparr>sr_notes := [Ready ''1 peer''], sr_changes := sr_changes ?s0 @ scm_notify (Ready ''1 peer'')\<rparr>"
  let ?s2 = "on_request SvcStop (last (sr_changes ?s1)) ?s1"
  let ?s3 = "?s2\<lparr>sr_notes := [Ready ''1 peer'', Stopping], sr_changes := sr_changes ?s2 @ scm_notify Stopping\<rparr>"
  let ?s4 = "?s3\<lparr>sr_done := Some None\<rparr>"
  let ?s5 = "on_done None ?s4"
  have "service_step ?s0 ?s1" using service_step.reports [of ?s0 "Ready ''1 peer''"] by (simp add: service_start_def)
  moreover have "service_step ?s1 ?s2" by (rule service_step.takes_request) (simp_all add: service_start_def)
  moreover have "service_step ?s2 ?s3" using service_step.reports [of ?s2 Stopping] by (simp add: service_start_def)
  moreover have "service_step ?s3 ?s4" by (rule service_step.ends) (simp_all add: service_start_def)
  moreover have "service_step ?s4 ?s5" by (rule service_step.takes_end) (simp_all add: service_start_def)
  ultimately have run: "service_run ?s5" by (meson service_run.intros)
  have ret: "sr_returned ?s5 = Some (False, 0)" "sr_notes ?s5 = [Ready ''1 peer'', Stopping]" by (simp_all add: on_done_def service_start_def)
  have "distinct (told_states (sr_notes ?s5))" unfolding ret(2) by (simp add: told_states_def)
  from service_reports_lifecycle [OF run this] show ?thesis using run ret by fastforce
qed

lemma install_uninstall:
  assumes "service_install f sv = (sv1, None)" and "mf_connect g" "mf_open g" "mf_delete g"
  shows "service_uninstall g sv1 = (sv, None) \<and> (\<forall>h. fst (service_install h sv1) = sv1 \<and> snd (service_install h sv1) \<noteq> None)"
proof -
  obtain exe where "sv ServiceName = None" "sv1 = sv(ServiceName \<mapsto> \<lparr>sc_exe = exe, sc_automatic = True, sc_args = [''agent'']\<rparr>)"
    using assms(1) by (auto simp: service_install_def split: option.splits if_splits)
  then show ?thesis using assms by (auto simp: service_install_def service_uninstall_def fun_upd_idem split: option.split)
qed

end
