(* ===== verification/Config.thy ===== *)
theory Config
  imports Settings Go_Text
begin

text \<open>
  The configuration file, \<^verbatim>\<open>internal/cli/config.go\<close>: a YAML file with a section per interface, of which
  the one the command acts on gives the flags their values. The YAML decoder is a parameter, and so
  is the type \<open>'v\<close> of a value in a section, which kong converts to what the flag holds. A section and
  the file are Go maps; as everywhere the order of the list stands for the order of iteration.
\<close>

section \<open>Reading the file\<close>

text \<open>A value at the top level of the file: a mapping with strings for keys, or anything else.\<close>

datatype 'v yaml_top = Mapping "(string \<times> 'v) list" | NotMapping

datatype 'v yaml_file = YamlFile "(string \<times> 'v yaml_top) list" | YamlEmpty | YamlError

type_synonym 'v cfg_section = "(string \<times> 'v) list"

type_synonym 'v cfg_sections = "(string \<times> 'v cfg_section) list"

datatype config_error =
    ParsingConfig | NotASection string | InterfaceInSection string | CommandLineOnly string | UnknownSettings "string list"
  | SeveralSections "string list"

definition commandLineOnly :: "string list" where
  "commandLineOnly = [''join-key'', ''config'']"

definition notSettings :: "string list" where
  "notSettings = [''help'', ''version'', ''init'']"

fun parse_tops :: "(string \<times> 'v yaml_top) list \<Rightarrow> config_error + 'v cfg_sections" where
  "parse_tops [] = Inr []"
| "parse_tops ((name, v) # rest) =
     (case v of
        NotMapping \<Rightarrow> Inl (NotASection name)
      | Mapping sec \<Rightarrow>
          if map_of sec ''interface'' \<noteq> None then Inl (InterfaceInSection name)
          else (case parse_tops rest of Inl e \<Rightarrow> Inl e | Inr secs \<Rightarrow> Inr ((name, sec) # secs)))"

definition parseSections :: "('r \<Rightarrow> 'v yaml_file) \<Rightarrow> 'r \<Rightarrow> config_error + 'v cfg_sections" where
  "parseSections decode r =
     (case decode r of
        YamlError \<Rightarrow> Inl ParsingConfig
      | YamlEmpty \<Rightarrow> parse_tops []
      | YamlFile file \<Rightarrow> parse_tops file)"

definition selectSection :: "'v cfg_sections \<Rightarrow> string \<Rightarrow> string \<times> 'v cfg_section \<times> bool" where
  "selectSection sections iface =
     (if iface \<noteq> '''' then (iface, case map_of sections iface of None \<Rightarrow> [] | Some s \<Rightarrow> s, False)
      else
        (case sections of
           [] \<Rightarrow> ('''', [], False)
         | [(name, values)] \<Rightarrow> (name, values, False)
         | _ \<Rightarrow> ('''', [], True)))"

record 'v configResolver =
  cr_sections :: "'v cfg_sections"
  cr_iface :: string
  cr_values :: "'v cfg_section"
  cr_ambiguous :: bool

definition configLoader :: "('r \<Rightarrow> 'v yaml_file) \<Rightarrow> string \<Rightarrow> 'r \<Rightarrow> config_error + 'v configResolver" where
  "configLoader decode iface r =
     (case parseSections decode r of
        Inl e \<Rightarrow> Inl e
      | Inr sections \<Rightarrow>
          (case selectSection sections iface of
             (name, values, ambiguous) \<Rightarrow>
               Inr \<lparr>cr_sections = sections, cr_iface = name, cr_values = values, cr_ambiguous = ambiguous\<rparr>))"

section \<open>Validating and resolving\<close>

text \<open>A command of kong's tree: its flags and its subcommands.\<close>

datatype kong_node = KongNode "string list" "kong_node list"

fun collectFlags :: "kong_node \<Rightarrow> string list" where
  "collectFlags (KongNode flags children) = flags @ concat (map collectFlags children)"

fun check_keys :: "string list \<Rightarrow> string list \<Rightarrow> string list \<Rightarrow> config_error + string list" where
  "check_keys known bad [] = Inr bad"
| "check_keys known bad (key # keys) =
     (if key \<in> set commandLineOnly then Inl (CommandLineOnly key)
      else check_keys known (if key \<notin> set known \<or> key \<in> set notSettings then bad @ [key] else bad) keys)"

text \<open>\<open>sections\<close> in the order of their names.\<close>

fun check_sections :: "string list \<Rightarrow> string list \<Rightarrow> 'v cfg_sections \<Rightarrow> config_error + string list" where
  "check_sections known bad [] = Inr bad"
| "check_sections known bad ((name, values) # sections) =
     (case check_keys known bad (map fst values) of
        Inl e \<Rightarrow> Inl e
      | Inr bad' \<Rightarrow> check_sections known bad' sections)"

definition config_Validate :: "kong_node \<Rightarrow> 'v configResolver \<Rightarrow> config_error option" where
  "config_Validate app c =
     (case check_sections (collectFlags app) [] (sort_key fst (cr_sections c)) of
        Inl e \<Rightarrow> Some e
      | Inr bad \<Rightarrow> if bad \<noteq> [] then Some (UnknownSettings (remdups_adj (sort bad))) else None)"

definition configCmdName :: string where
  "configCmdName = ''config''"

definition dumpsEverySection :: "string option \<Rightarrow> bool" where
  "dumpsEverySection selected \<longleftrightarrow> selected = Some configCmdName"

text \<open>What kong is told of a flag: nothing, the name of the interface, or a value of the section.\<close>

datatype 'v resolution = Nothing | TheInterface string | TheValue 'v

definition Resolve :: "'v configResolver \<Rightarrow> string option \<Rightarrow> string \<Rightarrow> config_error + 'v resolution" where
  "Resolve c selected flag =
     (if flag = ''interface'' then
        if cr_ambiguous c \<and> \<not> dumpsEverySection selected then Inl (SeveralSections (sort (map fst (cr_sections c))))
        else if cr_iface c = '''' then Inr Nothing
        else Inr (TheInterface (cr_iface c))
      else
        (case map_of (cr_values c) flag of
           None \<Rightarrow> Inr Nothing
         | Some v \<Rightarrow> if flag \<in> set commandLineOnly then Inl (CommandLineOnly flag) else Inr (TheValue v)))"

definition iface_flag :: string where
  "iface_flag = ''--interface''"

fun interfaceArg :: "string list \<Rightarrow> string" where
  "interfaceArg [] = ''''"
| "interfaceArg (arg # args) =
     (if take 12 arg = iface_flag @ ''='' then drop 12 arg
      else if arg = iface_flag \<and> args \<noteq> [] then hd args
      else interfaceArg args)"

section \<open>Laws\<close>

lemma parse_tops_Inr: "parse_tops tops = Inr secs \<longleftrightarrow>
    tops = map (\<lambda>(name, sec). (name, Mapping sec)) secs \<and> (\<forall>(name, sec) \<in> set secs. map_of sec ''interface'' = None)"
proof (induction tops arbitrary: secs)
  case Nil
  then show ?case by auto
next
  case (Cons f tops)
  obtain name v where f: "f = (name, v)" by (cases f)
  show ?case
  proof (cases v)
    case NotMapping
    then show ?thesis by (auto simp: f)
  next
    case (Mapping sec)
    have "map (\<lambda>(name, sec). (name, Mapping sec)) xs = map (\<lambda>(name, sec). (name, Mapping sec)) ys \<longleftrightarrow> xs = ys" for xs ys :: "'a cfg_sections"
      by (intro inj_map_eq_map injI) auto
    then show ?thesis using Mapping Cons.IH by (cases secs) (auto simp: f split: sum.split)
  qed
qed

text \<open>The keys of every section.\<close>

definition config_keys :: "'v cfg_sections \<Rightarrow> string set" where
  "config_keys sections = (\<Union>(name, values) \<in> set sections. fst ` set values)"

text \<open>What a key has to be to count as a setting.\<close>

definition bad_key :: "string list \<Rightarrow> string \<Rightarrow> bool" where
  "bad_key known key \<longleftrightarrow> key \<notin> set known \<or> key \<in> set notSettings"

lemma check_keys_result: "check_keys known bad keys =
    (case List.find (\<lambda>k. k \<in> set commandLineOnly) keys of
       Some k \<Rightarrow> Inl (CommandLineOnly k)
     | None \<Rightarrow> Inr (bad @ filter (bad_key known) keys))"
  by (induction keys arbitrary: bad) (auto simp: bad_key_def split: option.split)

lemma check_sections_result: "check_sections known bad sections = check_keys known bad (concat (map (map fst \<circ> snd) sections))"
proof (induction sections arbitrary: bad)
  case (Cons s sections)
  have "check_keys known bad (xs @ ys) = (case check_keys known bad xs of Inl e \<Rightarrow> Inl e | Inr bad' \<Rightarrow> check_keys known bad' ys)" for bad xs ys
    by (induction xs arbitrary: bad) simp_all
  then show ?case using Cons by (cases s) (simp split: sum.split)
qed simp

lemma sorted_keys: "set (concat (map (map fst \<circ> snd) (sort_key fst sections))) = config_keys sections"
  by (force simp: config_keys_def)

lemma sorted_remdups_adj_distinct: "sorted xs \<Longrightarrow> distinct (remdups_adj xs)"
proof (induction xs rule: remdups_adj.induct)
  case (3 x y xs)
  then show ?case by (auto simp: antisym)
qed simp_all

text \<open>Validation passes exactly if every key is a setting, and says which are not.\<close>

lemma Validate_exact:
  "(config_Validate app c = None \<longleftrightarrow>
      (\<forall>key \<in> config_keys (cr_sections c). key \<in> set (collectFlags app) \<and> key \<notin> set notSettings \<and> key \<notin> set commandLineOnly)) \<and>
   (case config_Validate app c of
      None \<Rightarrow> True
    | Some (CommandLineOnly key) \<Rightarrow> key \<in> config_keys (cr_sections c) \<and> key \<in> set commandLineOnly
    | Some (UnknownSettings keys) \<Rightarrow> sorted keys \<and> distinct keys \<and> config_keys (cr_sections c) \<inter> set commandLineOnly = {} \<and>
        set keys = {key \<in> config_keys (cr_sections c). key \<notin> set (collectFlags app) \<or> key \<in> set notSettings}
    | Some _ \<Rightarrow> False)"
proof -
  let ?keys = "concat (map (map fst \<circ> snd) (sort_key fst (cr_sections c)))" and ?known = "collectFlags app"
  have keys: "set ?keys = config_keys (cr_sections c)" by (rule sorted_keys)
  show ?thesis
  proof (cases "List.find (\<lambda>k. k \<in> set commandLineOnly) ?keys")
    case (Some k)
    then have "config_Validate app c = Some (CommandLineOnly k)" by (simp add: config_Validate_def check_sections_result check_keys_result)
    moreover have "k \<in> set ?keys \<and> k \<in> set commandLineOnly"
      using Some by (metis (no_types, lifting) find_Some_iff nth_mem)
    then have "k \<in> config_keys (cr_sections c) \<and> k \<in> set commandLineOnly" unfolding keys .
    ultimately show ?thesis by auto
  next
    case None
    then have v: "config_Validate app c =
        (if filter (bad_key ?known) ?keys \<noteq> [] then Some (UnknownSettings (remdups_adj (sort (filter (bad_key ?known) ?keys)))) else None)"
      by (simp add: config_Validate_def check_sections_result check_keys_result)
    have none: "config_keys (cr_sections c) \<inter> set commandLineOnly = {}" using None unfolding keys [symmetric] by (auto simp: find_None_iff)
    have bad: "set (filter (bad_key ?known) ?keys) = {key \<in> config_keys (cr_sections c). key \<notin> set ?known \<or> key \<in> set notSettings}"
      unfolding keys [symmetric] by (auto simp: bad_key_def)
    have "filter (bad_key ?known) ?keys \<noteq> [] \<longleftrightarrow> (\<exists>key \<in> config_keys (cr_sections c). key \<notin> set ?known \<or> key \<in> set notSettings)"
      using bad by (metis (mono_tags, lifting) Collect_empty_eq set_empty)
    then show ?thesis using none bad unfolding v
      by (auto simp del: set_filter simp: sorted_remdups_adj_distinct)
  qed
qed

lemma parse_tops_Inl:
  "parse_tops tops = Inl e \<Longrightarrow> (\<exists>name. e = NotASection name \<and> (name, NotMapping) \<in> set tops) \<or>
    (\<exists>name sec. e = InterfaceInSection name \<and> (name, Mapping sec) \<in> set tops \<and> map_of sec ''interface'' \<noteq> None)"
proof (induction tops)
  case (Cons f tops)
  obtain name v where f: "f = (name, v)" by (cases f)
  show ?case
  proof (cases v)
    case NotMapping
    then show ?thesis using Cons.prems by (auto simp: f)
  next
    case (Mapping sec)
    show ?thesis
    proof (cases "map_of sec ''interface''")
      case None
      then have "parse_tops tops = Inl e" using Cons.prems Mapping by (simp add: f split: sum.splits)
      from Cons.IH [OF this] show ?thesis by auto
    next
      case (Some x)
      then have "e = InterfaceInSection name" using Cons.prems Mapping by (simp add: f)
      then show ?thesis using Some Mapping by (auto simp: f)
    qed
  qed
qed simp

section \<open>Properties\<close>

text \<open>What kong does with a file before a command runs: it loads it and has the resolver validated.\<close>

definition load_and_validate :: "('r \<Rightarrow> 'v yaml_file) \<Rightarrow> string \<Rightarrow> kong_node \<Rightarrow> 'r \<Rightarrow> config_error + 'v configResolver" where
  "load_and_validate decode iface app r =
     (case configLoader decode iface r of
        Inl e \<Rightarrow> Inl e
      | Inr c \<Rightarrow> (case config_Validate app c of Some e \<Rightarrow> Inl e | None \<Rightarrow> Inr c))"

text \<open>A section of the file with settings for keys, and the keys of a file.\<close>

definition setting :: "kong_node \<Rightarrow> string \<Rightarrow> bool" where
  "setting app key \<longleftrightarrow> key \<in> set (collectFlags app) \<and> key \<notin> set notSettings \<and> key \<notin> set commandLineOnly \<and> key \<noteq> ''interface''"

definition file_keys :: "(string \<times> 'v yaml_top) list \<Rightarrow> string set" where
  "file_keys tops = {key. \<exists>name sec. (name, Mapping sec) \<in> set tops \<and> key \<in> fst ` set sec}"

lemma file_keys_sections: "file_keys (map (\<lambda>(name, sec). (name, Mapping sec)) secs) = config_keys secs"
  by (force simp: file_keys_def config_keys_def)

text \<open>
  C39. Loading a configuration file and validating it accepts exactly the files of the right form
  with the right keys: the file is empty or a mapping whose every value is a mapping, and every key
  of every section, not only of the selected one, is the name of a flag of the command tree that is
  a setting, may stand in a file, and is not the interface, which the section names. Otherwise the
  error names a value that is no section, a section that sets the interface, a key that belongs on
  the command line, or every unknown key of the file, each once, in order. The values of the keys
  are kong's to check, and which section applies is settled when the flags are resolved.
\<close>

theorem config_keys_checked:
  fixes decode :: "'r \<Rightarrow> 'v yaml_file"
  defines "file \<equiv> \<lambda>r. case decode r of YamlFile tops \<Rightarrow> tops | _ \<Rightarrow> []"
  shows "((\<exists>c. load_and_validate decode iface app r = Inr c) \<longleftrightarrow>
      decode r \<noteq> YamlError \<and> (\<forall>(name, v) \<in> set (file r). \<exists>sec. v = Mapping sec \<and> (\<forall>key \<in> fst ` set sec. setting app key))) \<and>
    (case load_and_validate decode iface app r of
       Inr c \<Rightarrow> file r = map (\<lambda>(name, sec). (name, Mapping sec)) (cr_sections c)
     | Inl ParsingConfig \<Rightarrow> decode r = YamlError
     | Inl (NotASection name) \<Rightarrow> (name, NotMapping) \<in> set (file r)
     | Inl (InterfaceInSection name) \<Rightarrow> (\<exists>sec. (name, Mapping sec) \<in> set (file r) \<and> ''interface'' \<in> fst ` set sec)
     | Inl (CommandLineOnly key) \<Rightarrow> key \<in> file_keys (file r) \<and> key \<in> set commandLineOnly
     | Inl (UnknownSettings keys) \<Rightarrow> sorted keys \<and> distinct keys \<and> file_keys (file r) \<inter> set commandLineOnly = {} \<and>
         set keys = {key \<in> file_keys (file r). key \<notin> set (collectFlags app) \<or> key \<in> set notSettings}
     | Inl (SeveralSections _) \<Rightarrow> False)"
proof (cases "parseSections decode r")
  case (Inl e)
  then have run: "load_and_validate decode iface app r = Inl e" by (simp add: load_and_validate_def configLoader_def)
  have key: "map_of sec k \<noteq> None \<longleftrightarrow> k \<in> fst ` set sec" for sec :: "'v cfg_section" and k by (simp add: map_of_eq_None_iff)
  have "e = ParsingConfig \<and> decode r = YamlError \<or> parse_tops (file r) = Inl e"
    using Inl by (auto simp: parseSections_def file_def split: yaml_file.splits)
  then consider "e = ParsingConfig" "decode r = YamlError" | name where "e = NotASection name" "(name, NotMapping) \<in> set (file r)"
    | name sec where "e = InterfaceInSection name" "(name, Mapping sec) \<in> set (file r)" "''interface'' \<in> fst ` set sec"
    using parse_tops_Inl [of "file r" e] unfolding key by blast
  then show ?thesis
  proof cases
    case 1
    then show ?thesis by (simp add: run)
  next
    case (2 name)
    then show ?thesis by (auto simp: run)
  next
    case (3 name sec)
    have "\<not> (\<forall>(name, v) \<in> set (file r). \<exists>sec. v = Mapping sec \<and> (\<forall>key \<in> fst ` set sec. setting app key))"
    proof
      assume "\<forall>(name, v) \<in> set (file r). \<exists>sec. v = Mapping sec \<and> (\<forall>key \<in> fst ` set sec. setting app key)"
      then have "setting app ''interface''" using 3(2,3) by fastforce
      then show False by (simp add: setting_def)
    qed
    then show ?thesis using 3 unfolding run by auto
  qed
next
  case (Inr secs)
  then have tops: "decode r \<noteq> YamlError" "file r = map (\<lambda>(name, sec). (name, Mapping sec)) secs"
    and no_iface: "\<forall>(name, sec) \<in> set secs. map_of sec ''interface'' = None"
    by (auto simp: parseSections_def file_def parse_tops_Inr split: yaml_file.splits)
  obtain c where c: "configLoader decode iface r = Inr c" "cr_sections c = secs"
    using Inr by (cases "selectSection secs iface") (auto simp: configLoader_def)
  have keys: "file_keys (file r) = config_keys (cr_sections c)" by (simp add: tops(2) c(2) file_keys_sections)
  have form: "(\<forall>(name, v) \<in> set (file r). \<exists>sec. v = Mapping sec \<and> (\<forall>key \<in> fst ` set sec. setting app key)) \<longleftrightarrow>
      (\<forall>key \<in> config_keys (cr_sections c). key \<in> set (collectFlags app) \<and> key \<notin> set notSettings \<and> key \<notin> set commandLineOnly)"
  proof -
    have "\<forall>x \<in> set secs. \<forall>key \<in> set (snd x). fst key \<noteq> ''interface''"
      using no_iface unfolding case_prod_beta map_of_eq_None_iff by (metis imageI)
    then have "(\<forall>(name, v) \<in> set (file r). \<exists>sec. v = Mapping sec \<and> (\<forall>key \<in> fst ` set sec. setting app key)) \<longleftrightarrow>
        (\<forall>(name, sec) \<in> set secs. \<forall>key \<in> fst ` set sec. key \<in> set (collectFlags app) \<and> key \<notin> set notSettings \<and> key \<notin> set commandLineOnly)"
      unfolding tops(2) setting_def by (simp add: case_prod_beta)
    then show ?thesis by (simp add: c(2) config_keys_def case_prod_beta)
  qed
  note exact = Validate_exact [of app c]
  show ?thesis
  proof (cases "config_Validate app c")
    case None
    then show ?thesis using exact c tops form by (simp add: load_and_validate_def)
  next
    case (Some e)
    then have run: "load_and_validate decode iface app r = Inl e" using c by (simp add: load_and_validate_def)
    show ?thesis using exact Some form unfolding run keys by (cases e) simp_all
  qed
qed

definition demo_app :: kong_node where
  "demo_app = KongNode [''help'', ''config''] [KongNode [''mtu'', ''init''] [], KongNode [''join-key'', ''mtu''] []]"

definition demo_file :: "string list \<Rightarrow> nat yaml_file" where
  "demo_file keys = YamlFile [(''wg1'', Mapping (map (\<lambda>k. (k, 1)) keys)), (''wg0'', Mapping [(''mtu'', 1420)])]"

theorem config_keys_checked_witness:
  "(\<exists>c. load_and_validate demo_file ''wg0'' demo_app [''mtu''] = Inr c) \<and>
   \<not> (\<exists>c. load_and_validate demo_file ''wg0'' demo_app [''mtu'', ''interface''] = Inr c) \<and>
   \<not> (\<exists>c. load_and_validate demo_file ''wg0'' demo_app [''mut''] = Inr c)"
proof -
  note rule = config_keys_checked [of demo_file "''wg0''" demo_app, THEN conjunct1]
  have "setting demo_app ''mtu''" "\<not> setting demo_app ''interface''" "\<not> setting demo_app ''mut''"
    by (simp_all add: setting_def demo_app_def notSettings_def commandLineOnly_def)
  then show ?thesis unfolding rule by (simp add: demo_file_def)
qed

text \<open>The interface a command acts as: the one it was given, or the only one the file has.\<close>

definition chosen :: "'v cfg_sections \<Rightarrow> string \<Rightarrow> string option" where
  "chosen sections iface = (if iface \<noteq> [] then Some iface else if length sections = 1 then Some (fst (hd sections)) else None)"

lemma selectSection_chosen:
  "selectSection sections iface =
    (case chosen sections iface of
       None \<Rightarrow> ([], [], sections \<noteq> [])
     | Some name \<Rightarrow> (name, case map_of sections name of None \<Rightarrow> [] | Some s \<Rightarrow> s, False))"
  by (auto simp: selectSection_def chosen_def length_Suc_conv split: list.split)

text \<open>
  Only one section of the configuration file ever applies: a command that names an interface, or
  whose file has just one section, is told that interface and takes every flag the command line
  leaves open from that section alone, never one that belongs on the command line; a file with
  several sections and no interface given yields no value at all, and an error that names them all
  unless the command is the one that prints them. The sections are those of the file.
\<close>

theorem only_the_chosen_section_applies:
  assumes "configLoader decode (interfaceArg args) r = Inr c"
  shows "Resolve c selected ''interface'' =
      (case chosen (cr_sections c) (interfaceArg args) of
         None \<Rightarrow> if cr_sections c = [] \<or> selected = Some ''config'' then Inr Nothing else Inl (SeveralSections (sort (map fst (cr_sections c))))
       | Some name \<Rightarrow> if name = [] then Inr Nothing else Inr (TheInterface name)) \<and>
    (\<forall>flag. flag \<noteq> ''interface'' \<longrightarrow> Resolve c selected flag =
      (case Option.bind (chosen (cr_sections c) (interfaceArg args)) (\<lambda>name. Option.bind (map_of (cr_sections c) name) (\<lambda>section. map_of section flag)) of
         None \<Rightarrow> Inr Nothing
       | Some v \<Rightarrow> if flag = ''join-key'' \<or> flag = ''config'' then Inl (CommandLineOnly flag) else Inr (TheValue v))) \<and>
    (\<forall>top. decode r = YamlFile top \<longrightarrow> top = map (\<lambda>(name, section). (name, Mapping section)) (cr_sections c))"
proof -
  obtain secs where secs: "parseSections decode r = Inr secs" and c: "c = \<lparr>cr_sections = secs, cr_iface = fst (selectSection secs (interfaceArg args)),
      cr_values = fst (snd (selectSection secs (interfaceArg args))), cr_ambiguous = snd (snd (selectSection secs (interfaceArg args)))\<rparr>"
    using assms by (auto simp: configLoader_def split: sum.splits prod.splits)
  have "decode r = YamlFile top \<Longrightarrow> top = map (\<lambda>(name, section). (name, Mapping section)) secs" for top
    using secs by (simp add: parseSections_def parse_tops_Inr)
  then show ?thesis unfolding c
    by (cases "chosen secs (interfaceArg args)")
      (auto simp: Resolve_def selectSection_chosen dumpsEverySection_def configCmdName_def commandLineOnly_def split: option.split)
qed

definition demo_yaml :: "string \<Rightarrow> nat yaml_file" where
  "demo_yaml text = YamlFile [(''wg0'', Mapping [(''mtu'', 1420)]), (''wg1'', Mapping [(''mtu'', 1280), (''join-key'', 7)])]"

theorem only_the_chosen_section_applies_witness:
  "\<exists>c. configLoader demo_yaml (interfaceArg [''agent'', ''--interface'', ''wg1'']) [] = Inr c \<and>
     Resolve c None ''interface'' = Inr (TheInterface ''wg1'') \<and> Resolve c None ''mtu'' = Inr (TheValue 1280) \<and>
     Resolve c None ''join-key'' = Inl (CommandLineOnly ''join-key'')"
proof -
  let ?args = "[''agent'', ''--interface'', ''wg1'']"
  have arg: "interfaceArg ?args = ''wg1''" by (simp add: iface_flag_def)
  obtain c where c: "configLoader demo_yaml (interfaceArg ?args) [] = Inr c"
    "cr_sections c = [(''wg0'', [(''mtu'', 1420)]), (''wg1'', [(''mtu'', 1280), (''join-key'', 7)])]"
    unfolding arg by (auto simp: configLoader_def parseSections_def demo_yaml_def selectSection_def)
  note only = only_the_chosen_section_applies [OF c(1), of None, unfolded arg]
  have "chosen (cr_sections c) ''wg1'' = Some ''wg1''" by (simp add: chosen_def)
  then have "Resolve c None ''interface'' = Inr (TheInterface ''wg1'')" "Resolve c None ''mtu'' = Inr (TheValue 1280)"
    "Resolve c None ''join-key'' = Inl (CommandLineOnly ''join-key'')"
    using only by (simp_all add: c(2))
  with c(1) show ?thesis by blast
qed

end
