(* ===== verification/Go_Time.thy ===== *)
theory Go_Time
  imports Hostport
begin

text \<open>
  The texts of durations and of prefixes, as \<^verbatim>\<open>time.Duration.String\<close> and \<^verbatim>\<open>netip.Prefix.String\<close> write
  them. A duration is a number of nanoseconds.
\<close>

text \<open>\<^verbatim>\<open>fmtFrac\<close>: the last \<open>prec\<close> decimal digits after a point, without trailing zeroes.\<close>

definition frac_text :: "nat \<Rightarrow> nat \<Rightarrow> string" where
  "frac_text u prec =
     (let digits = decimal (u mod 10 ^ prec);
          kept = rev (dropWhile (\<lambda>c. c = CHR ''0'') (rev (replicate (prec - length digits) (CHR ''0'') @ digits)))
      in if kept = '''' then '''' else CHR ''.'' # kept)"

definition duration_text :: "nat \<Rightarrow> string" where
  "duration_text u =
     (if u = 0 then ''0s''
      else if u < 1000 then decimal u @ ''ns''
      else if u < 1000000 then decimal (u div 1000) @ frac_text u 3 @ [CHR 0xC2, CHR 0xB5] @ ''s''
      else if u < 1000000000 then decimal (u div 1000000) @ frac_text u 6 @ ''ms''
      else
        (let secs = u div 1000000000; mins = secs div 60; hours = mins div 60;
             s = decimal (secs mod 60) @ frac_text u 9 @ ''s'';
             m = (if mins = 0 then '''' else decimal (mins mod 60) @ ''m'');
             h = (if hours = 0 then '''' else decimal hours @ ''h'')
         in h @ m @ s))"

definition duration_String :: "int \<Rightarrow> string" where
  "duration_String d = (if d < 0 then CHR ''-'' # duration_text (nat (- d)) else duration_text (nat d))"

definition prefix_String :: "prefix \<Rightarrow> string" where
  "prefix_String p = (if \<not> prefix_is_valid p then ''invalid Prefix'' else addr_String (pfx_addr p) @ ''/'' @ Itoa (pfx_bits p))"


lemma duration_examples: "duration_String 25000000000 = ''25s''" "duration_String 5400000000000 = ''1h30m0s''" "duration_String 1500000 = ''1.5ms''"
  by (simp_all add: duration_String_def duration_text_def frac_text_def Let_def decimal.simps char_of_def bit_0)

end
