(* ===== verification/Config_Cmd.thy ===== *)
theory Config_Cmd
  imports Config State_File Go_Time
begin

text \<open>
  The command that prints an interface's settings or writes them to the configuration file,
  \<^verbatim>\<open>internal/cli/configcmd.go\<close>, with the defaults of \<^verbatim>\<open>internal/cli/settings.go\<close>. The YAML codec is a
  parameter: \<open>decode\<close> reads the file, \<open>typed\<close> reads a section into its typed form and \<open>yaml\<close> writes
  sections. Printing to the terminal is the result of the command.
\<close>

section \<open>Sections\<close>

record out_section =
  sec_Join :: "string list"
  sec_BindAddr :: string
  sec_ClusterPort :: int
  sec_WireguardPort :: int
  sec_OverlayNet :: string
  sec_AllowedIPs :: "string list"
  sec_MTU :: int
  sec_PersistentKeepalive :: string
  sec_NoEtcHosts :: bool
  sec_Userspace :: bool
  sec_ControlSocket :: string
  sec_LogLevel :: string

definition empty_section :: out_section where
  "empty_section = \<lparr>sec_Join = [], sec_BindAddr = '''', sec_ClusterPort = 0, sec_WireguardPort = 0, sec_OverlayNet = '''', sec_AllowedIPs = [],
     sec_MTU = 0, sec_PersistentKeepalive = '''', sec_NoEtcHosts = False, sec_Userspace = False, sec_ControlSocket = '''', sec_LogLevel = ''''\<rparr>"

datatype cmd_error =
    ReadingDefaults | Rendering | ReadingSection string | ReadingFile string | BadSections config_error | BelongsToOne "string list"
  | AlreadyConfigured string string | CreatingConfigDir | OpeningConfig | WritingConfig string | ClosingConfig

definition DefaultInterface :: string where
  "DefaultInterface = ''wgcloth''"

definition DefaultLogLevel :: string where
  "DefaultLogLevel = ''warn''"

text \<open>\<^verbatim>\<open>defaultSettings\<close>: what the tags of the flags say; \<open>ok\<close> says whether kong can read them.\<close>

definition default_settings :: settings where
  "default_settings = \<lparr>cli_Join = [], cli_BindAddr = Addr4 0, cli_ClusterPort = 7946, cli_WireguardPort = 51820, cli_OverlayNet = no_prefix,
     cli_AllowedIPs = [], cli_Interface = DefaultInterface, cli_MTU = 1420, cli_PersistentKeepalive = 0, cli_NoEtcHosts = False,
     cli_Userspace = False, cli_ControlSocket = '''', cli_stateDir = ''''\<rparr>"

definition defaultSettings :: "bool \<Rightarrow> cmd_error + settings" where
  "defaultSettings ok = (if ok then Inr default_settings else Inl ReadingDefaults)"

definition sectionFor :: "bool \<Rightarrow> settings \<Rightarrow> string \<Rightarrow> cmd_error + out_section" where
  "sectionFor ok c logLevel =
     (case defaultSettings ok of
        Inl e \<Rightarrow> Inl e
      | Inr def \<Rightarrow>
          Inr \<lparr>sec_Join = cli_Join c,
               sec_BindAddr = (if cli_BindAddr c \<noteq> cli_BindAddr def then addr_String (cli_BindAddr c) else ''''),
               sec_ClusterPort = (if cli_ClusterPort c \<noteq> cli_ClusterPort def then cli_ClusterPort c else 0),
               sec_WireguardPort = (if cli_WireguardPort c \<noteq> cli_WireguardPort def then cli_WireguardPort c else 0),
               sec_OverlayNet = (if prefix_is_valid (cli_OverlayNet c) then prefix_String (masked (cli_OverlayNet c)) else ''''),
               sec_AllowedIPs = map prefix_String (cli_AllowedIPs c),
               sec_MTU = (if cli_MTU c \<noteq> cli_MTU def then cli_MTU c else 0),
               sec_PersistentKeepalive =
                 (if cli_PersistentKeepalive c \<noteq> cli_PersistentKeepalive def then duration_String (cli_PersistentKeepalive c) else ''''),
               sec_NoEtcHosts = cli_NoEtcHosts c, sec_Userspace = cli_Userspace c, sec_ControlSocket = cli_ControlSocket c,
               sec_LogLevel = (if logLevel \<noteq> DefaultLogLevel then logLevel else '''')\<rparr>)"

section \<open>Printing\<close>

text \<open>\<^verbatim>\<open>encode\<close>: \<open>yaml\<close> is the encoder.\<close>

definition encode_sections :: "((string \<times> out_section) list \<Rightarrow> string option) \<Rightarrow> (string \<times> out_section) list \<Rightarrow> cmd_error + string" where
  "encode_sections yaml sections = (case yaml sections of None \<Rightarrow> Inl Rendering | Some text \<Rightarrow> Inr text)"

text \<open>The overlay network a section is filled in with; \<open>known\<close> answers what the state of an interface holds.\<close>

definition fill_overlay :: "(string \<Rightarrow> prefix option) \<Rightarrow> string \<Rightarrow> out_section \<Rightarrow> out_section" where
  "fill_overlay known name s =
     (if sec_OverlayNet s = '''' then (case known name of Some net \<Rightarrow> s\<lparr>sec_OverlayNet := prefix_String net\<rparr> | None \<Rightarrow> s) else s)"

record 'v config_env =
  ce_decode :: "string \<Rightarrow> 'v yaml_file"
  ce_typed :: "'v cfg_section \<Rightarrow> out_section option"
  ce_yaml :: "(string \<times> out_section) list \<Rightarrow> string option"
  ce_known :: "string \<Rightarrow> prefix option"
  ce_defaults :: bool

definition render :: "'v config_env \<Rightarrow> settings \<Rightarrow> string \<Rightarrow> cmd_error + string" where
  "render E c logLevel =
     (case sectionFor (ce_defaults E) c logLevel of
        Inl e \<Rightarrow> Inl e
      | Inr s \<Rightarrow> encode_sections (ce_yaml E) [(cli_Interface c, fill_overlay (ce_known E) (cli_Interface c) s)])"

definition sectionOf :: "'v config_env \<Rightarrow> 'v cfg_section \<Rightarrow> out_section option" where
  "sectionOf E values = ce_typed E values"

fun typed_sections :: "'v config_env \<Rightarrow> 'v cfg_sections \<Rightarrow> cmd_error + (string \<times> out_section) list" where
  "typed_sections E [] = Inr []"
| "typed_sections E ((name, values) # rest) =
     (case sectionOf E values of
        None \<Rightarrow> Inl (ReadingSection name)
      | Some s \<Rightarrow>
          (case typed_sections E rest of
             Inl e \<Rightarrow> Inl e
           | Inr out \<Rightarrow> Inr ((name, fill_overlay (ce_known E) name s) # out)))"

definition renderAll :: "'v config_env \<Rightarrow> 'v cfg_sections \<Rightarrow> cmd_error + string" where
  "renderAll E sections = (case typed_sections E sections of Inl e \<Rightarrow> Inl e | Inr out \<Rightarrow> encode_sections (ce_yaml E) out)"

datatype file_read = NoFile | Unreadable | Content string

definition readSections :: "'v config_env \<Rightarrow> string \<Rightarrow> file_read \<Rightarrow> cmd_error + 'v cfg_sections" where
  "readSections E path f =
     (case f of
        NoFile \<Rightarrow> Inr []
      | Unreadable \<Rightarrow> Inl (ReadingFile path)
      | Content text \<Rightarrow> (case parseSections (ce_decode E) text of Inl e \<Rightarrow> Inl (BadSections e) | Inr secs \<Rightarrow> Inr secs))"

definition givenHere :: "'v config_env \<Rightarrow> settings \<Rightarrow> string \<Rightarrow> cmd_error + bool" where
  "givenHere E c logLevel =
     (case sectionFor (ce_defaults E) c logLevel of Inl e \<Rightarrow> Inl e | Inr s \<Rightarrow> Inr (s \<noteq> empty_section))"

text \<open>\<^verbatim>\<open>dump\<close>: \<open>ifaceArg\<close> is what \<^verbatim>\<open>--interface\<close> said, \<open>f\<close> what reading the configuration file answers.\<close>

definition dump :: "'v config_env \<Rightarrow> settings \<Rightarrow> string \<Rightarrow> string \<Rightarrow> string \<Rightarrow> file_read \<Rightarrow> cmd_error + string" where
  "dump E c logLevel ifaceArg path f =
     (if ifaceArg \<noteq> '''' then render E c logLevel
      else
        (case readSections E path f of
           Inl e \<Rightarrow> Inl e
         | Inr sections \<Rightarrow>
             if length sections \<le> 1 then render E c logLevel
             else
               (case givenHere E c logLevel of
                  Inl e \<Rightarrow> Inl e
                | Inr given \<Rightarrow> if given then Inl (BelongsToOne (sort (map fst sections))) else renderAll E sections)))"

section \<open>Writing\<close>

text \<open>What the calls on the configuration file answer; a failing write leaves \<open>cf_written\<close> bytes.\<close>

record config_faults =
  cf_read :: bool
  cf_mkdir :: bool
  cf_open :: bool
  cf_write :: bool
  cf_written :: nat
  cf_close :: bool

type_synonym texts = "string \<Rightarrow> string option"

definition appendSection :: "string \<Rightarrow> string \<Rightarrow> string" where
  "appendSection existing rendered =
     (let lead = (if existing = '''' then '''' else if last existing = CHR 0x0A then [CHR 0x0A] else [CHR 0x0A, CHR 0x0A])
      in lead @ rendered)"

definition config_write :: "'v config_env \<Rightarrow> config_faults \<Rightarrow> string \<Rightarrow> string \<Rightarrow> string \<Rightarrow> texts \<Rightarrow> texts \<times> cmd_error option" where
  "config_write E f iface path rendered fs =
     (if \<not> cf_read f then (fs, Some (ReadingFile path))
      else
        (let existing = (case fs path of None \<Rightarrow> '''' | Some text \<Rightarrow> text) in
         case parseSections (ce_decode E) existing of
           Inl e \<Rightarrow> (fs, Some (BadSections e))
         | Inr sections \<Rightarrow>
             if map_of sections iface \<noteq> None then (fs, Some (AlreadyConfigured path iface))
             else if \<not> cf_mkdir f then (fs, Some CreatingConfigDir)
             else if \<not> cf_open f then (fs, Some OpeningConfig)
             else
               (let added = appendSection existing rendered in
                if \<not> cf_write f then (fs(path \<mapsto> existing @ take (cf_written f) added), Some (WritingConfig path))
                else (fs(path \<mapsto> existing @ added), if cf_close f then None else Some ClosingConfig))))"

text \<open>\<^verbatim>\<open>Run\<close>: the files, what is printed and the error.\<close>

definition config_Run ::
  "'v config_env \<Rightarrow> config_faults \<Rightarrow> settings \<Rightarrow> string \<Rightarrow> bool \<Rightarrow> string \<Rightarrow> string \<Rightarrow> texts \<Rightarrow> texts \<times> (cmd_error + string)" where
  "config_Run E f c logLevel init ifaceArg path fs =
     (if init then
        (case render E c logLevel of
           Inl e \<Rightarrow> (fs, Inl e)
         | Inr rendered \<Rightarrow>
             (case config_write E f (cli_Interface c) path rendered fs of
                (fs', None) \<Rightarrow> (fs', Inr '''')
              | (fs', Some e) \<Rightarrow> (fs', Inl e)))
      else (fs, dump E c logLevel ifaceArg path (if \<not> cf_read f then Unreadable else case fs path of None \<Rightarrow> NoFile | Some t \<Rightarrow> Content t)))"

text \<open>The overlay network the state of an interface holds; \<open>join\<close> is \<^verbatim>\<open>filepath.Join\<close>.\<close>

definition config_known :: "state_codec \<Rightarrow> bool \<Rightarrow> (string \<Rightarrow> string \<Rightarrow> string) \<Rightarrow> string \<Rightarrow> files \<Rightarrow> string \<Rightarrow> prefix option" where
  "config_known J read_ok join dir fs name = KnownOverlayNet J read_ok (statePath join dir name) fs"

section \<open>What a section stands for\<close>

text \<open>How the texts of a section are read back.\<close>

record text_reader =
  rd_addr :: "string \<Rightarrow> addr option"
  rd_prefix :: "string \<Rightarrow> prefix option"
  rd_duration :: "string \<Rightarrow> int option"

text \<open>Reading undoes writing of the texts of these settings, and an empty text is not read.\<close>

definition reads_back :: "text_reader \<Rightarrow> settings \<Rightarrow> bool" where
  "reads_back R c \<longleftrightarrow> rd_addr R (addr_String (cli_BindAddr c)) = Some (cli_BindAddr c) \<and>
     (prefix_is_valid (cli_OverlayNet c) \<longrightarrow> rd_prefix R (prefix_String (masked (cli_OverlayNet c))) = Some (masked (cli_OverlayNet c))) \<and>
     (\<forall>p \<in> set (cli_AllowedIPs c). rd_prefix R (prefix_String p) = Some p) \<and>
     rd_duration R (duration_String (cli_PersistentKeepalive c)) = Some (cli_PersistentKeepalive c) \<and>
     rd_addr R [] = None \<and> rd_prefix R [] = None \<and> rd_duration R [] = None"

text \<open>The settings a section gives, and the log level: the default wherever it says nothing.\<close>

definition settings_of :: "text_reader \<Rightarrow> out_section \<Rightarrow> settings \<times> string" where
  "settings_of R s =
     (\<lparr>cli_Join = sec_Join s,
       cli_BindAddr = (case rd_addr R (sec_BindAddr s) of None \<Rightarrow> cli_BindAddr default_settings | Some a \<Rightarrow> a),
       cli_ClusterPort = (if sec_ClusterPort s = 0 then cli_ClusterPort default_settings else sec_ClusterPort s),
       cli_WireguardPort = (if sec_WireguardPort s = 0 then cli_WireguardPort default_settings else sec_WireguardPort s),
       cli_OverlayNet = (case rd_prefix R (sec_OverlayNet s) of None \<Rightarrow> no_prefix | Some p \<Rightarrow> p),
       cli_AllowedIPs = List.map_filter (rd_prefix R) (sec_AllowedIPs s),
       cli_Interface = DefaultInterface,
       cli_MTU = (if sec_MTU s = 0 then cli_MTU default_settings else sec_MTU s),
       cli_PersistentKeepalive = (case rd_duration R (sec_PersistentKeepalive s) of None \<Rightarrow> 0 | Some d \<Rightarrow> d),
       cli_NoEtcHosts = sec_NoEtcHosts s, cli_Userspace = sec_Userspace s, cli_ControlSocket = sec_ControlSocket s, cli_stateDir = ''''\<rparr>,
      if sec_LogLevel s = '''' then DefaultLogLevel else sec_LogLevel s)"

section \<open>Laws\<close>

lemma split_lines_newline: "split_lines acc (xs @ CHR 0x0A # ys) = split_lines acc (xs @ [CHR 0x0A]) @ split_lines [] ys"
  by (induction acc xs rule: split_lines.induct) simp_all

lemma split_lines_ended: "xs \<noteq> [] \<Longrightarrow> last xs \<noteq> CHR 0x0A \<Longrightarrow> split_lines acc (xs @ [CHR 0x0A]) = split_lines acc xs"
  by (induction acc xs rule: split_lines.induct) (auto split: if_splits)

lemma appended_lines:
  "old \<noteq> [] \<Longrightarrow> split_lines [] (old @ appendSection old new) = split_lines [] old @ [[]] @ split_lines [] new"
proof (cases "last old = CHR 0x0A")
  case True
  moreover assume "old \<noteq> []"
  ultimately obtain o' where old: "old = o' @ [CHR 0x0A]" by (metis append_butlast_last_id)
  show ?thesis using split_lines_newline [of "[]" o' "CHR 0x0A # new"] by (simp add: appendSection_def old)
next
  case False
  moreover assume "old \<noteq> []"
  ultimately show ?thesis using split_lines_newline [of "[]" old "CHR 0x0A # new"] split_lines_ended [of old "[]"]
    by (simp add: appendSection_def)
qed

lemma config_write_cases:
  assumes "config_write E f iface path rendered fs = (fs', err)"
  shows "(fs' = fs \<and> err \<noteq> None) \<or>
    (\<exists>secs n. parseSections (ce_decode E) (case fs path of None \<Rightarrow> [] | Some t \<Rightarrow> t) = Inr secs \<and> map_of secs iface = None \<and>
      fs' = fs(path \<mapsto> (case fs path of None \<Rightarrow> [] | Some t \<Rightarrow> t) @ take n (appendSection (case fs path of None \<Rightarrow> [] | Some t \<Rightarrow> t) rendered)) \<and>
      (err = None \<longrightarrow> take n (appendSection (case fs path of None \<Rightarrow> [] | Some t \<Rightarrow> t) rendered) = appendSection (case fs path of None \<Rightarrow> [] | Some t \<Rightarrow> t) rendered))"
proof -
  obtain old where old: "old = (case fs path of None \<Rightarrow> [] | Some t \<Rightarrow> t)" by simp
  show ?thesis using assms unfolding config_write_def Let_def old [symmetric]
    by (auto split: if_splits sum.splits intro: exI [of _ "length (appendSection old rendered)"])
qed

section \<open>Properties\<close>

text \<open>
  Writing the settings to the configuration file only ever appends to it: whatever happens, no
  other file changes and what the file held is still there, followed at most by a part of the new
  section. When it succeeds the interface had no section before, and the file has the lines it had,
  an empty one, and the lines of the rendered section. A file that is not a configuration, or that has
  a section for the interface, is left as it is.
\<close>

theorem init_only_appends:
  assumes "config_Run E f c logLevel True ifaceArg path fs = (fs', r)" and "old = (case fs path of None \<Rightarrow> [] | Some t \<Rightarrow> t)"
  shows "(\<forall>p. p \<noteq> path \<longrightarrow> fs' p = fs p) \<and> (fs' \<noteq> fs \<longrightarrow> (\<exists>added. fs' path = Some (old @ added))) \<and>
    (r \<in> range Inr \<longrightarrow>
      (\<exists>secs rendered. render E c logLevel = Inr rendered \<and> parseSections (ce_decode E) old = Inr secs \<and> map_of secs (cli_Interface c) = None \<and>
        fs' path = Some (old @ appendSection old rendered) \<and>
        split_lines [] (old @ appendSection old rendered) =
          (if old = [] then split_lines [] rendered else split_lines [] old @ [[]] @ split_lines [] rendered))) \<and>
    (\<forall>secs. parseSections (ce_decode E) old = Inr secs \<longrightarrow> map_of secs (cli_Interface c) \<noteq> None \<longrightarrow> fs' = fs \<and> r \<in> range Inl) \<and>
    (parseSections (ce_decode E) old \<in> range Inl \<longrightarrow> fs' = fs \<and> r \<in> range Inl)"
proof (cases "render E c logLevel")
  case (Inl e)
  then have "fs' = fs" "r = Inl e" using assms(1) by (simp_all add: config_Run_def)
  then show ?thesis by auto
next
  case (Inr rendered)
  obtain err where w: "config_write E f (cli_Interface c) path rendered fs = (fs', err)" and r: "r = (case err of None \<Rightarrow> Inr [] | Some e \<Rightarrow> Inl e)"
    using assms(1) Inr by (auto simp: config_Run_def split: prod.splits option.splits)
  note parts = config_write_cases [OF w, folded assms(2)]
  have "split_lines [] (old @ appendSection old rendered) =
      (if old = [] then split_lines [] rendered else split_lines [] old @ [[]] @ split_lines [] rendered)"
    using appended_lines [of old rendered] by (simp add: appendSection_def)
  then show ?thesis using parts Inr unfolding r by (auto split: option.splits)
qed

text \<open>
  What the command prints is what was settled: reading the section it renders over the defaults
  gives the settings back, with the overlay network masked, and the log level, for any settings that
  pass the checks and whose ports are not zero. Only what differs from the defaults is written: the
  defaults give an empty section.
\<close>

theorem printed_settings_come_back:
  assumes "reads_back R c" and "settings_check c = None" and "cli_ClusterPort c \<noteq> 0" and "cli_WireguardPort c \<noteq> 0" and "logLevel \<noteq> []"
  shows "(\<exists>s. sectionFor True c logLevel = Inr s \<and>
      settings_of R s =
        (c\<lparr>cli_OverlayNet := (if prefix_is_valid (cli_OverlayNet c) then masked (cli_OverlayNet c) else no_prefix),
           cli_Interface := DefaultInterface, cli_stateDir := []\<rparr>, logLevel)) \<and>
    sectionFor True default_settings DefaultLogLevel = Inr empty_section"
proof -
  have mtu: "cli_MTU c \<noteq> 0" using assms(2) by (auto simp: settings_check_def Let_def split: option.splits if_splits)
  have "List.map_filter (rd_prefix R) (map prefix_String ps) = ps" if "\<forall>p \<in> set ps. rd_prefix R (prefix_String p) = Some p" for ps
    using that by (induction ps) (simp_all add: List.map_filter_simps)
  then have ips: "List.map_filter (rd_prefix R) (map prefix_String (cli_AllowedIPs c)) = cli_AllowedIPs c" using assms(1) by (simp add: reads_back_def)
  show ?thesis
    using assms(1,3-5) mtu ips unfolding reads_back_def
    by (cases c) (auto simp: sectionFor_def defaultSettings_def settings_of_def default_settings_def empty_section_def no_prefix_def prefix_is_valid_def)
qed

text \<open>A port of zero is not told from the default: the section that is printed leaves it out.\<close>

lemma zero_port_is_lost:
  "sectionFor ok (c\<lparr>cli_ClusterPort := 0\<rparr>) logLevel = sectionFor ok (c\<lparr>cli_ClusterPort := cli_ClusterPort default_settings\<rparr>) logLevel"
  by (simp add: sectionFor_def defaultSettings_def)

definition demo_cfg_settings :: settings where
  "demo_cfg_settings = default_settings\<lparr>cli_MTU := 1280, cli_PersistentKeepalive := 25000000000, cli_Join := [''member'']\<rparr>"

definition demo_reader :: text_reader where
  "demo_reader = \<lparr>rd_addr = (\<lambda>t. if t = [] then None else Some (Addr4 0)), rd_prefix = (\<lambda>t. None),
     rd_duration = (\<lambda>t. if t = ''25s'' then Some 25000000000 else None)\<rparr>"

theorem printed_settings_come_back_witness:
  "\<exists>s. sectionFor True demo_cfg_settings ''debug'' = Inr s \<and> sec_ClusterPort s = 0 \<and> sec_MTU s = 1280 \<and>
     settings_of demo_reader s = (demo_cfg_settings, ''debug'')"
proof -
  have c: "cli_BindAddr demo_cfg_settings = Addr4 0" "cli_OverlayNet demo_cfg_settings = no_prefix" "cli_AllowedIPs demo_cfg_settings = []"
    "cli_PersistentKeepalive demo_cfg_settings = 25000000000" "cli_ClusterPort demo_cfg_settings = 7946" "cli_WireguardPort demo_cfg_settings = 51820"
    "cli_MTU demo_cfg_settings = 1280" "cli_Interface demo_cfg_settings = DefaultInterface" "cli_stateDir demo_cfg_settings = []"
    by (simp_all add: demo_cfg_settings_def default_settings_def)
  have "addr_String (Addr4 0) \<noteq> []" by simp
  then have "reads_back demo_reader demo_cfg_settings"
    by (simp add: reads_back_def c demo_reader_def duration_examples no_prefix_def prefix_is_valid_def)
  moreover have "settings_check demo_cfg_settings = None"
    by (simp add: settings_check_def c no_prefix_def prefix_is_valid_def time_Second_def)
  ultimately obtain s where s: "sectionFor True demo_cfg_settings ''debug'' = Inr s"
    "settings_of demo_reader s = (demo_cfg_settings\<lparr>cli_OverlayNet := no_prefix, cli_Interface := DefaultInterface, cli_stateDir := []\<rparr>, ''debug'')"
    using printed_settings_come_back [of demo_reader demo_cfg_settings "''debug''"] by (auto simp: c prefix_is_valid_def no_prefix_def)
  moreover have "sec_ClusterPort s = 0" "sec_MTU s = 1280"
    using s(1) by (auto simp: sectionFor_def defaultSettings_def c default_settings_def)
  moreover have "demo_cfg_settings\<lparr>cli_OverlayNet := no_prefix, cli_Interface := DefaultInterface, cli_stateDir := []\<rparr> = demo_cfg_settings"
    by (simp add: demo_cfg_settings_def default_settings_def)
  ultimately show ?thesis by auto
qed

definition demo_config_env :: "nat config_env" where
  "demo_config_env = \<lparr>ce_decode = (\<lambda>t. if t = [] then YamlEmpty else YamlFile [(''wg0'', Mapping [])]), ce_typed = (\<lambda>s. None),
     ce_yaml = (\<lambda>secs. Some (concat (map (\<lambda>(name, s). name @ '':'' @ [CHR 0x0A]) secs))), ce_known = (\<lambda>name. None), ce_defaults = True\<rparr>"

definition demo_config_ok :: config_faults where
  "demo_config_ok = \<lparr>cf_read = True, cf_mkdir = True, cf_open = True, cf_write = True, cf_written = 0, cf_close = True\<rparr>"

theorem init_only_appends_witness:
  "let fs = Map.empty(''/etc/cheesecloth.yaml'' \<mapsto> ''wg0: {}'');
       res = config_Run demo_config_env demo_config_ok demo_cfg_settings ''warn'' True [] ''/etc/cheesecloth.yaml'' fs
   in snd res = Inr [] \<and> (\<exists>new. fst res ''/etc/cheesecloth.yaml'' = Some new \<and> split_lines [] new = [''wg0: {}'', [], ''wgcloth:''])"
proof -
  let ?fs = "Map.empty(''/etc/cheesecloth.yaml'' \<mapsto> ''wg0: {}'')"
  let ?res = "config_Run demo_config_env demo_config_ok demo_cfg_settings ''warn'' True [] ''/etc/cheesecloth.yaml'' ?fs"
  have rendered: "render demo_config_env demo_cfg_settings ''warn'' = Inr (''wgcloth:'' @ [CHR 0x0A])"
    by (simp add: render_def sectionFor_def defaultSettings_def encode_sections_def demo_config_env_def demo_cfg_settings_def default_settings_def DefaultInterface_def)
  then have ok: "snd ?res = Inr []"
    by (simp add: config_Run_def config_write_def demo_config_ok_def parseSections_def demo_cfg_settings_def default_settings_def DefaultInterface_def Let_def)
      (simp add: demo_config_env_def)
  have "''wg0: {}'' = (case ?fs ''/etc/cheesecloth.yaml'' of None \<Rightarrow> [] | Some t \<Rightarrow> t)" by simp
  note facts = init_only_appends [OF surjective_pairing [of ?res] this]
  have "\<exists>new. fst ?res ''/etc/cheesecloth.yaml'' = Some new \<and> split_lines [] new = split_lines [] ''wg0: {}'' @ [[]] @ split_lines [] (''wgcloth:'' @ [CHR 0x0A])"
    using facts ok rendered by auto
  then show ?thesis using ok unfolding Let_def by simp
qed

end
