(* ===== verification/Status.thy ===== *)
theory Status
  imports State_File Wireguard Go_Time
begin

text \<open>
  The status command, \<^verbatim>\<open>internal/cli/status.go\<close> and \<^verbatim>\<open>status_render.go\<close>: the report on the interface with
  its peers named from the persisted state, as JSON or as text. Laying the rows out in columns is
  \<^verbatim>\<open>text/tabwriter\<close>'s, so a table is its rows of cells; the JSON encoder is a parameter, and so is the
  order in which \<^verbatim>\<open>slices.SortFunc\<close> leaves peers of the same name. A point in time is a number of
  nanoseconds, and \<open>zero_time\<close> is Go's zero time.
\<close>

section \<open>Names\<close>

record peer_info =
  pi_Name :: string
  pi_Identity :: "public_key option"
  pi_Overlay :: addr

definition no_info :: peer_info where
  "no_info = \<lparr>pi_Name = '''', pi_Identity = None, pi_Overlay = NoAddr\<rparr>"

definition peer_names :: "node list \<Rightarrow> (string \<times> peer_info) list" where
  "peer_names nodes =
     foldl (\<lambda>names n. AList.update (meta_pubKey n)
       \<lparr>pi_Name = node_name n, pi_Identity = Some (meta_identity n), pi_Overlay = meta_overlayAddr n\<rparr> names) [] nodes"

definition info_of :: "(string \<times> peer_info) list \<Rightarrow> string \<Rightarrow> peer_info" where
  "info_of names key = (case map_of names key of None \<Rightarrow> no_info | Some i \<Rightarrow> i)"

definition peerName :: "peer_report \<Rightarrow> (string \<times> peer_info) list \<Rightarrow> string" where
  "peerName p names =
     (case map_of names (prp_PublicKey p) of
        Some i \<Rightarrow> if pi_Name i \<noteq> '''' then pi_Name i else
          (if 12 < length (prp_PublicKey p) then take 12 (prp_PublicKey p) @ ''...'' else prp_PublicKey p)
      | None \<Rightarrow> if 12 < length (prp_PublicKey p) then take 12 (prp_PublicKey p) @ ''...'' else prp_PublicKey p)"

section \<open>Ages and amounts\<close>

definition zero_time :: int where
  "zero_time = - 62135596800 * 1000000000"

text \<open>\<^verbatim>\<open>Time.Sub\<close> stops at the limits of a 64-bit duration; \<^verbatim>\<open>Truncate\<close> rounds towards zero.\<close>

definition time_Sub :: "int \<Rightarrow> int \<Rightarrow> int" where
  "time_Sub t u = max (- (2 ^ 63)) (min (2 ^ 63 - 1) (t - u))"

definition truncate_seconds :: "int \<Rightarrow> int" where
  "truncate_seconds d = (if d < 0 then - (- d - - d mod 1000000000) else d - d mod 1000000000)"

definition handshakeAge :: "int \<Rightarrow> int \<Rightarrow> string" where
  "handshakeAge t now = (if t = zero_time then ''never'' else duration_String (truncate_seconds (time_Sub now t)) @ '' ago'')"

text \<open>The loop of \<^verbatim>\<open>humanBytes\<close>: the unit and how often it was multiplied.\<close>

function unit_for :: "int \<Rightarrow> int \<Rightarrow> nat \<Rightarrow> int \<times> nat" where
  "unit_for n d e = (if 1024 \<le> n div d \<and> e < 4 then unit_for n (d * 1024) (e + 1) else (d, e))"
  by auto
termination by (relation "measure (\<lambda>(n, d, e). 4 - e)") auto

declare unit_for.simps [simp del]

text \<open>
  \<^verbatim>\<open>float64(n)\<close>: the nearest number of 53 bits, the even one of two. Dividing it by a power of two is
  exact, and \<^verbatim>\<open>%.1f\<close> prints the nearest number of tenths, again the even one of two.
\<close>

definition round_half_even :: "int \<Rightarrow> int \<Rightarrow> int" where
  "round_half_even a b =
     (let q = a div b; r = a mod b in
      if 2 * r < b \<or> 2 * r = b \<and> even q then q else q + 1)"

fun bit_length :: "nat \<Rightarrow> nat" where
  "bit_length n = (if n = 0 then 0 else Suc (bit_length (n div 2)))"

declare bit_length.simps [simp del]

definition float64_of :: "int \<Rightarrow> int" where
  "float64_of n = (let s = bit_length (nat n) - 53 in round_half_even n (2 ^ s) * 2 ^ s)"

definition tenths_text :: "int \<Rightarrow> int \<Rightarrow> string" where
  "tenths_text n d = (let t = round_half_even (10 * n) d in Itoa (t div 10) @ ''.'' @ Itoa (t mod 10))"

definition humanBytes :: "int64 \<Rightarrow> string" where
  "humanBytes n =
     (let v = sint n in
      if v < 1024 then Itoa v @ '' B''
      else
        (case unit_for v 1024 0 of
           (d, e) \<Rightarrow> tenths_text (float64_of v) d @ '' '' @ [''KMGTP'' ! e] @ ''iB''))"

section \<open>The report\<close>

record named_peer =
  np_Info :: peer_info
  np_Report :: peer_report

record status_json =
  sj_Report :: report
  sj_Identity :: string
  sj_Peers :: "named_peer list"

definition renderStatusJSON :: "report \<Rightarrow> public_key \<Rightarrow> (string \<times> peer_info) list \<Rightarrow> status_json" where
  "renderStatusJSON r local names =
     \<lparr>sj_Report = r, sj_Identity = (if local \<noteq> 0 then key_String local else ''''),
      sj_Peers = map (\<lambda>p. \<lparr>np_Info = info_of names (prp_PublicKey p), np_Report = p\<rparr>) (rep_Peers r)\<rparr>"

definition peer_routes :: "peer_info \<Rightarrow> prefix list \<Rightarrow> prefix list" where
  "peer_routes i allowed =
     (if addr_is_valid (pi_Overlay i) then filter (\<lambda>x. \<not> (is_single_ip x \<and> pfx_addr x = pi_Overlay i)) allowed else allowed)"

definition status_row :: "(string \<times> peer_info) list \<Rightarrow> int \<Rightarrow> peer_report \<Rightarrow> string list" where
  "status_row names now p =
     (let i = info_of names (prp_PublicKey p); rs = peer_routes i (prp_AllowedIPs p) in
      [peerName p names,
       case pi_Identity i of None \<Rightarrow> ''-'' | Some k \<Rightarrow> key_Short k,
       if addr_is_valid (pi_Overlay i) then addr_String (pi_Overlay i) else ''-'',
       if prp_Endpoint p = '''' then ''-'' else prp_Endpoint p,
       handshakeAge (prp_LastHandshake p) now, humanBytes (prp_ReceiveBytes p), humanBytes (prp_TransmitBytes p),
       if rs = [] then ''-'' else Join_strings (map prefix_String rs) '',''])"

definition status_header :: "string list" where
  "status_header = [''NAME'', ''IDENTITY'', ''OVERLAY'', ''ENDPOINT'', ''HANDSHAKE'', ''RX'', ''TX'', ''ROUTES'']"

text \<open>The lines at the top, and the table, which is left out when there are no peers.\<close>

definition renderStatus ::
  "((peer_report \<Rightarrow> string) \<Rightarrow> peer_report list \<Rightarrow> peer_report list) \<Rightarrow> report \<Rightarrow> public_key \<Rightarrow> (string \<times> peer_info) list \<Rightarrow> int
   \<Rightarrow> string list \<times> string list list" where
  "renderStatus sortFunc r local names now =
     ([''interface: '' @ rep_Interface r, ''address:   '' @ Join_strings (map prefix_String (rep_Addrs r)) '' '',
       ''port:      '' @ Itoa (rep_ListenPort r), ''pubkey:    '' @ rep_PublicKey r,
       ''identity:  '' @ (if local \<noteq> 0 then key_String local else ''-''), ''peers:     '' @ Itoa (int (length (rep_Peers r)))],
      if rep_Peers r = [] then []
      else status_header # map (status_row names now) (sortFunc (\<lambda>p. peerName p names) (rep_Peers r)))"

datatype status_output = AsJSON status_json | AsText "string list" "string list list"

text \<open>
  \<^verbatim>\<open>Run\<close>: \<open>status\<close> is what the report on the interface answers, and the state is read for the names
  and the identity of this node.
\<close>

definition status_Run ::
  "ed25519 \<Rightarrow> state_codec \<Rightarrow> bool \<Rightarrow> ((peer_report \<Rightarrow> string) \<Rightarrow> peer_report list \<Rightarrow> peer_report list) \<Rightarrow> wg_error + report \<Rightarrow> bool
   \<Rightarrow> string \<Rightarrow> files \<Rightarrow> int \<Rightarrow> wg_error + status_output" where
  "status_Run C J read_ok sortFunc status json path fs now =
     (case status of
        Inl e \<Rightarrow> Inl e
      | Inr r \<Rightarrow>
          (let names = peer_names (KnownNodes J read_ok path fs);
               local = (case LocalIdentity C J read_ok path fs of None \<Rightarrow> 0 | Some k \<Rightarrow> k)
           in if json then Inr (AsJSON (renderStatusJSON r local names))
              else (case renderStatus sortFunc r local names now of (lines, table) \<Rightarrow> Inr (AsText lines table))))"

section \<open>What the texts say\<close>

text \<open>
  The loop stops at the largest unit that is not above the amount, petabytes at most, so the letter is
  always one of the five.
\<close>

lemma unit_for_exponent: "e \<le> 4 \<Longrightarrow> unit_for n (1024 ^ Suc e) e = (d, k) \<Longrightarrow> e \<le> k \<and> k \<le> 4 \<and> d = 1024 ^ Suc k"
proof (induction n "1024 ^ Suc e :: int" e rule: unit_for.induct)
  case (1 n e)
  show ?case
  proof (cases "1024 \<le> n div 1024 ^ Suc e \<and> e < 4")
    case True
    have "unit_for n (1024 ^ Suc (e + 1)) (e + 1) = (d, k)"
      using 1(3) True unit_for.simps [of n "1024 ^ Suc e" e] by (simp add: mult.commute)
    then show ?thesis using 1(1) [OF True] True by (simp add: mult.commute)
  next
    case False
    then show ?thesis using 1(2,3) unit_for.simps [of n "1024 ^ Suc e" e] by (auto split: if_splits)
  qed
qed

lemma div_at_least: "0 < d \<Longrightarrow> m \<le> n div d \<Longrightarrow> m * d \<le> n" for d m n :: int
  using mult_right_mono [of m "n div d" d] div_mult_mod_eq [of n d] pos_mod_sign [of d n] by linarith

lemma div_below: "0 < d \<Longrightarrow> n div d < m \<Longrightarrow> n < m * d" for d m n :: int
  using mult_right_mono [of "n div d + 1" m d] div_mult_mod_eq [of n d] pos_mod_bound [of d n]
    distrib_right [of "n div d" 1 d] by linarith

lemma unit_for_largest:
  "1024 ^ Suc e \<le> n \<Longrightarrow> unit_for n (1024 ^ Suc e) e = (d, k) \<Longrightarrow> d \<le> n \<and> (k < 4 \<longrightarrow> n < 1024 * d)"
proof (induction n "1024 ^ Suc e :: int" e rule: unit_for.induct)
  case (1 n e)
  show ?case
  proof (cases "1024 \<le> n div 1024 ^ Suc e \<and> e < 4")
    case True
    have "unit_for n (1024 ^ Suc (e + 1)) (e + 1) = (d, k)"
      using 1(3) True unit_for.simps [of n "1024 ^ Suc e" e] by (simp add: mult.commute)
    moreover have "1024 ^ Suc (e + 1) \<le> n" using True div_at_least [of "1024 ^ Suc e" 1024 n] by (simp add: mult.assoc)
    ultimately show ?thesis using 1(1) [OF True] by (simp add: mult.commute)
  next
    case False
    then have *: "d = 1024 ^ Suc e" "k = e" using 1(3) unit_for.simps [of n "1024 ^ Suc e" e] by (auto split: if_splits)
    then have "k < 4 \<Longrightarrow> n div d < 1024" using False by simp
    then have "k < 4 \<Longrightarrow> n < 1024 * d" using * div_below [of d n 1024] by simp
    then show ?thesis using 1(2) * by blast
  qed
qed

lemma humanBytes_scaled:
  assumes "1024 \<le> sint n"
  obtains k where "k < 5" "1024 ^ Suc k \<le> sint n" "k < 4 \<Longrightarrow> sint n < 1024 ^ Suc (Suc k)"
    "humanBytes n = tenths_text (float64_of (sint n)) (1024 ^ Suc k) @ '' '' @ [''KMGTP'' ! k] @ ''iB''"
proof -
  obtain d k where u: "unit_for (sint n) 1024 0 = (d, k)" by (cases "unit_for (sint n) 1024 0")
  then have "k \<le> 4" "d = 1024 ^ Suc k" using unit_for_exponent [of 0 "sint n" d k] by simp_all
  moreover have "d \<le> sint n" "k < 4 \<longrightarrow> sint n < 1024 * d" using unit_for_largest [of 0 "sint n" d k] u assms by simp_all
  ultimately show ?thesis using that [of k] u assms by (simp add: humanBytes_def)
qed

text \<open>The report names every peer once, in the JSON in the order of the device.\<close>

lemma status_rows:
  "mset (sortFunc (\<lambda>p. peerName p names) (rep_Peers r)) = mset (rep_Peers r) \<Longrightarrow> rep_Peers r \<noteq> [] \<Longrightarrow>
   mset (tl (snd (renderStatus sortFunc r local names now))) = image_mset (status_row names now) (mset (rep_Peers r))"
  by (simp add: renderStatus_def)

lemma status_examples:
  "humanBytes 1023 = ''1023 B''" "humanBytes 1536 = ''1.5 KiB''" "humanBytes 1048576 = ''1.0 MiB''"
  by (simp_all add: humanBytes_def unit_for.simps tenths_text_def float64_of_def round_half_even_def bit_length.simps
      Itoa_def decimal.simps char_of_def bit_0 Let_def)

end
