(* ===== verification/Commands.thy ===== *)
theory Commands
  imports Control_Agent Go_Time
begin

text \<open>
  The invite and revoke commands, \<^verbatim>\<open>internal/cli/invite.go\<close> and \<^verbatim>\<open>revoke.go\<close>, and a command's call
  through the control socket to the running agent and back. The JSON codecs of the two messages are
  parameters; what is printed on the two outputs is a value.
\<close>

section \<open>Commands\<close>

definition new_request :: "string \<Rightarrow> request" where
  "new_request op = \<lparr>req_Op = op, req_TTL = '''', req_Uses = 0, req_Target = '''', req_Force = False\<rparr>"

record printed =
  stdout :: string
  stderr :: string

definition invite_Run :: "(request \<Rightarrow> call_error + response) \<Rightarrow> int \<Rightarrow> int \<Rightarrow> call_error + printed" where
  "invite_Run call ttl uses =
     (case call ((new_request OpInvite)\<lparr>req_TTL := duration_String ttl, req_Uses := uses\<rparr>) of
        Inl e \<Rightarrow> Inl e
      | Inr resp \<Rightarrow>
          Inr \<lparr>stdout = rsp_Token resp @ [CHR 0x0A],
               stderr = ''valid for '' @ duration_String ttl @ '', '' @ Itoa uses @ '' use(s). On the new node:'' @ [CHR 0x0A] @
                 ''  cheesecloth --join <this host> --join-key '' @ rsp_Token resp @ [CHR 0x0A]\<rparr>)"

definition revoke_Run :: "(request \<Rightarrow> call_error + response) \<Rightarrow> string \<Rightarrow> call_error + printed" where
  "revoke_Run call target =
     (case call ((new_request OpRevoke)\<lparr>req_Target := target\<rparr>) of
        Inl e \<Rightarrow> Inl e
      | Inr resp \<Rightarrow> Inr \<lparr>stdout = '''', stderr = ''revoked '' @ target @ '' ('' @ rsp_Identity resp @ '')'' @ [CHR 0x0A]\<rparr>)"

section \<open>Through the socket\<close>

record socket_codec =
  sk_enc_req :: "request \<Rightarrow> bytes"
  sk_dec_req :: "bytes \<Rightarrow> request option"
  sk_enc_rsp :: "response \<Rightarrow> bytes"
  sk_dec_rsp :: "bytes \<Rightarrow> response option"

definition agent_answers :: "socket_codec \<Rightarrow> (string \<Rightarrow> string + int) \<Rightarrow> ctl_env \<Rightarrow> agent_ctl \<Rightarrow> request \<Rightarrow> agent_ctl \<times> bytes" where
  "agent_answers K pd V a req = answer_conn (sk_dec_req K) (sk_enc_rsp K) pd (agent_handler V) a (sk_enc_req K req)"

definition socket_call :: "socket_codec \<Rightarrow> (string \<Rightarrow> string + int) \<Rightarrow> ctl_env \<Rightarrow> agent_ctl \<Rightarrow> string \<Rightarrow> request \<Rightarrow> call_error + response" where
  "socket_call K pd V a path req = Call (sk_dec_rsp K) path True True (snd (agent_answers K pd V a req))"

text \<open>A request and its answer survive the JSON encoding.\<close>

definition carried :: "socket_codec \<Rightarrow> (string \<Rightarrow> string + int) \<Rightarrow> ctl_env \<Rightarrow> agent_ctl \<Rightarrow> request \<Rightarrow> bool" where
  "carried K pd V a req \<longleftrightarrow> sk_dec_req K (sk_enc_req K req) = Some req \<and>
     (let resp = snd (control_handle pd (agent_handler V) a req) in sk_dec_rsp K (sk_enc_rsp K resp) = Some resp)"

lemma socket_call_result:
  "carried K pd V a req \<Longrightarrow> fst (agent_answers K pd V a req) = fst (control_handle pd (agent_handler V) a req)"
  "carried K pd V a req \<Longrightarrow> socket_call K pd V a path req =
     (let resp = snd (control_handle pd (agent_handler V) a req) in if rsp_Error resp \<noteq> [] then Inl (AgentError (rsp_Error resp)) else Inr resp)"
  by (simp_all add: carried_def socket_call_def agent_answers_def answer_conn_def Call_def case_prod_beta Let_def)

lemma handle_invite:
  "req_Op req = OpInvite \<Longrightarrow> pd (req_TTL req) = Inr ttl \<Longrightarrow> control_handle pd (agent_handler V) a req =
    (case agent_Invite V a ttl (req_Uses req) of
       (a', Inl e) \<Rightarrow> (a', no_response\<lparr>rsp_Error := ce_render V e\<rparr>)
     | (a', Inr token) \<Rightarrow> (a', no_response\<lparr>rsp_Token := token\<rparr>))"
  by (auto simp: control_handle_def agent_handler_def Let_def split: prod.splits sum.splits)

text \<open>
  The invite command prints a token the agent minted for what was asked: the running agent mints one
  token that is valid as long, and for as many nodes, as the command says, and that token is what is
  printed; if the agent cannot mint one the command fails with its reason. The lifetime travels as
  text, which the agent has to read as the same lifetime.
\<close>

theorem invite_prints_minted:
  assumes "req = (new_request OpInvite)\<lparr>req_TTL := duration_String ttl, req_Uses := uses\<rparr>" and "carried K pd V a req"
    and "pd (duration_String ttl) = Inr ttl" and "\<forall>e. ce_render V e \<noteq> []"
    and "Mint (ce_sha V) (ce_rand V) (ce_clock V) (cl_tokens (ac_cluster a)) ttl uses = (tokens, m)"
  shows "(case m of
      Inl e \<Rightarrow> invite_Run (socket_call K pd V a path) ttl uses = Inl (AgentError (ce_render V (TokenFailed e)))
    | Inr token \<Rightarrow> \<exists>p. invite_Run (socket_call K pd V a path) ttl uses = Inr p \<and> stdout p = token @ [CHR 0x0A]) \<and>
    cl_tokens (ac_cluster (fst (agent_answers K pd V a req))) = tokens \<and>
    cl_set (ac_cluster (fst (agent_answers K pd V a req))) = cl_set (ac_cluster a)"
  using assms socket_call_result [OF assms(2)]
  by (auto simp: handle_invite new_request_def invite_Run_def agent_Invite_def Invite_def no_response_def Let_def split: sum.splits prod.splits)

text \<open>The revoke command names the identity the agent revoked, or fails with the agent's reason.\<close>

lemma revoke_prints_identity:
  assumes "req = (new_request OpRevoke)\<lparr>req_Target := target\<rparr>" and "carried K pd V a req" and "\<forall>e. ce_render V e \<noteq> []"
  shows "revoke_Run (socket_call K pd V a path) target =
     (case snd (agent_Revoke V a target) of
        Inl e \<Rightarrow> Inl (AgentError (ce_render V e))
      | Inr ident \<Rightarrow> Inr \<lparr>stdout = '''', stderr = ''revoked '' @ target @ '' ('' @ ident @ '')'' @ [CHR 0x0A]\<rparr>) \<and>
    fst (agent_answers K pd V a req) = fst (agent_Revoke V a target)"
  using assms socket_call_result [OF assms(2)]
  by (auto simp: handle_revoke new_request_def revoke_Run_def no_response_def Let_def split: sum.splits prod.splits)

end
