(* ===== verification/Spec2Isabelle.thy ===== *)
theory Spec2Isabelle
  imports Trust_Slots Trust_Cache Overlay Cluster_Enrolment Cluster_Gossip Cluster_Members Transport Enrol_Dial Replace_Windows
    Link_Linux Link_Linux_User Link_Darwin Link_Windows Etc_Hosts Hostport Agent Service Config_Cmd Status Commands
begin

text \<open>
  A verification library for cheesecloth, a daemon that keeps a wireguard mesh between the members of a
  cluster. The program is the Go code under \<^verbatim>\<open>src/internal\<close> and \<^verbatim>\<open>src/cmd\<close>.

  \<^bold>\<open>The program.\<close> Every node has an Ed25519 identity. Who is a member follows from signed records,
  admissions and revocations, and a pinned root (\<^verbatim>\<open>internal/trust\<close>); every node keeps all records and
  decides by itself. A new node is admitted by a running member through a token handed over out of band
  (\<^verbatim>\<open>internal/enrol\<close>). The members gossip over QUIC with memberlist (\<^verbatim>\<open>internal/cluster\<close>), each announces
  its wireguard key, its overlay address and the networks it routes (\<^verbatim>\<open>internal/overlay\<close>), and every change
  gives a snapshot of the verified other members. The agent (\<^verbatim>\<open>internal/cli\<close>) puts each snapshot on the
  wireguard interface of the platform (\<^verbatim>\<open>internal/wg\<close>) and into the hosts file (\<^verbatim>\<open>internal/etchosts\<close>),
  answers the operator on a control socket (\<^verbatim>\<open>internal/control\<close>), and reports to the service manager
  (\<^verbatim>\<open>internal/notify\<close>).

  \<^bold>\<open>The theories\<close>, in the order in which they build on each other:

  \<^item> \<open>Prelude\<close>, \<open>Base_Encoding\<close>, \<open>Netip\<close>, \<open>Ip_Net\<close>, \<open>Go_Text\<close>, \<open>Hostport\<close>, \<open>Go_Time\<close>: bytes, words, Go maps as
    association lists with distinct keys, and what the program uses of Go's standard library, written
    out: base32 and base64, \<^verbatim>\<open>net/netip\<close>, \<^verbatim>\<open>net\<close>, \<^verbatim>\<open>strings\<close>, \<^verbatim>\<open>bufio\<close> and the texts of addresses, durations
    and numbers. \<open>Hostport\<close> also holds \<^verbatim>\<open>withPort\<close>, \<^verbatim>\<open>enrolAddrs\<close> and \<^verbatim>\<open>GossipAddr\<close>, which work on such texts.
  \<^item> \<open>Wire\<close>, \<open>Keys\<close>, \<open>Trust_Records\<close>: \<^verbatim>\<open>wire/wire.go\<close>, \<^verbatim>\<open>trust/identity.go\<close>, \<^verbatim>\<open>trust/records.go\<close>. What is signed
    determines the record, and no two kinds of statement share their bytes.
  \<^item> \<open>Trust_Set\<close>, \<open>Trust_Validity\<close>, \<open>Trust_Merge\<close>, \<open>Trust_Slots\<close>, \<open>Trust_Cache\<close>: \<^verbatim>\<open>trust/set.go\<close>. The recursion that
    decides membership terminates, follows the documented rule, and is sound (a chain of admissions up to
    the root); merging records in any order gives the same set (locale \<open>keyed_store\<close>, interpreted for the
    admissions and for the revocations); the slots of members and the choice of a free one; and the cache
    of \<^verbatim>\<open>Valid\<close>, used without the lock, under every interleaving.
  \<^item> \<open>Overlay\<close>: \<^verbatim>\<open>overlay/overlay.go\<close>, \<^verbatim>\<open>overlay/node.go\<close>. Slots and addresses correspond one to one.
  \<^item> \<open>Token\<close>, \<open>Enrol_Protocol\<close>: \<^verbatim>\<open>enrol/token.go\<close>, \<^verbatim>\<open>enrol/protocol.go\<close>, \<^verbatim>\<open>enrol/server.go\<close>. Both sides of the
    exchange as functions on a byte connection, with what each side may conclude from it.
  \<^item> \<open>State_File\<close>, \<open>Replace_Windows\<close>: \<^verbatim>\<open>cluster/state.go\<close>, \<^verbatim>\<open>replace_other.go\<close>, \<^verbatim>\<open>replace_windows.go\<close>. Saving goes
    through explicit file systems, one per step, with every call allowed to fail; on Windows the retry
    loop ends and refines the plain rename (locales \<open>retry_clock\<close> and \<open>windows_files\<close>).
  \<^item> \<open>Cluster\<close>, \<open>Cluster_Example\<close>, \<open>Cluster_Enrolment\<close>, \<open>Cluster_Gossip\<close>, \<open>Cluster_Members\<close>: \<^verbatim>\<open>cluster/cluster.go\<close>. A
    running member refines the set; the enrolment server composed with the cluster's admission (locale
    \<open>admission_service\<close>, interpreted for the cluster); gossip ends and converges, every member passing a record on at most once; snapshots hold exactly
    the verified members; a restart comes back.
  \<^item> \<open>Transport\<close>, \<open>Enrol_Dial\<close>: \<^verbatim>\<open>cluster/transport.go\<close>, \<^verbatim>\<open>cluster/enrol.go\<close>. Goroutines are tasks of the state and
    every interleaving is a run of a step relation; only members' connections reach memberlist.
  \<^item> \<open>Wireguard\<close>, \<open>Userspace\<close>, \<open>Link_Linux\<close>, \<open>Link_Linux_User\<close>, \<open>Link_Darwin\<close>, \<open>Link_Windows\<close>: \<^verbatim>\<open>wg/wireguard.go\<close>, \<^verbatim>\<open>wg/status.go\<close>,
    \<^verbatim>\<open>link_linux.go\<close>, \<^verbatim>\<open>userspace.go\<close>, \<^verbatim>\<open>link_darwin.go\<close>, \<^verbatim>\<open>tunname_darwin.go\<close>, \<^verbatim>\<open>link_windows.go\<close> and the
    \<^verbatim>\<open>platform\<close> files. The locale \<open>platform\<close> is the interface between them: what adding, deleting and listing
    routes and configuring peers have to do for \<^verbatim>\<open>SetUpInterface\<close> to leave exactly the cluster, and
    \<open>removable\<close> what deleting a device has to do for it to be gone. The linkers of Linux, with the kernel's
    device or one of the process, of macOS and of Windows are shown to provide both (sublocales \<open>linux_kernel\<close>,
    \<open>linux_links\<close>, \<open>linux_user\<close>, \<open>macos_kernel\<close>, \<open>windows_stack\<close>) on any kernel that keeps the documented
    promises of netlink, of the routing socket and of the IP helper library. The userspace device rests on the
    locale \<open>tun_library\<close>, which on Unix is derived (\<open>unix_library\<close>) from the device and file calls of wireguard-go
    through the code of \<^verbatim>\<open>uapi_unix.go\<close>, which leaves the socket's file behind when listening on it fails.
    Two promises are idealised or left open: deleting a route on macOS leaves none to its destination, and on
    Windows a route through a gateway may be listed and is then neither a route of the cluster's nor removed
    (\<open>gateway_route_stays\<close>).
  \<^item> \<open>Etc_Hosts\<close>: \<^verbatim>\<open>etchosts/etchosts.go\<close>, \<^verbatim>\<open>cli/hosts.go\<close>. The managed block is exact, rewriting it again changes nothing, and a
    rewrite that reports success has replaced the file completely. One that fails leaves the old contents, except where
    renaming failed and the copy made instead broke off; the temporary file may stay, as its removal may fail.
  \<^item> \<open>Settings\<close>, \<open>Agent_Loop\<close>, \<open>Agent\<close>, \<open>Service\<close>: \<^verbatim>\<open>cli/settings.go\<close>, \<^verbatim>\<open>cli/bind.go\<close>, \<^verbatim>\<open>cli/agent_loop.go\<close>,
    \<^verbatim>\<open>cli/agent.go\<close>, \<^verbatim>\<open>notify\<close>, \<^verbatim>\<open>cli/execute_windows.go\<close>, \<^verbatim>\<open>cli/service_windows.go\<close>. From the start of an agent
    through every snapshot to its stop, and what the service manager sees of it.
  \<^item> \<open>Control\<close>, \<open>Control_Agent\<close>, \<open>Commands\<close>: \<^verbatim>\<open>control/control.go\<close>, \<^verbatim>\<open>cli/control.go\<close>, \<^verbatim>\<open>cli/leave.go\<close>,
    \<^verbatim>\<open>cli/invite.go\<close>, \<^verbatim>\<open>cli/revoke.go\<close>. The socket, its serving and closing, and what each request does.
  \<^item> \<open>Config\<close>, \<open>Config_Cmd\<close>, \<open>Status\<close>: \<^verbatim>\<open>cli/config.go\<close>, \<^verbatim>\<open>cli/configcmd.go\<close>, \<^verbatim>\<open>cli/status.go\<close>,
    \<^verbatim>\<open>cli/status_render.go\<close>. A configuration file is accepted only with the shape and the keys the code
    checks for (the values are then kong's to judge), only one of its sections applies, printed settings come
    back, writing only appends.

  \<^bold>\<open>How state and operations correspond.\<close> A struct is a record, an error a value of a sum or option type,
  a Go map an association list whose order is arbitrary, a 64-bit time stamp a word read as signed. An
  operation on shared state is what the source does between taking and releasing its lock; where the
  source does without a lock, or where goroutines share state (\<open>Trust_Cache\<close>, \<open>Transport\<close>, \<open>Control\<close>, \<open>Service\<close>),
  the steps between two accesses are separate and an inductive relation runs them in every order; the few accesses
  taken as one step (the last ones of a goroutine at its end, a look-up with the send after it, \<^verbatim>\<open>Shutdown\<close> up to its
  wait) are named at the head of their theory. An enrolment exchange is followed by itself: others that use the
  token store during it are not interleaved with it. What a
  system call answers is an argument or a field of a record of faults, so that every failure is covered.
  Logging is left out. Not among the failures are the write of a response on the control socket, whose error the
  code ignores too, and the modes of a socket on Windows, which go by the directory there and not by permissions.

  \<^bold>\<open>Parameters.\<close> Code outside the repository is a parameter with its documented behaviour as a hypothesis:
  Ed25519, SHA-256, HMAC and HKDF, the JSON and YAML codecs, QUIC and TLS with certificate parsing,
  memberlist, netlink, the BSD routing socket, the IP helper library, wireguard-go and wgctrl, kong, the
  clock and the random source. Where a theorem has such a hypothesis, its witness applies it to a concrete
  instance.

  \<^bold>\<open>Bounds and termination.\<close> No definition has fuel. \<^verbatim>\<open>validAt\<close> ends because the set of questions asked
  along a chain only grows (a measure); the retry loop on Windows is a partial function that is shown to
  return, since sleeping advances the clock; the scaling loop of \<^verbatim>\<open>humanBytes\<close> stops after four steps.
  Serving goroutines are steps, and that they end after a shutdown is a theorem about the runs. Machine integers keep their width where
  it matters: time stamps and slots are 64-bit words, addresses 32- and 128-bit words, ports 16-bit words
  in announcements.

  \<^bold>\<open>Not modelled.\<close> Parsing the command line and the flags (kong), setting up the logger, and \<^verbatim>\<open>main\<close>: calls of
  libraries. The constants of \<^verbatim>\<open>internal/paths\<close> and the file owner of \<^verbatim>\<open>etchosts/owner_*.go\<close>: an argument, and a
  system call among those that may fail. Building TLS configurations and certificates: what matters of them, which
  identities a handshake accepts, is in \<open>Transport\<close>. The layout of tables (\<^verbatim>\<open>text/tabwriter\<close>) and of JSON.
\<close>

end
